(* ===== verification/Prelude.thy ===== *)
theory Prelude
  imports Main "HOL-Library.Char_ord" "HOL-Library.List_Lexorder"
begin

text \<open>
  What every component of the development shares: the exceptions of the program, methods as
  state transformers that may throw, the loops the code is written with, the rules that carry an
  invariant through a method, and the decimal conversions of the C++ standard library.
\<close>

named_theorems act_simps "unfolding rules of the method combinators"
named_theorems keeps_intros "rules that show that a method keeps an invariant"

section \<open>Exceptions\<close>

text \<open>
  One constructor per exception class the code throws. \<open>UndefinedBehaviour\<close> is the value of a path
  on which the C++ code has undefined behaviour (a read before the start of an empty string, signed
  overflow); \<open>NoReturn\<close> is that of an unbounded recursion.
\<close>

datatype exn =
    SoftwareContainerError | GatewayError | InvalidOperationError | ContainerError
  | InvalidContainerError | SoftwareContainerAgentError | ContainerOptionParseError
  | ContainerUtilityInterfaceError
  | ConfigInternalError | ConfigDependencyError | ConfigMandatoryError | ConfigUnknownError
  | ConfigFileError | ConfigNotFoundError
  | ServiceManifestPathError | ServiceManifestParseError | CapabilityParseError
  | LimitRangeError | BadSuffixError | JSonError | InvalidInputError | IPAllocationError
  | GatewayParserError
  | StdInvalidArgument | StdOutOfRange | GlibError
  | UndefinedBehaviour | NoReturn

section \<open>Methods\<close>

text \<open>
  A method takes the object it works on and the world outside it and gives its result, or the
  exception it throws, with the new object and world. Assignments made before a throw stay, as in
  the code.
\<close>

type_synonym ('s, 'a) act = "'s \<Rightarrow> (exn + 'a) \<times> 's"

type_synonym ('o, 'w, 'a) meth = "('o \<times> 'w, 'a) act"

definition ret :: "'a \<Rightarrow> ('s, 'a) act" where
  "ret a s = (Inr a, s)"

definition throw :: "exn \<Rightarrow> ('s, 'a) act" where
  "throw e s = (Inl e, s)"

definition bnd :: "('s, 'a) act \<Rightarrow> ('a \<Rightarrow> ('s, 'b) act) \<Rightarrow> ('s, 'b) act" where
  "bnd m f s = (case m s of (Inl e, t) \<Rightarrow> (Inl e, t) | (Inr a, t) \<Rightarrow> f a t)"

definition seq :: "('s, unit) act \<Rightarrow> ('s, 'b) act \<Rightarrow> ('s, 'b) act" where
  "seq m n = bnd m (\<lambda>_. n)"

text \<open>\<open>catch m h\<close> is a try block: the handler \<open>h\<close> gives the method that handles an exception, if the
  catch clauses name its class, and \<open>None\<close> where it passes through.\<close>

definition catch :: "('s, 'a) act \<Rightarrow> (exn \<Rightarrow> ('s, 'a) act option) \<Rightarrow> ('s, 'a) act" where
  "catch m h s = (case m s of
      (Inl e, t) \<Rightarrow> (case h e of None \<Rightarrow> (Inl e, t) | Some k \<Rightarrow> k t)
    | (Inr a, t) \<Rightarrow> (Inr a, t))"

text \<open>Reading and writing members of the object, and calling something outside it.\<close>

definition getm :: "('o \<Rightarrow> 'a) \<Rightarrow> ('o, 'w, 'a) meth" where
  "getm f s = (Inr (f (fst s)), s)"

definition updm :: "('o \<Rightarrow> 'o) \<Rightarrow> ('o, 'w, unit) meth" where
  "updm f s = (Inr (), (f (fst s), snd s))"

definition ext :: "('w, 'a) act \<Rightarrow> ('o, 'w, 'a) meth" where
  "ext m s = (case m (snd s) of (r, w) \<Rightarrow> (r, (fst s, w)))"

text \<open>\<open>on get put m\<close> runs a method of a member object of the object.\<close>

definition on :: "('o \<Rightarrow> 'p) \<Rightarrow> ('p \<Rightarrow> 'o \<Rightarrow> 'o) \<Rightarrow> ('p, 'w, 'a) meth \<Rightarrow> ('o, 'w, 'a) meth" where
  "on get put m s = (case m (get (fst s), snd s) of (r, (p, w)) \<Rightarrow> (r, (put p (fst s), w)))"

text \<open>Lifting the value or the exception of a conversion into a method.\<close>

definition lift :: "exn + 'a \<Rightarrow> ('s, 'a) act" where
  "lift r s = (r, s)"

lemma run_exists:
  obtains q k u where "x = (q, (k, u))"
  by (cases x) auto

lemmas act_defs = ret_def throw_def bnd_def seq_def catch_def getm_def updm_def ext_def on_def

text \<open>A method that gives a Boolean and fails on \<open>False\<close>: \<open>if (!m) return false;\<close> then the rest.\<close>

definition andThen :: "('s, bool) act \<Rightarrow> ('s, bool) act \<Rightarrow> ('s, bool) act" where
  "andThen m n = bnd m (\<lambda>ok. if ok then n else ret False)"

fun all_ok :: "('x \<Rightarrow> ('s, bool) act) \<Rightarrow> 'x list \<Rightarrow> ('s, bool) act" where
  "all_ok f [] = ret True"
| "all_ok f (x # xs) = andThen (f x) (all_ok f xs)"

fun for_each :: "('x \<Rightarrow> ('s, unit) act) \<Rightarrow> 'x list \<Rightarrow> ('s, unit) act" where
  "for_each f [] = ret ()"
| "for_each f (x # xs) = seq (f x) (for_each f xs)"

subsection \<open>Laws\<close>

lemma bnd_ret [simp]: "bnd (ret a) f = f a"
  by (rule ext) (simp add: bnd_def ret_def)

lemma bnd_throw [simp]: "bnd (throw e) f = throw e"
  by (rule ext) (simp add: bnd_def throw_def)

lemma andThen_ret [simp]: "andThen (ret True) n = n" "andThen (ret False) n = ret False"
  by (simp_all add: andThen_def)

lemma bnd_assoc: "bnd (bnd m f) g = bnd m (\<lambda>a. bnd (f a) g)"
  by (rule ext) (simp add: bnd_def split: sum.splits prod.splits)

lemma andThen_assoc: "andThen (andThen m n) k = andThen m (andThen n k)"
  unfolding andThen_def by (simp add: bnd_assoc if_distrib [where f = "\<lambda>x. bnd x _"] cong: if_cong)

lemma all_ok_append: "all_ok f (xs @ ys) = andThen (all_ok f xs) (all_ok f ys)"
  by (induction xs) (simp_all add: andThen_assoc)

lemma andThen_True:
  "andThen m n s = (Inr True, t) \<longleftrightarrow> (\<exists>u. m s = (Inr True, u) \<and> n u = (Inr True, t))"
  by (auto simp: andThen_def bnd_def ret_def split: sum.splits prod.splits if_splits)

lemma andThen_run:
  "m s = (Inr b, t) \<Longrightarrow> andThen m n s = (if b then n t else (Inr False, t))"
  "m s = (Inl e, t) \<Longrightarrow> andThen m n s = (Inl e, t)"
  by (simp_all add: andThen_def bnd_def ret_def)

lemma bnd_run:
  "m s = (Inr a, t) \<Longrightarrow> bnd m f s = f a t"
  "m s = (Inl e, t) \<Longrightarrow> bnd m f s = (Inl e, t)"
  by (simp_all add: bnd_def)

section \<open>Invariants of methods\<close>

text \<open>\<open>keeps I m\<close>: the method keeps \<open>I\<close> however it ends, exceptions included.\<close>

definition keeps :: "('s \<Rightarrow> bool) \<Rightarrow> ('s, 'a) act \<Rightarrow> bool" where
  "keeps I m \<longleftrightarrow> (\<forall>s. I s \<longrightarrow> I (snd (m s)))"

lemma keepsD: "keeps I m \<Longrightarrow> I s \<Longrightarrow> m s = (r, t) \<Longrightarrow> I t"
  by (force simp: keeps_def)

lemma keepsD2: "keeps I m \<Longrightarrow> I s \<Longrightarrow> I (snd (m s))"
  by (simp add: keeps_def)

lemma keepsI: "(\<And>s. I s \<Longrightarrow> I (snd (m s))) \<Longrightarrow> keeps I m"
  by (simp add: keeps_def)

lemma keeps_ret [keeps_intros]: "keeps I (ret a)"
  by (simp add: keeps_def ret_def)

lemma keeps_throw [keeps_intros]: "keeps I (throw e)"
  by (simp add: keeps_def throw_def)

lemma keeps_getm [keeps_intros]: "keeps I (getm f)"
  by (simp add: keeps_def getm_def)

lemma keeps_bnd [keeps_intros]:
  assumes "keeps I m" and "\<And>a. keeps I (f a)"
  shows "keeps I (bnd m f)"
  using assms unfolding keeps_def bnd_def
  by (fastforce split: sum.splits prod.splits)

lemma keeps_seq [keeps_intros]: "keeps I m \<Longrightarrow> keeps I n \<Longrightarrow> keeps I (seq m n)"
  by (simp add: seq_def keeps_bnd)

lemma keeps_if [keeps_intros]:
  "(b \<Longrightarrow> keeps I m) \<Longrightarrow> (\<not> b \<Longrightarrow> keeps I n) \<Longrightarrow> keeps I (if b then m else n)"
  by simp

lemma keeps_case_option [keeps_intros]:
  "keeps I m \<Longrightarrow> (\<And>a. keeps I (f a)) \<Longrightarrow> keeps I (case x of None \<Rightarrow> m | Some a \<Rightarrow> f a)"
  by (simp split: option.splits)

lemma keeps_case_prod [keeps_intros]:
  "(\<And>a b. keeps I (f a b)) \<Longrightarrow> keeps I (case x of (a, b) \<Rightarrow> f a b)"
  by (simp split: prod.splits)

lemma keeps_andThen [keeps_intros]: "keeps I m \<Longrightarrow> keeps I n \<Longrightarrow> keeps I (andThen m n)"
  unfolding andThen_def by (intro keeps_intros)

lemma keeps_catch [keeps_intros]:
  assumes "keeps I m" and "\<And>e k. h e = Some k \<Longrightarrow> keeps I k"
  shows "keeps I (catch m h)"
  using assms unfolding keeps_def catch_def
  by (fastforce split: sum.splits prod.splits option.splits)

lemma keeps_all_ok [keeps_intros]: "(\<And>x. keeps I (f x)) \<Longrightarrow> keeps I (all_ok f xs)"
  by (induction xs) (auto intro: keeps_intros)

lemma keeps_for_each [keeps_intros]: "(\<And>x. keeps I (f x)) \<Longrightarrow> keeps I (for_each f xs)"
  by (induction xs) (auto intro: keeps_intros)

lemma keeps_updm: "(\<And>s w. I (s, w) \<Longrightarrow> I (f s, w)) \<Longrightarrow> keeps I (updm f)"
  by (auto simp: keeps_def updm_def)

lemma keeps_ext: "(\<And>s w w'. I (s, w) \<Longrightarrow> I (s, w')) \<Longrightarrow> keeps I (ext m)"
  by (auto simp: keeps_def ext_def split: prod.splits)

lemma keeps_ext_inv: "(\<And>s. keeps (\<lambda>w. I (s, w)) m) \<Longrightarrow> keeps I (ext m)"
  unfolding keeps_def ext_def by (auto split: prod.splits) (metis snd_conv)

lemma keeps_lift [keeps_intros]: "keeps I (lift r)"
  by (simp add: keeps_def lift_def)

lemma keeps_on:
  assumes "\<And>g. keeps (\<lambda>(p, w). I (upd p g, w)) m" and "\<And>g. upd (get g) g = g"
  shows "keeps I (on get upd m)"
proof (rule keepsI)
  fix s assume "I s"
  obtain g w where s: "s = (g, w)" by force
  obtain r p v where run: "m (get g, w) = (r, (p, v))" by (rule run_exists)
  from keepsD [OF assms(1) [of g] _ run] \<open>I s\<close> s assms(2) show "I (snd (on get upd m s))"
    by (simp add: on_def run)
qed

section \<open>Triples\<close>

text \<open>\<open>triple P m Q X\<close>: from a state with \<open>P\<close> the method ends with \<open>Q\<close> of its result, or throws with \<open>X\<close> of
  the exception.\<close>

definition triple :: "('s \<Rightarrow> bool) \<Rightarrow> ('s, 'a) act \<Rightarrow> ('a \<Rightarrow> 's \<Rightarrow> bool) \<Rightarrow> (exn \<Rightarrow> 's \<Rightarrow> bool) \<Rightarrow> bool" where
  "triple P m Q X \<longleftrightarrow> (\<forall>s. P s \<longrightarrow> (case m s of (Inl e, t) \<Rightarrow> X e t | (Inr a, t) \<Rightarrow> Q a t))"

lemma tripleD: "triple P m Q X \<Longrightarrow> P s \<Longrightarrow> m s = (r, t) \<Longrightarrow> (case r of Inl e \<Rightarrow> X e t | Inr a \<Rightarrow> Q a t)"
  by (force simp: triple_def split: sum.splits)

lemma triple_pre: "triple P m Q X \<Longrightarrow> (\<And>s. P' s \<Longrightarrow> P s) \<Longrightarrow> triple P' m Q X"
  by (simp add: triple_def)

lemma triple_post:
  "triple P m Q X \<Longrightarrow> (\<And>a s. Q a s \<Longrightarrow> Q' a s) \<Longrightarrow> (\<And>e s. X e s \<Longrightarrow> X' e s) \<Longrightarrow> triple P m Q' X'"
  unfolding triple_def by (fastforce split: sum.splits prod.splits)

lemma triple_ret: "(\<And>s. P s \<Longrightarrow> Q a s) \<Longrightarrow> triple P (ret a) Q X"
  by (simp add: triple_def ret_def)

lemma triple_throw: "(\<And>s. P s \<Longrightarrow> X e s) \<Longrightarrow> triple P (throw e) Q X"
  by (simp add: triple_def throw_def)

lemma triple_bnd: "triple P m R X \<Longrightarrow> (\<And>a. triple (R a) (f a) Q X) \<Longrightarrow> triple P (bnd m f) Q X"
  unfolding triple_def bnd_def by (fastforce split: sum.splits prod.splits)

lemma triple_seq: "triple P m (\<lambda>_. R) X \<Longrightarrow> triple R n Q X \<Longrightarrow> triple P (seq m n) Q X"
  unfolding seq_def by (rule triple_bnd)

lemma triple_andThen:
  "triple P m (\<lambda>ok s. if ok then R s else Q False s) X \<Longrightarrow> triple R n Q X \<Longrightarrow> triple P (andThen m n) Q X"
  unfolding andThen_def by (rule triple_bnd) (auto intro: triple_ret)

lemma triple_getm: "(\<And>s. P s \<Longrightarrow> Q (f (fst s)) s) \<Longrightarrow> triple P (getm f) Q X"
  by (simp add: triple_def getm_def)

text \<open>Reading a member whose value the precondition says something about.\<close>

lemma triple_get: "(\<And>a. triple (\<lambda>s. P s \<and> f (fst s) = a) (k a) Q X) \<Longrightarrow> triple P (bnd (getm f) k) Q X"
  by (simp add: triple_def bnd_def getm_def)

lemma triple_updm: "(\<And>x w. P (x, w) \<Longrightarrow> Q () (f x, w)) \<Longrightarrow> triple P (updm f) Q X"
  by (simp add: triple_def updm_def)

lemma triple_if: "(b \<Longrightarrow> triple P m Q X) \<Longrightarrow> (\<not> b \<Longrightarrow> triple P n Q X) \<Longrightarrow> triple P (if b then m else n) Q X"
  by simp

lemma triple_keeps: "keeps P m \<Longrightarrow> triple P m (\<lambda>_. P) (\<lambda>_. P)"
  unfolding triple_def keeps_def by (force split: sum.splits prod.splits)

lemma keeps_triple: "keeps I m \<longleftrightarrow> triple I m (\<lambda>_. I) (\<lambda>_. I)"
proof -
  have "(case m s of (Inl e, t) \<Rightarrow> I t | (Inr a, t) \<Rightarrow> I t) \<longleftrightarrow> I (snd (m s))" for s
    by (simp split: prod.split sum.split)
  then show ?thesis by (simp add: keeps_def triple_def)
qed

section \<open>First matches\<close>

text \<open>A value from the first of two places that has one.\<close>

definition first_of :: "'a option \<Rightarrow> 'a option \<Rightarrow> 'a option" where
  "first_of a b = (case a of None \<Rightarrow> b | Some x \<Rightarrow> Some x)"

lemma find_append: "find P (xs @ ys) = first_of (find P xs) (find P ys)"
  by (induction xs) (simp_all add: first_of_def)

lemma first_of_None [simp]: "first_of None b = b" "first_of a None = a"
  by (simp_all add: first_of_def split: option.split)

lemma find_filter: "find P (filter Q xs) = find (\<lambda>x. Q x \<and> P x) xs"
  by (induction xs) auto

section \<open>Decimal numbers\<close>

text \<open>\<open>std::to_string\<close> on integers.\<close>

definition digit_char :: "nat \<Rightarrow> char" where
  "digit_char d = char_of (48 + d)"

fun show_nat :: "nat \<Rightarrow> string" where
  "show_nat n = (if n < 10 then [digit_char n] else show_nat (n div 10) @ [digit_char (n mod 10)])"

declare show_nat.simps [simp del]

definition to_string :: "int \<Rightarrow> string" where
  "to_string i = (if i < 0 then CHR ''-'' # show_nat (nat (- i)) else show_nat (nat i))"

text \<open>The conversions of \<open>strtoll\<close>, \<open>std::stoll\<close> and \<open>std::stoi\<close>: white space, a sign, digits.\<close>

definition is_digit :: "char \<Rightarrow> bool" where
  "is_digit c \<longleftrightarrow> 48 \<le> (of_char c :: nat) \<and> (of_char c :: nat) \<le> 57"

definition digit_value :: "char \<Rightarrow> nat" where
  "digit_value c = of_char c - 48"

definition is_space :: "char \<Rightarrow> bool" where
  "is_space c \<longleftrightarrow> (of_char c :: nat) = 32 \<or> (9 \<le> (of_char c :: nat) \<and> (of_char c :: nat) \<le> 13)"

fun read_digits :: "nat \<Rightarrow> string \<Rightarrow> nat" where
  "read_digits n [] = n"
| "read_digits n (c # cs) = (if is_digit c then read_digits (10 * n + digit_value c) cs else n)"

text \<open>\<open>None\<close> where no conversion is possible, the unbounded value otherwise.\<close>

definition scan_unsigned :: "string \<Rightarrow> nat option" where
  "scan_unsigned s = (case s of [] \<Rightarrow> None | c # cs \<Rightarrow> if is_digit c then Some (read_digits 0 s) else None)"

definition scan_int :: "string \<Rightarrow> int option" where
  "scan_int s = (case dropWhile is_space s of
      [] \<Rightarrow> None
    | c # cs \<Rightarrow> if c = CHR ''-'' then map_option (\<lambda>n. - int n) (scan_unsigned cs)
                else if c = CHR ''+'' then map_option int (scan_unsigned cs)
                else map_option int (scan_unsigned (c # cs)))"

definition int_max :: int where "int_max = 2147483647"
definition int_min :: int where "int_min = -2147483648"
definition llong_max :: int where "llong_max = 9223372036854775807"
definition llong_min :: int where "llong_min = -9223372036854775808"

lemmas limit_defs = int_max_def int_min_def llong_max_def llong_min_def

text \<open>\<open>strtoll(s, NULL, 10)\<close>: the clamped value, and whether it sets \<open>errno\<close> to \<open>ERANGE\<close>.\<close>

definition strtoll :: "string \<Rightarrow> int \<times> bool" where
  "strtoll s = (case scan_int s of
      None \<Rightarrow> (0, False)
    | Some v \<Rightarrow> if v > llong_max then (llong_max, True)
                else if v < llong_min then (llong_min, True) else (v, False))"

definition stoll :: "string \<Rightarrow> exn + int" where
  "stoll s = (case scan_int s of
      None \<Rightarrow> Inl StdInvalidArgument
    | Some v \<Rightarrow> if v > llong_max \<or> v < llong_min then Inl StdOutOfRange else Inr v)"

definition stoi :: "string \<Rightarrow> exn + int" where
  "stoi s = (case scan_int s of
      None \<Rightarrow> Inl StdInvalidArgument
    | Some v \<Rightarrow> if v > int_max \<or> v < int_min then Inl StdOutOfRange else Inr v)"

subsection \<open>Reading back what was written\<close>

lemma of_char_digit: "d < 10 \<Longrightarrow> (of_char (digit_char d) :: nat) = 48 + d"
  by (simp add: digit_char_def)

lemma digit_char_props:
  "d < 10 \<Longrightarrow> is_digit (digit_char d)" "d < 10 \<Longrightarrow> digit_value (digit_char d) = d"
  "d < 10 \<Longrightarrow> \<not> is_space (digit_char d)" "d < 10 \<Longrightarrow> digit_char d \<noteq> CHR ''-''"
  "d < 10 \<Longrightarrow> digit_char d \<noteq> CHR ''+''"
proof -
  show "d < 10 \<Longrightarrow> digit_char d \<noteq> CHR ''-''" "d < 10 \<Longrightarrow> digit_char d \<noteq> CHR ''+''"
    using of_char_digit [of d] by auto
qed (auto simp: is_digit_def digit_value_def is_space_def of_char_digit)

lemma show_nat_digits: "\<forall>c \<in> set (show_nat n). is_digit c"
proof (induction n rule: show_nat.induct)
  case (1 n)
  then show ?case
    by (subst show_nat.simps) (auto simp: digit_char_props)
qed

lemma show_nat_ne: "show_nat n \<noteq> []"
  by (subst show_nat.simps) simp

lemma read_digits_append:
  "\<forall>c \<in> set xs. is_digit c \<Longrightarrow> read_digits n (xs @ ys) = read_digits (read_digits n xs) ys"
  by (induction xs arbitrary: n) auto

lemma read_show_nat: "read_digits 0 (show_nat n) = n"
proof (induction n rule: show_nat.induct)
  case (1 n)
  show ?case
  proof (cases "n < 10")
    case True
    then show ?thesis by (subst show_nat.simps) (simp add: digit_char_props)
  next
    case False
    with 1 show ?thesis
      by (subst show_nat.simps) (simp add: digit_char_props read_digits_append show_nat_digits)
  qed
qed

lemma hd_show_nat: "show_nat n = c # cs \<Longrightarrow> is_digit c"
  using show_nat_digits [of n] by auto

lemma is_digit_not: "is_digit c \<Longrightarrow> \<not> is_space c \<and> c \<noteq> CHR ''-'' \<and> c \<noteq> CHR ''+''"
  by (auto simp: is_digit_def is_space_def)

lemma scan_unsigned_show_nat: "scan_unsigned (show_nat n) = Some n"
proof (cases "show_nat n")
  case (Cons c cs)
  moreover have "read_digits 0 (c # cs) = n" using read_show_nat [of n] Cons by simp
  ultimately show ?thesis using hd_show_nat [OF Cons] by (simp add: scan_unsigned_def)
qed (simp add: show_nat_ne)

lemma scan_to_string [simp]: "scan_int (to_string i) = Some i"
proof (cases "i < 0")
  case True
  then show ?thesis
    by (simp add: to_string_def scan_int_def is_space_def scan_unsigned_show_nat)
next
  case False
  obtain c cs where c: "show_nat (nat i) = c # cs" using show_nat_ne by (cases "show_nat (nat i)") auto
  with False hd_show_nat [OF c] is_digit_not [of c] scan_unsigned_show_nat [of "nat i"] show ?thesis
    by (simp add: to_string_def scan_int_def c)
qed

lemma stoll_to_string: "llong_min \<le> i \<Longrightarrow> i \<le> llong_max \<Longrightarrow> stoll (to_string i) = Inr i"
  by (simp add: stoll_def)

lemma stoi_to_string: "int_min \<le> i \<Longrightarrow> i \<le> int_max \<Longrightarrow> stoi (to_string i) = Inr i"
  by (simp add: stoi_def)

end
