(* ===== verification/StdMap.thy ===== *)
theory StdMap
  imports Prelude
begin

text \<open>
  \<open>std::map\<close>: an association list kept in the order of its keys, which is the order in which
  the range-based loops of the code run over it. Strings are ordered as \<open>std::string\<close> orders
  them, by the codes of their characters. The interface the components rely on is the locale
  \<open>dictionary\<close>; its interpretation discharges the laws for the association list.
\<close>

type_synonym ('k, 'v) std_map = "('k \<times> 'v) list"

text \<open>\<open>m[k] = v\<close>, \<open>m.erase(k)\<close>, \<open>m.count(k)\<close>; \<open>m.at(k)\<close> and \<open>m.find(k)\<close> are \<open>map_of m k\<close>.\<close>

fun put :: "'k::linorder \<Rightarrow> 'v \<Rightarrow> ('k, 'v) std_map \<Rightarrow> ('k, 'v) std_map" where
  "put k v [] = [(k, v)]"
| "put k v ((a, b) # m) =
     (if k < a then (k, v) # (a, b) # m else if k = a then (k, v) # m else (a, b) # put k v m)"

definition erase :: "'k \<Rightarrow> ('k, 'v) std_map \<Rightarrow> ('k, 'v) std_map" where
  "erase k m = filter (\<lambda>p. fst p \<noteq> k) m"

definition has_key :: "'k \<Rightarrow> ('k, 'v) std_map \<Rightarrow> bool" where
  "has_key k m \<longleftrightarrow> map_of m k \<noteq> None"

definition keys :: "('k, 'v) std_map \<Rightarrow> 'k list" where
  "keys m = map fst m"

definition ordered :: "('k::linorder, 'v) std_map \<Rightarrow> bool" where
  "ordered m \<longleftrightarrow> sorted_wrt (<) (map fst m)"

lemma map_of_put [simp]: "map_of (put k v m) = (map_of m)(k \<mapsto> v)"
  by (induction k v m rule: put.induct) auto

lemma map_of_erase [simp]: "map_of (erase k m) = (map_of m)(k := None)"
  by (induction m) (auto simp: erase_def)

lemma set_keys_put: "fst ` set (put k v m) = insert k (fst ` set m)"
  by (induction k v m rule: put.induct) auto

lemma ordered_Nil [simp]: "ordered []"
  by (simp add: ordered_def)

lemma ordered_put [simp]: "ordered m \<Longrightarrow> ordered (put k v m)"
proof (induction k v m rule: put.induct)
  case (2 k v a b m)
  then show ?case
    using set_keys_put [of k v m] by (auto simp: ordered_def)
qed (simp add: ordered_def)

lemma ordered_erase [simp]: "ordered m \<Longrightarrow> ordered (erase k m)"
  unfolding ordered_def erase_def by (induction m) auto

lemma ordered_distinct: "ordered m \<Longrightarrow> distinct (map fst m)"
  by (simp add: ordered_def strict_sorted_iff)

lemma set_keys [simp]: "set (keys m) = dom (map_of m)"
  by (simp add: keys_def dom_map_of_conv_image_fst)

lemma has_key_dom: "has_key k m \<longleftrightarrow> k \<in> dom (map_of m)"
  by (auto simp: has_key_def)

lemma in_set_put:
  "x \<in> set (put k v m) \<Longrightarrow> x = (k, v) \<or> x \<in> set m"
  by (induction k v m rule: put.induct) (auto split: if_splits)

text \<open>The interface of a dictionary with ordered iteration.\<close>

locale dictionary =
  fixes empty :: "'m"
    and lookup :: "'m \<Rightarrow> 'k::linorder \<Rightarrow> 'v option"
    and update :: "'k \<Rightarrow> 'v \<Rightarrow> 'm \<Rightarrow> 'm"
    and delete :: "'k \<Rightarrow> 'm \<Rightarrow> 'm"
    and key_list :: "'m \<Rightarrow> 'k list"
    and inv :: "'m \<Rightarrow> bool"
  assumes lookup_empty: "lookup empty = (\<lambda>_. None)"
    and lookup_update: "lookup (update k v m) = (lookup m)(k \<mapsto> v)"
    and lookup_delete: "lookup (delete k m) = (lookup m)(k := None)"
    and key_set: "set (key_list m) = dom (lookup m)"
    and key_order: "inv m \<Longrightarrow> sorted_wrt (<) (key_list m)"
    and inv_empty: "inv empty"
    and inv_update: "inv m \<Longrightarrow> inv (update k v m)"
    and inv_delete: "inv m \<Longrightarrow> inv (delete k m)"
begin

lemma keys_update: "set (key_list (update k v m)) = insert k (set (key_list m))"
  by (auto simp: key_set lookup_update)

lemma keys_delete: "set (key_list (delete k m)) = set (key_list m) - {k}"
  by (auto simp: key_set lookup_delete split: if_splits)

lemma keys_distinct: "inv m \<Longrightarrow> distinct (key_list m)"
  using key_order by (simp add: strict_sorted_iff)

lemma delete_update_lookup: "lookup m k = None \<Longrightarrow> lookup (delete k (update k v m)) = lookup m"
  by (simp add: lookup_delete lookup_update fun_upd_idem)

end

interpretation std: dictionary "[]" map_of put erase keys ordered
  by unfold_locales (simp_all add: ordered_def [symmetric] keys_def dom_map_of_conv_image_fst)

end
