(* ===== verification/Environ.thy ===== *)
theory Environ
  imports StdMap
begin

text \<open>
  The world outside the program: the kernel, LXC, the spawned programs. The program reaches it by
  calls, and what a call answers is a parameter of the model, a function of the calls made so far.
  The calls are recorded, latest first, so that a property can speak of what the program did and in
  which order. The file functions of \<open>common/softwarecontainer-common.cpp\<close> stand on these calls.
\<close>

datatype mount_flag = MS_BIND | MS_REMOUNT | MS_RDONLY | MS_UNBINDABLE | MS_SHARED | MS_MOVE

datatype umount_flag = MNT_DETACH | MNT_FORCE

datatype file_call =
    Stat string | OpenDir string | ReadDirEntry string | CloseDir string
  | Mkdir string | Mkdtemp string | Nftw string | Ftw string string | Unlink string
  | OpenCreate string | OpenOutput string | Close int | OpenWrite string | WriteText string string | Access string
  | WriteFd int string | ReadText string | Chdir string | Chmod string int

datatype mount_call =
    MountCall string string string "mount_flag list" string
  | Umount string | Umount2 string umount_flag | SetMntent string | GetMntent

datatype proc_call =
    Kill int int | WaitPid int | SpawnClosePid int | Pipe | Usleep int
  | Spawn "string list" "string list" | SpawnStdin | SpawnLine string | SpawnSync "string list" | Execvp "string list"
  | Setenv string string | Getrlimit | Setrlimit

datatype lxc_call =
    LxcNew string | LxcPut | LxcIsDefined | LxcLoadConfig string | LxcCreate string
  | LxcIsRunning | LxcState | LxcWait string int | LxcStart "string list" | LxcStop
  | LxcShutdown int | LxcDestroy | LxcFreeze | LxcUnfreeze | LxcInitPid
  | LxcSetCgroupItem string string | LxcAddDeviceNode string
  | LxcAttach "string list" int int int
  | LxcListAll | LxcOldIsRunning string | LxcOldStop string | LxcOldDestroy string

datatype call = File file_call | Mnt mount_call | Proc proc_call | Lxc lxc_call

type_synonym calls = "call list"

text \<open>An answer is a return code and, where the call hands one out, a string. The path functions and
  the shell parser of Glib are pure.\<close>

record environment =
  answer :: "calls \<Rightarrow> call \<Rightarrow> int \<times> string"
  build_filename :: "string \<Rightarrow> string \<Rightarrow> string"
  path_get_basename :: "string \<Rightarrow> string"
  shell_parse_argv :: "string \<Rightarrow> string list option"
  getenv :: "string \<Rightarrow> string option"

definition sys :: "environment \<Rightarrow> call \<Rightarrow> (calls, int) act" where
  "sys E c h = (Inr (fst (answer E h c)), c # h)"

definition sysText :: "environment \<Rightarrow> call \<Rightarrow> (calls, int \<times> string) act" where
  "sysText E c h = (Inr (answer E h c), c # h)"

section \<open>softwarecontainer-common\<close>

text \<open>\<open>Stat\<close> answers -1 where \<open>stat\<close> fails and the file type bits of \<open>st_mode\<close> otherwise.\<close>

definition S_IFDIR :: int where "S_IFDIR = 16384"
definition S_IFREG :: int where "S_IFREG = 32768"
definition S_IFIFO :: int where "S_IFIFO = 4096"
definition S_IFSOCK :: int where "S_IFSOCK = 49152"

lemmas stat_defs = S_IFDIR_def S_IFREG_def S_IFIFO_def S_IFSOCK_def

definition INVALID_PID :: int where "INVALID_PID = -1"
definition INVALID_FD :: int where "INVALID_FD = -1"

definition getStat :: "environment \<Rightarrow> string \<Rightarrow> (calls, int option) act" where
  "getStat E path = bnd (sys E (File (Stat path))) (\<lambda>r. ret (if r = -1 then None else Some r))"

definition isDirectory :: "environment \<Rightarrow> string \<Rightarrow> (calls, bool) act" where
  "isDirectory E path = bnd (getStat E path) (\<lambda>st. case st of
     Some mode \<Rightarrow> ret (mode = S_IFDIR) | None \<Rightarrow> ret False)"

definition isFile :: "environment \<Rightarrow> string \<Rightarrow> (calls, bool) act" where
  "isFile E path = bnd (getStat E path) (\<lambda>st. case st of
     Some mode \<Rightarrow> ret (mode = S_IFREG) | None \<Rightarrow> ret False)"

definition isPipe :: "environment \<Rightarrow> string \<Rightarrow> (calls, bool) act" where
  "isPipe E path = bnd (getStat E path) (\<lambda>st. case st of
     Some mode \<Rightarrow> ret (mode = S_IFIFO) | None \<Rightarrow> ret False)"

definition isSocket :: "environment \<Rightarrow> string \<Rightarrow> (calls, bool) act" where
  "isSocket E path = bnd (getStat E path) (\<lambda>st. case st of
     Some mode \<Rightarrow> ret (mode = S_IFSOCK) | None \<Rightarrow> ret False)"

definition existsInFileSystem :: "environment \<Rightarrow> string \<Rightarrow> (calls, bool) act" where
  "existsInFileSystem E path = bnd (getStat E path) (\<lambda>st. ret (st \<noteq> None))"

text \<open>The loop of \<open>isDirectoryEmpty\<close>: \<open>ReadDirEntry\<close> answers 0 at the end of the directory.\<close>

function countEntries :: "environment \<Rightarrow> string \<Rightarrow> nat \<Rightarrow> (calls, nat) act" where
  "countEntries E path n =
     (if n > 2 then ret n
      else bnd (sys E (File (ReadDirEntry path))) (\<lambda>d. if d = 0 then ret n else countEntries E path (Suc n)))"
  by pat_completeness auto
termination
  by (relation "measure (\<lambda>(E, path, n). 3 - n)") auto

declare countEntries.simps [simp del]

definition isDirectoryEmpty :: "environment \<Rightarrow> string \<Rightarrow> (calls, bool) act" where
  "isDirectoryEmpty E path = bnd (sys E (File (OpenDir path))) (\<lambda>dir.
     if dir = 0 then ret True
     else bnd (countEntries E path 0) (\<lambda>n.
       bnd (sys E (File (CloseDir path))) (\<lambda>_. ret (n \<le> 2))))"

text \<open>\<open>parentPath\<close> is the C library's \<open>dirname\<close>: trailing slashes do not count, the last
  component and the slashes before it go, \<open>.\<close> stands for a path without a directory.\<close>

definition strip_slashes :: "string \<Rightarrow> string" where
  "strip_slashes p = rev (dropWhile (\<lambda>c. c = CHR ''/'') (rev p))"

definition parentPath :: "string \<Rightarrow> string" where
  "parentPath path =
     (let q = strip_slashes path;
          d = rev (dropWhile (\<lambda>c. c \<noteq> CHR ''/'') (rev q))
      in if path \<noteq> [] \<and> q = [] then ''/''
         else if d = [] then ''.''
         else if strip_slashes d = [] then ''/'' else strip_slashes d)"

definition baseName :: "environment \<Rightarrow> string \<Rightarrow> string" where
  "baseName E path = path_get_basename E path"

definition buildPath :: "environment \<Rightarrow> string \<Rightarrow> string \<Rightarrow> string" where
  "buildPath E a b = build_filename E a b"

definition buildPath3 :: "environment \<Rightarrow> string \<Rightarrow> string \<Rightarrow> string \<Rightarrow> string" where
  "buildPath3 E a b c = buildPath E (buildPath E a b) c"

definition touch :: "environment \<Rightarrow> string \<Rightarrow> (calls, bool) act" where
  "touch E path = bnd (sys E (File (OpenCreate path))) (\<lambda>fd.
     if fd \<noteq> -1 then bnd (sys E (File (Close fd))) (\<lambda>_. ret True) else ret False)"

text \<open>\<open>OpenWrite\<close> answers 0 where the stream is not open, \<open>WriteText\<close> 0 where it is not good.\<close>

definition writeToFile :: "environment \<Rightarrow> string \<Rightarrow> string \<Rightarrow> (calls, bool) act" where
  "writeToFile E path content = bnd (sys E (File (OpenWrite path))) (\<lambda>is_open.
     if is_open \<noteq> 0 then bnd (sys E (File (WriteText path content))) (\<lambda>good. ret (good \<noteq> 0))
     else ret False)"

text \<open>\<open>waitForProcessTermination\<close>: \<open>WaitPid\<close> answers what \<open>waitpid\<close> leaves in \<open>status\<close>, which is 0 before
  the call. The macro \<open>WEXITSTATUS\<close> reads bits 8 to 15; a process that exits with a value puts the
  low eight bits of it there, one that is killed leaves the number of the signal in the bits below.\<close>

definition WEXITSTATUS :: "int \<Rightarrow> int" where
  "WEXITSTATUS status = status div 256 mod 256"

definition exit_status :: "int \<Rightarrow> int" where
  "exit_status v = v mod 256 * 256"

definition waitForProcessTermination :: "environment \<Rightarrow> int \<Rightarrow> (calls, int) act" where
  "waitForProcessTermination E pid = bnd (sys E (Proc (WaitPid pid))) (\<lambda>status. ret (WEXITSTATUS status))"

lemma WEXITSTATUS_exit_status [simp]: "WEXITSTATUS (exit_status v) = v mod 256"
  by (simp add: WEXITSTATUS_def exit_status_def)

text \<open>\<open>readFromFile\<close>: \<open>ReadText\<close> answers 1 and the content, or 0 where the stream is not open and 2
  where it is not good after reading.\<close>

definition readFromFile :: "environment \<Rightarrow> string \<Rightarrow> string \<Rightarrow> (calls, bool \<times> string) act" where
  "readFromFile E path old = bnd (sysText E (File (ReadText path))) (\<lambda>(status, content).
     if status = 0 then ret (False, old) else ret (status = 1, content))"

lemma countEntries_pure: "\<exists>k h'. countEntries E path n h = (Inr k, h') \<and> (n \<le> 3 \<longrightarrow> k \<le> 3)"
proof (induction E path n arbitrary: h rule: countEntries.induct)
  case (1 E path n)
  show ?case
  proof (cases "n > 2")
    case True
    then show ?thesis by (simp add: countEntries.simps [of E path n] ret_def)
  next
    case False
    with 1 show ?thesis
      by (auto simp: countEntries.simps [of E path n] bnd_def sys_def ret_def)
  qed
qed

text \<open>A path that is neither the root nor the current directory has a shorter parent; this is what
  ends the climb of \<open>createDirectory\<close>.\<close>

lemma length_strip_slashes: "length (strip_slashes p) \<le> length p"
  using length_dropWhile_le [of _ "rev p"] by (simp add: strip_slashes_def)

lemma parentPath_shorter:
  assumes "parentPath path \<noteq> ''/''" and "parentPath path \<noteq> ''.''"
  shows "length (parentPath path) < length path"
proof -
  let ?q = "strip_slashes path"
  let ?d = "rev (dropWhile (\<lambda>c. c \<noteq> CHR ''/'') (rev ?q))"
  have par: "parentPath path = strip_slashes ?d" and ne: "?d \<noteq> []" and ne': "strip_slashes ?d \<noteq> []"
    using assms by (auto simp: parentPath_def Let_def split: if_splits)
  obtain ds where d: "rev ?d = CHR ''/'' # ds"
    using ne hd_dropWhile [of "\<lambda>c. c \<noteq> CHR ''/''" "rev ?q"]
    by (cases "dropWhile (\<lambda>c. c \<noteq> CHR ''/'') (rev ?q)") auto
  then have "length (strip_slashes ?d) < length ?d"
    using length_strip_slashes [of "rev ds"] length_dropWhile_le [of "\<lambda>c. c = CHR ''/''" ds]
    by (simp add: strip_slashes_def)
  also have "length ?d \<le> length ?q"
    using length_dropWhile_le [of "\<lambda>c. c \<noteq> CHR ''/''" "rev ?q"] by simp
  also have "length ?q \<le> length path" by (rule length_strip_slashes)
  finally show ?thesis by (simp add: par)
qed

end
