(* ===== verification/Json.thy ===== *)
theory Json
  imports StdMap
begin

text \<open>
  JSON documents as the code sees them through jansson, and \<open>JSONParser\<close> of
  \<open>common/jsonparser.cpp\<close>. A document is the tree a \<open>json_t\<close> points to; the keys of an object are
  unique. Parsing the text of a document is jansson's and is a parameter of the definitions that
  do it.
\<close>

datatype json =
    JObject "(string \<times> json) list"
  | JArray "json list"
  | JString string
  | JInteger int
  | JReal string
  | JTrue
  | JFalse
  | JNull

fun json_object_get :: "json \<Rightarrow> string \<Rightarrow> json option" where
  "json_object_get (JObject ps) k = map_of ps k"
| "json_object_get _ k = None"

fun json_is_object :: "json \<Rightarrow> bool" where
  "json_is_object (JObject _) = True"
| "json_is_object _ = False"

fun json_is_array :: "json \<Rightarrow> bool" where
  "json_is_array (JArray _) = True"
| "json_is_array _ = False"

fun json_is_boolean :: "json \<Rightarrow> bool" where
  "json_is_boolean JTrue = True"
| "json_is_boolean JFalse = True"
| "json_is_boolean _ = False"

text \<open>The elements \<open>json_array_foreach\<close> visits: none where the value is not an array.\<close>

fun json_elements :: "json \<Rightarrow> json list" where
  "json_elements (JArray xs) = xs"
| "json_elements _ = []"

lemma json_is_array_conv: "json_is_array j \<longleftrightarrow> j = JArray (json_elements j)"
  by (cases j) auto

lemma json_is_object_conv: "json_is_object j \<longleftrightarrow> (\<exists>ps. j = JObject ps)"
  by (cases j) auto

section \<open>JSONParser\<close>

text \<open>Narrowing of jansson's 64-bit integers to \<open>int\<close>.\<close>

definition to_int32 :: "int \<Rightarrow> int" where
  "to_int32 v = (v + 2147483648) mod 4294967296 - 2147483648"

lemma to_int32_id: "int_min \<le> v \<Longrightarrow> v \<le> int_max \<Longrightarrow> to_int32 v = v"
  by (simp add: to_int32_def limit_defs)

lemma to_int32_range: "int_min \<le> to_int32 v" "to_int32 v \<le> int_max"
  using pos_mod_bound [of 4294967296 "v + 2147483648"]
  by (simp_all add: to_int32_def limit_defs)

text \<open>Each overload returns its result with the value of the reference parameter, which is given the
  old value where nothing is assigned.\<close>

definition readString :: "json \<Rightarrow> string \<Rightarrow> string \<Rightarrow> bool \<times> string" where
  "readString e k old = (case json_object_get e k of
      None \<Rightarrow> (False, old)
    | Some v \<Rightarrow> (case v of JString s \<Rightarrow> (True, s) | _ \<Rightarrow> (False, old)))"

definition readBool :: "json \<Rightarrow> string \<Rightarrow> bool \<Rightarrow> bool \<times> bool" where
  "readBool e k old = (case json_object_get e k of
      None \<Rightarrow> (False, old)
    | Some v \<Rightarrow> if \<not> json_is_boolean v then (False, old) else (True, v = JTrue))"

definition readInt :: "json \<Rightarrow> string \<Rightarrow> int \<Rightarrow> bool \<times> int" where
  "readInt e k old = (case json_object_get e k of
      None \<Rightarrow> (False, old)
    | Some v \<Rightarrow> (case v of JInteger i \<Rightarrow> (True, to_int32 i) | _ \<Rightarrow> (False, old)))"

definition hasKey :: "json \<Rightarrow> string \<Rightarrow> bool" where
  "hasKey e k \<longleftrightarrow> json_object_get e k \<noteq> None"

definition readOptionalString :: "json \<Rightarrow> string \<Rightarrow> string \<Rightarrow> bool \<times> string" where
  "readOptionalString e k old = (if \<not> hasKey e k then (True, old) else readString e k old)"

definition readOptionalBool :: "json \<Rightarrow> string \<Rightarrow> bool \<Rightarrow> bool \<times> bool" where
  "readOptionalBool e k old = (if \<not> hasKey e k then (True, old) else readBool e k old)"

definition readOptionalInt :: "json \<Rightarrow> string \<Rightarrow> int \<Rightarrow> bool \<times> int" where
  "readOptionalInt e k old = (if \<not> hasKey e k then (True, old) else readInt e k old)"

lemmas read_defs = readString_def readBool_def readInt_def hasKey_def
  readOptionalString_def readOptionalBool_def readOptionalInt_def

lemma readString_Some: "readString e k old = (True, s) \<longleftrightarrow> json_object_get e k = Some (JString s)"
  by (auto simp: readString_def split: option.splits json.splits)

lemma readString_fail: "readString e k old = (False, s) \<Longrightarrow> s = old"
  by (auto simp: readString_def split: option.splits json.splits)

lemma readBool_Some:
  "readBool e k old = (True, b) \<longleftrightarrow> json_object_get e k = Some (if b then JTrue else JFalse)"
  by (auto simp: readBool_def split: option.splits if_splits elim!: json_is_boolean.elims)

lemma readInt_Some:
  "readInt e k old = (True, i) \<longleftrightarrow> (\<exists>j. json_object_get e k = Some (JInteger j) \<and> i = to_int32 j)"
  by (auto simp: readInt_def split: option.splits json.splits)

text \<open>The contract the three readers share: a value of the type, encoded under the key, is read
  back; a failed read assigns nothing; an optional read fails only on a key of another type.\<close>

locale json_reader =
  fixes read :: "json \<Rightarrow> string \<Rightarrow> 'a \<Rightarrow> bool \<times> 'a"
    and readOptional :: "json \<Rightarrow> string \<Rightarrow> 'a \<Rightarrow> bool \<times> 'a"
    and encode :: "'a \<Rightarrow> json"
    and valid :: "'a \<Rightarrow> bool"
  assumes read_encode: "json_object_get e k = Some (encode a) \<Longrightarrow> valid a \<Longrightarrow> read e k old = (True, a)"
    and read_fail: "read e k old = (False, a) \<Longrightarrow> a = old"
    and read_missing: "json_object_get e k = None \<Longrightarrow> read e k old = (False, old)"
    and optional: "readOptional e k old =
      (if json_object_get e k = None then (True, old) else read e k old)"
begin

lemma optional_missing: "json_object_get e k = None \<Longrightarrow> readOptional e k old = (True, old)"
  by (simp add: optional)

lemma optional_encode:
  "json_object_get e k = Some (encode a) \<Longrightarrow> valid a \<Longrightarrow> readOptional e k old = (True, a)"
  by (simp add: optional read_encode)

lemma optional_fail: "readOptional e k old = (False, a) \<Longrightarrow> a = old \<and> json_object_get e k \<noteq> None"
  by (auto simp: optional dest: read_fail split: if_splits)

end

interpretation jstr: json_reader readString readOptionalString JString "\<lambda>_. True"
  by unfold_locales (auto simp: read_defs split: option.splits json.splits)

interpretation jbool: json_reader readBool readOptionalBool "\<lambda>b. if b then JTrue else JFalse" "\<lambda>_. True"
  by unfold_locales (auto simp: read_defs split: option.splits json.splits if_splits)

interpretation jint: json_reader readInt readOptionalInt JInteger "\<lambda>i. int_min \<le> i \<and> i \<le> int_max"
  by unfold_locales (auto simp: read_defs to_int32_id split: option.splits json.splits)

end
