(* ===== verification/GatewayConfig.thy ===== *)
theory GatewayConfig
  imports Json
begin

text \<open>
  \<open>GatewayConfiguration\<close> of \<open>common/gatewayconfig.cpp\<close>: for every gateway ID a JSON array of
  configuration elements. The agent builds one from the capabilities it is asked to set and the
  library hands its arrays to the gateways. The model has values: copies are deep in the code but for
  assignment, which shares the arrays, and ConfigMemory shows that nothing stays shared.
\<close>

type_synonym gateway_configuration = "(string, json) std_map"

text \<open>\<open>json_array_append\<close> fails on a value that is not an array.\<close>

fun json_array_append :: "json \<Rightarrow> json \<Rightarrow> json option" where
  "json_array_append (JArray xs) v = Some (JArray (xs @ [v]))"
| "json_array_append _ v = None"

fun appendElements :: "json \<Rightarrow> json list \<Rightarrow> json option" where
  "appendElements dest [] = Some dest"
| "appendElements dest (v # vs) =
     (case json_array_append dest v of None \<Rightarrow> None | Some dest' \<Rightarrow> appendElements dest' vs)"

text \<open>\<open>append(id, json_t *)\<close>: the result and the object. A failed append puts the backup of the
  array back.\<close>

definition appendJson :: "string \<Rightarrow> json \<Rightarrow> gateway_configuration \<Rightarrow> bool \<times> gateway_configuration" where
  "appendJson gid sourceArray conf = (case map_of conf gid of
      Some destArray \<Rightarrow>
        (let backupArray = destArray in
         case appendElements destArray (json_elements sourceArray) of
           None \<Rightarrow> (False, put gid backupArray conf)
         | Some dest \<Rightarrow> (True, put gid dest conf))
    | None \<Rightarrow> (True, put gid sourceArray conf))"

text \<open>\<open>append(id, string)\<close>, with the parser of jansson as a parameter.\<close>

definition appendString ::
    "(string \<Rightarrow> json option) \<Rightarrow> string \<Rightarrow> string \<Rightarrow> gateway_configuration \<Rightarrow> bool \<times> gateway_configuration" where
  "appendString json_loads gid jsonConf conf = (case json_loads jsonConf of
      None \<Rightarrow> (False, conf)
    | Some j \<Rightarrow> appendJson gid j conf)"

text \<open>\<open>append(GatewayConfiguration)\<close> and the copy constructor.\<close>

fun appendAll :: "gateway_configuration \<Rightarrow> gateway_configuration \<Rightarrow> bool \<times> gateway_configuration" where
  "appendAll [] conf = (True, conf)"
| "appendAll ((gid, arr) # source) conf =
     (let (ok, conf') = appendJson gid arr conf
      in if \<not> ok then (False, conf') else appendAll source conf')"

definition copyConfiguration :: "gateway_configuration \<Rightarrow> exn + gateway_configuration" where
  "copyConfiguration gwConf =
     (let (ok, conf) = appendAll gwConf [] in if \<not> ok then Inl SoftwareContainerError else Inr conf)"

definition config :: "gateway_configuration \<Rightarrow> string \<Rightarrow> json option" where
  "config conf gid = (if \<not> has_key gid conf then None else map_of conf gid)"

definition empty_conf :: "gateway_configuration \<Rightarrow> bool" where
  "empty_conf conf \<longleftrightarrow> conf = []"

definition ids :: "gateway_configuration \<Rightarrow> string list" where
  "ids conf = map fst conf"

section \<open>What a configuration holds\<close>

text \<open>The abstract view: the list of elements for each gateway. Every value that the capability
  parser puts in a configuration is an array.\<close>

definition elements :: "gateway_configuration \<Rightarrow> string \<Rightarrow> json list" where
  "elements conf gid = (case map_of conf gid of None \<Rightarrow> [] | Some j \<Rightarrow> json_elements j)"

definition arrays :: "gateway_configuration \<Rightarrow> bool" where
  "arrays conf \<longleftrightarrow> ordered conf \<and> (\<forall>p \<in> set conf. json_is_array (snd p))"

lemma config_map_of: "config conf gid = map_of conf gid"
  by (simp add: config_def has_key_def)

lemma appendElements_array: "appendElements (JArray xs) vs = Some (JArray (xs @ vs))"
  by (induction vs arbitrary: xs) auto

lemma arrays_lookup: "arrays conf \<Longrightarrow> map_of conf gid = Some j \<Longrightarrow> j = JArray (elements conf gid)"
  unfolding arrays_def elements_def using map_of_SomeD by (fastforce simp: json_is_array_conv)

lemma arrays_put: "arrays conf \<Longrightarrow> arrays (put gid (JArray xs) conf)"
  unfolding arrays_def by (auto dest: in_set_put)

lemma appendJson_array:
  assumes "arrays conf"
  shows "appendJson gid (JArray vs) conf = (True, put gid (JArray (elements conf gid @ vs)) conf)"
proof (cases "map_of conf gid")
  case None
  then show ?thesis by (simp add: appendJson_def elements_def)
next
  case (Some j)
  with arrays_lookup [OF assms Some] show ?thesis
    by (simp add: appendJson_def appendElements_array)
qed

lemma elements_put:
  "elements (put gid (JArray xs) conf) g = (if g = gid then xs else elements conf g)"
  by (simp add: elements_def)

lemma arrays_Cons: "arrays ((gid, j) # source) \<Longrightarrow> arrays source \<and> json_is_array j"
  by (auto simp: arrays_def ordered_def)

lemma elements_Cons:
  "elements ((gid, JArray xs) # source) g = (if g = gid then xs else elements source g)"
  by (simp add: elements_def)

lemma arrays_Cons_fresh: "arrays ((gid, j) # source) \<Longrightarrow> elements source gid = []"
  unfolding arrays_def ordered_def elements_def
  by (force split: option.splits dest: map_of_SomeD)

lemma appendAll_arrays:
  "arrays conf \<Longrightarrow> arrays source \<Longrightarrow>
   \<exists>conf'. appendAll source conf = (True, conf') \<and> arrays conf' \<and>
     elements conf' = (\<lambda>g. elements conf g @ elements source g) \<and>
     dom (map_of conf') = dom (map_of conf) \<union> dom (map_of source)"
proof (induction source arbitrary: conf)
  case Nil
  then show ?case by (simp add: elements_def [of "[]"])
next
  case (Cons p source)
  obtain gid j where p: "p = (gid, j)" by (cases p)
  with Cons.prems arrays_Cons obtain xs where j: "j = JArray xs" and "arrays source"
    by (metis json_is_array_conv)
  let ?c = "put gid (JArray (elements conf gid @ xs)) conf"
  from Cons.IH [of ?c] arrays_put Cons.prems(1) \<open>arrays source\<close>
  obtain conf' where run: "appendAll source ?c = (True, conf')" and arr: "arrays conf'"
    and els: "elements conf' = (\<lambda>g. elements ?c g @ elements source g)"
    and doms: "dom (map_of conf') = dom (map_of ?c) \<union> dom (map_of source)" by blast
  have "elements source gid = []"
    using arrays_Cons_fresh Cons.prems(2) by (simp add: p)
  then have "elements conf' = (\<lambda>g. elements conf g @ elements (p # source) g)"
    by (auto simp: els p j elements_put elements_Cons)
  moreover have "dom (map_of conf') = dom (map_of conf) \<union> dom (map_of (p # source))"
    by (auto simp: doms p split: if_splits)
  moreover have "appendAll (p # source) conf = (True, conf')"
    using appendJson_array [OF Cons.prems(1), of gid xs] run by (simp add: p j)
  ultimately show ?case using arr by blast
qed

lemma json_elements_arrays:
  "arrays conf \<Longrightarrow> config conf gid = (if gid \<in> dom (map_of conf) then Some (JArray (elements conf gid)) else None)"
  by (auto simp: config_map_of dest: arrays_lookup)

text \<open>The interface the agent's stores and the library use: appending concatenates per gateway.\<close>

locale configuration =
  fixes none :: "'c"
    and add :: "'c \<Rightarrow> 'c \<Rightarrow> bool \<times> 'c"
    and els :: "'c \<Rightarrow> string \<Rightarrow> json list"
    and inv :: "'c \<Rightarrow> bool"
  assumes none_inv: "inv none" and none_els: "els none g = []"
    and add_ok: "inv a \<Longrightarrow> inv b \<Longrightarrow> fst (add b a)"
    and add_inv: "inv a \<Longrightarrow> inv b \<Longrightarrow> inv (snd (add b a))"
    and add_els: "inv a \<Longrightarrow> inv b \<Longrightarrow> els (snd (add b a)) g = els a g @ els b g"
begin

text \<open>Appending a list of configurations one after the other.\<close>

lemma fold_inv: "inv a \<Longrightarrow> \<forall>c \<in> set cs. inv c \<Longrightarrow> inv (fold (\<lambda>c a. snd (add c a)) cs a)"
  by (induction cs arbitrary: a) (auto simp: add_inv)

lemma fold_els:
  "inv a \<Longrightarrow> \<forall>c \<in> set cs. inv c \<Longrightarrow>
   els (fold (\<lambda>c a. snd (add c a)) cs a) g = els a g @ concat (map (\<lambda>c. els c g) cs)"
  by (induction cs arbitrary: a) (auto simp: add_inv add_els)

end

lemma appendAll_ok: "arrays a \<Longrightarrow> arrays b \<Longrightarrow> fst (appendAll b a)"
  "arrays a \<Longrightarrow> arrays b \<Longrightarrow> arrays (snd (appendAll b a))"
  "arrays a \<Longrightarrow> arrays b \<Longrightarrow> elements (snd (appendAll b a)) g = elements a g @ elements b g"
  using appendAll_arrays [of a b] by auto

lemma arrays_Nil [simp]: "arrays []" and elements_Nil [simp]: "elements [] g = []"
  by (simp_all add: arrays_def elements_def)

interpretation gwconf: configuration "[]" appendAll elements arrays
  by unfold_locales (simp_all add: appendAll_ok)

end
