(* ===== verification/Gateway.thy ===== *)
theory Gateway
  imports GatewayConfig
begin

text \<open>
  The base class \<open>Gateway\<close> of \<open>libsoftwarecontainer/src/gateway\<close>. A derived class extends the
  record and gives the three virtual functions as parameters; the world \<open>'w\<close> outside the object is
  the container the gateway belongs to. The locale \<open>gateway_virtuals\<close> is what a derived class
  promises: its virtual functions leave the members of the base class alone, save that they may
  note that the gateway has been activated once.
\<close>

datatype GatewayState = CREATED | CONFIGURED | ACTIVATED

instantiation GatewayState :: linorder
begin

fun state_number :: "GatewayState \<Rightarrow> nat" where
  "state_number CREATED = 0"
| "state_number CONFIGURED = 1"
| "state_number ACTIVATED = 2"

definition less_eq_GatewayState :: "GatewayState \<Rightarrow> GatewayState \<Rightarrow> bool" where
  "less_eq_GatewayState a b \<longleftrightarrow> state_number a \<le> state_number b"

definition less_GatewayState :: "GatewayState \<Rightarrow> GatewayState \<Rightarrow> bool" where
  "less_GatewayState a b \<longleftrightarrow> state_number a < state_number b"

instance
proof
  fix a b :: GatewayState
  show "a \<le> b \<Longrightarrow> b \<le> a \<Longrightarrow> a = b"
    by (cases a; cases b) (simp_all add: less_eq_GatewayState_def)
qed (auto simp: less_eq_GatewayState_def less_GatewayState_def)

end

record gateway =
  m_id :: string
  m_isDynamic :: bool
  m_state :: GatewayState
  m_activatedOnce :: bool

definition newGateway :: "string \<Rightarrow> bool \<Rightarrow> gateway" where
  "newGateway gid isDynamic =
     \<lparr>m_id = gid, m_isDynamic = isDynamic, m_state = CREATED, m_activatedOnce = False\<rparr>"

type_synonym ('a, 'w) gateway_meth = "('a gateway_scheme, 'w, bool) meth"

text \<open>The loop over the elements of the configuration.\<close>

definition readElements ::
    "(json \<Rightarrow> ('a, 'w) gateway_meth) \<Rightarrow> json list \<Rightarrow> ('a, 'w) gateway_meth" where
  "readElements readConfigElement = all_ok (\<lambda>element.
     if \<not> json_is_object element then ret False else readConfigElement element)"

definition setConfig ::
    "(json \<Rightarrow> ('a, 'w) gateway_meth) \<Rightarrow> json \<Rightarrow> ('a, 'w) gateway_meth" where
  "setConfig readConfigElement conf =
     bnd (getm (\<lambda>g. ACTIVATED = m_state g \<and> \<not> m_isDynamic g)) (\<lambda>alreadyActivated.
       if alreadyActivated then throw GatewayError
       else if \<not> json_is_array conf then ret False
       else if json_elements conf = [] then ret False
       else andThen
         (readElements readConfigElement (json_elements conf))
         (seq (updm (m_state_update (\<lambda>_. CONFIGURED))) (ret True)))"

definition activate :: "('a, 'w) gateway_meth \<Rightarrow> ('a, 'w) gateway_meth" where
  "activate activateGateway =
     bnd (getm (\<lambda>g. ACTIVATED = m_state g \<and> \<not> m_isDynamic g)) (\<lambda>alreadyActivated.
       if alreadyActivated then throw GatewayError
       else bnd (getm m_state) (\<lambda>state.
         if CONFIGURED \<noteq> state then throw GatewayError
         else andThen activateGateway
           (seq (updm (m_state_update (\<lambda>_. ACTIVATED))) (ret True))))"

definition teardown :: "('a, 'w) gateway_meth \<Rightarrow> ('a, 'w) gateway_meth" where
  "teardown teardownGateway =
     bnd (getm (\<lambda>g. ACTIVATED \<noteq> m_state g \<and> \<not> m_activatedOnce g)) (\<lambda>notActivated.
       if notActivated then throw GatewayError
       else andThen teardownGateway
         (seq (updm (m_state_update (\<lambda>_. CREATED)))
           (seq (updm (m_activatedOnce_update (\<lambda>_. False))) (ret True))))"

definition isConfigured :: "'a gateway_scheme \<Rightarrow> bool" where
  "isConfigured g \<longleftrightarrow> m_state g \<ge> CONFIGURED"

definition isActivated :: "'a gateway_scheme \<Rightarrow> bool" where
  "isActivated g \<longleftrightarrow> (if m_isDynamic g then m_activatedOnce g else m_state g \<ge> ACTIVATED)"

lemma state_le_simps [simp]:
  "CONFIGURED \<le> s \<longleftrightarrow> s \<noteq> CREATED" "ACTIVATED \<le> s \<longleftrightarrow> s = ACTIVATED"
  by (cases s; simp add: less_eq_GatewayState_def)+

section \<open>The life cycle a gateway goes through\<close>

text \<open>The documented automaton, on the members of the base class alone: a call that succeeds moves
  along it and a call that fails or throws stays.\<close>

inductive lifecycle :: "bool \<Rightarrow> GatewayState \<Rightarrow> GatewayState \<Rightarrow> bool" for dynamic where
  stay: "lifecycle dynamic s s"
| configure: "s \<noteq> ACTIVATED \<or> dynamic \<Longrightarrow> lifecycle dynamic s CONFIGURED"
| go_active: "lifecycle dynamic CONFIGURED ACTIVATED"
| tear_down: "s = ACTIVATED \<or> dynamic \<Longrightarrow> lifecycle dynamic s CREATED"

inductive_cases lifecycle_to_active: "lifecycle dynamic s ACTIVATED"

text \<open>What a gateway sees: calls of its three public operations, in any order.\<close>

inductive gateway_step ::
    "(json \<Rightarrow> ('a, 'w) gateway_meth) \<Rightarrow> ('a, 'w) gateway_meth \<Rightarrow> ('a, 'w) gateway_meth \<Rightarrow>
     'a gateway_scheme \<times> 'w \<Rightarrow> 'a gateway_scheme \<times> 'w \<Rightarrow> bool"
  for readElement activateGw teardownGw where
  "setConfig readElement j s = (r, t) \<Longrightarrow> gateway_step readElement activateGw teardownGw s t"
| "activate activateGw s = (r, t) \<Longrightarrow> gateway_step readElement activateGw teardownGw s t"
| "teardown teardownGw s = (r, t) \<Longrightarrow> gateway_step readElement activateGw teardownGw s t"

inductive_cases gateway_stepE: "gateway_step readElement activateGw teardownGw s t"

section \<open>Invariants over the whole life of a gateway\<close>

lemma keeps_setConfig:
  assumes "\<And>e. keeps I (readElement e)" and "\<And>g w. I (g, w) \<Longrightarrow> I (g\<lparr>m_state := CONFIGURED\<rparr>, w)"
  shows "keeps I (setConfig readElement j)"
  unfolding setConfig_def readElements_def using assms by (intro keeps_intros keeps_updm) simp_all

lemma keeps_activate:
  assumes "keeps I activateGw" and "\<And>g w. I (g, w) \<Longrightarrow> I (g\<lparr>m_state := ACTIVATED\<rparr>, w)"
  shows "keeps I (activate activateGw)"
  unfolding activate_def using assms by (intro keeps_intros keeps_updm) simp_all

lemma keeps_teardown:
  assumes "keeps I teardownGw" and "\<And>g w. I (g, w) \<Longrightarrow> I (g\<lparr>m_state := CREATED\<rparr>, w)"
    and "\<And>g w. I (g, w) \<Longrightarrow> I (g\<lparr>m_activatedOnce := False\<rparr>, w)"
  shows "keeps I (teardown teardownGw)"
  unfolding teardown_def using assms by (intro keeps_intros keeps_updm) simp_all

text \<open>An invariant of the members of the derived class and of \<open>m_activatedOnce\<close> that the virtual
  functions keep holds after any sequence of public calls.\<close>

lemma gateway_run_invariant:
  assumes run: "(gateway_step readElement activateGw teardownGw)\<^sup>*\<^sup>* s t" and "I s"
    and "\<And>e. keeps I (readElement e)" and "keeps I activateGw" and "keeps I teardownGw"
    and "\<And>g w st. I (g, w) \<Longrightarrow> I (g\<lparr>m_state := st\<rparr>, w)"
    and "\<And>g w. I (g, w) \<Longrightarrow> I (g\<lparr>m_activatedOnce := False\<rparr>, w)"
  shows "I t"
  using run
proof (induction rule: rtranclp_induct)
  case base
  show ?case by (rule \<open>I s\<close>)
next
  case (step t u)
  from step.hyps(2) step.IH show ?case
    by (elim gateway_stepE)
      (auto elim!: keepsD [rotated 2] intro: keeps_setConfig keeps_activate keeps_teardown assms)
qed

section \<open>What a derived class promises\<close>

text \<open>The members of the base class a virtual function may not touch.\<close>

definition base_part :: "'a gateway_scheme \<Rightarrow> string \<times> bool \<times> GatewayState" where
  "base_part g = (m_id g, m_isDynamic g, m_state g)"

lemma base_part_eq:
  "base_part g = base_part h \<longleftrightarrow> m_id g = m_id h \<and> m_isDynamic g = m_isDynamic h \<and> m_state g = m_state h"
  by (auto simp: base_part_def)

text \<open>The three operations on an object and a world, with the virtual part already run.\<close>

lemma readElements_Nil: "readElements R [] s = (Inr True, s)"
  by (simp add: readElements_def ret_def)

lemma readElements_Cons:
  "json_is_object e \<Longrightarrow> R e s = (Inr True, t) \<Longrightarrow> readElements R (e # es) s = readElements R es t"
  "json_is_object e \<Longrightarrow> R e s = (Inr False, t) \<Longrightarrow> readElements R (e # es) s = (Inr False, t)"
  "json_is_object e \<Longrightarrow> R e s = (Inl x, t) \<Longrightarrow> readElements R (e # es) s = (Inl x, t)"
  by (simp_all add: readElements_def andThen_def bnd_def ret_def)

lemma readElements_step:
  "readElements R (e # es) s =
    (if \<not> json_is_object e then (Inr False, s)
     else case R e s of (Inl x, t) \<Rightarrow> (Inl x, t)
       | (Inr ok, t) \<Rightarrow> if ok then readElements R es t else (Inr False, t))"
  by (simp add: readElements_def andThen_def bnd_def ret_def split: sum.splits prod.splits)

lemma setConfig_run:
  assumes "readElements readElement (json_elements j) (g, w)
    = (q, (k, u))"
  shows "setConfig readElement j (g, w) =
    (if m_state g = ACTIVATED \<and> \<not> m_isDynamic g then (Inl GatewayError, (g, w))
     else if \<not> json_is_array j \<or> json_elements j = [] then (Inr False, (g, w))
     else if q = Inr True then (Inr True, (k\<lparr>m_state := CONFIGURED\<rparr>, u)) else (q, (k, u)))"
  using assms unfolding setConfig_def
  by (cases q) (auto simp: act_defs andThen_def)

lemma activate_run:
  assumes "activateGw (g, w) = (q, (k, u))"
  shows "activate activateGw (g, w) =
    (if m_state g \<noteq> CONFIGURED then (Inl GatewayError, (g, w))
     else if q = Inr True then (Inr True, (k\<lparr>m_state := ACTIVATED\<rparr>, u)) else (q, (k, u)))"
  using assms unfolding activate_def
  by (cases q; cases "m_state g") (auto simp: act_defs andThen_def)

lemma teardown_run:
  assumes "teardownGw (g, w) = (q, (k, u))"
  shows "teardown teardownGw (g, w) =
    (if m_state g \<noteq> ACTIVATED \<and> \<not> m_activatedOnce g then (Inl GatewayError, (g, w))
     else if q = Inr True then (Inr True, (k\<lparr>m_state := CREATED, m_activatedOnce := False\<rparr>, u))
     else (q, (k, u)))"
  using assms unfolding teardown_def
  by (cases q; cases "m_state g") (auto simp: act_defs andThen_def)

locale gateway_virtuals =
  fixes readElement :: "json \<Rightarrow> ('a, 'w) gateway_meth"
    and activateGw :: "('a, 'w) gateway_meth"
    and teardownGw :: "('a, 'w) gateway_meth"
  assumes read_frame: "keeps (\<lambda>(g, w). base_part g = b) (readElement e)"
    and activate_frame: "keeps (\<lambda>(g, w). base_part g = b) activateGw"
    and teardown_frame: "keeps (\<lambda>(g, w). base_part g = b) teardownGw"
begin

lemma all_read_frame:
  "keeps (\<lambda>(g, w). base_part g = b)
     (readElements readElement es)"
  unfolding readElements_def by (intro keeps_intros read_frame)

lemma setConfig_cases:
  assumes "setConfig readElement j (g, w) = (r, (h, v))"
  shows "r = Inl GatewayError \<and> h = g \<and> v = w \<and> m_state g = ACTIVATED \<and> \<not> m_isDynamic g \<or>
    r \<noteq> Inr True \<and> base_part h = base_part g \<or>
    r = Inr True \<and> (m_state g \<noteq> ACTIVATED \<or> m_isDynamic g) \<and>
      base_part h = (m_id g, m_isDynamic g, CONFIGURED)"
proof -
  let ?loop = "readElements readElement (json_elements j)"
  obtain q k u where loop: "?loop (g, w) = (q, (k, u))" by (rule run_exists)
  from keepsD [OF all_read_frame _ loop, of "base_part g"] have "base_part k = base_part g" by simp
  with assms loop show ?thesis
    by (cases q) (auto simp: setConfig_run base_part_def split: if_splits)
qed

lemma activate_cases:
  assumes "activate activateGw (g, w) = (r, (h, v))"
  shows "r = Inl GatewayError \<and> h = g \<and> v = w \<and> m_state g \<noteq> CONFIGURED \<or>
    r \<noteq> Inr True \<and> m_state g = CONFIGURED \<and> base_part h = base_part g \<or>
    r = Inr True \<and> m_state g = CONFIGURED \<and> base_part h = (m_id g, m_isDynamic g, ACTIVATED)"
proof -
  obtain q k u where act: "activateGw (g, w) = (q, (k, u))" by (rule run_exists)
  from keepsD [OF activate_frame _ act, of "base_part g"] have "base_part k = base_part g" by simp
  with assms act show ?thesis
    by (cases q) (auto simp: activate_run base_part_def split: if_splits)
qed

lemma teardown_cases:
  assumes "teardown teardownGw (g, w) = (r, (h, v))"
  shows "r = Inl GatewayError \<and> h = g \<and> v = w \<and> m_state g \<noteq> ACTIVATED \<and> \<not> m_activatedOnce g \<or>
    r \<noteq> Inr True \<and> base_part h = base_part g \<or>
    r = Inr True \<and> (m_state g = ACTIVATED \<or> m_activatedOnce g) \<and>
      base_part h = (m_id g, m_isDynamic g, CREATED) \<and> \<not> m_activatedOnce h"
proof -
  obtain q k u where act: "teardownGw (g, w) = (q, (k, u))" by (rule run_exists)
  from keepsD [OF teardown_frame _ act, of "base_part g"] have "base_part k = base_part g" by simp
  with assms act show ?thesis
    by (cases q) (auto simp: teardown_run base_part_def split: if_splits)
qed

lemma step_refines_lifecycle:
  assumes step: "gateway_step readElement activateGw teardownGw (g, w) (h, v)"
    and once: "m_activatedOnce g \<longrightarrow> m_isDynamic g"
  shows "m_id h = m_id g \<and> m_isDynamic h = m_isDynamic g \<and>
    lifecycle (m_isDynamic g) (m_state g) (m_state h)"
proof (rule gateway_stepE [OF step])
  fix j r assume "setConfig readElement j (g, w) = (r, (h, v))"
  from setConfig_cases [OF this] show ?thesis
    by (auto simp: base_part_def intro: lifecycle.intros)
next
  fix r assume "activate activateGw (g, w) = (r, (h, v))"
  from activate_cases [OF this] show ?thesis
    by (auto simp: base_part_def intro: lifecycle.intros)
next
  fix r assume "teardown teardownGw (g, w) = (r, (h, v))"
  from teardown_cases [OF this] once show ?thesis
    by (auto simp: base_part_def intro: lifecycle.intros)
qed

lemma activated_needs_configured:
  assumes step: "gateway_step readElement activateGw teardownGw (g, w) (h, v)"
    and states: "m_state h = ACTIVATED" "m_state g \<noteq> ACTIVATED"
  shows "m_state g = CONFIGURED"
proof (rule gateway_stepE [OF step])
  fix j r assume "setConfig readElement j (g, w) = (r, (h, v))"
  from setConfig_cases [OF this] states show ?thesis by (auto simp: base_part_def)
next
  fix r assume "activate activateGw (g, w) = (r, (h, v))"
  from activate_cases [OF this] states show ?thesis by (auto simp: base_part_def)
next
  fix r assume "teardown teardownGw (g, w) = (r, (h, v))"
  from teardown_cases [OF this] states show ?thesis by (auto simp: base_part_def)
qed

end

end
