(* ===== verification/ContainerInterface.thy ===== *)
theory ContainerInterface
  imports Environ Gateway
begin

text \<open>
  \<open>ContainerAbstractInterface\<close> as the gateways see it: a record of operations on a container of
  any type. \<open>ci_runJob\<close> stands for a \<open>FunctionJob\<close>: a function of the program is started in
  the container and waited for, and its exit status comes back; \<open>ci_call\<close> is a call the running
  process makes to the kernel. The class \<open>Container\<close> of the theory \<open>LxcContainer\<close> implements it.
\<close>

record 'c container_if =
  ci_id :: "'c \<Rightarrow> string"
  ci_bindMountInContainer :: "string \<Rightarrow> string \<Rightarrow> bool \<Rightarrow> ('c, bool) act"
  ci_setEnvironmentVariable :: "string \<Rightarrow> string \<Rightarrow> ('c, bool) act"
  ci_setCgroupItem :: "string \<Rightarrow> string \<Rightarrow> ('c, bool) act"
  ci_mountDevice :: "string \<Rightarrow> ('c, bool) act"
  ci_runJob :: "('c, int) act \<Rightarrow> ('c, int) act"
  ci_call :: "call \<Rightarrow> ('c, int) act"

text \<open>A container that notes what is asked of it, for closed examples.\<close>

datatype request =
    Mounted string string bool | EnvSet string string | CgroupSet string string
  | DeviceMounted string | Called call

definition recorder :: "request list container_if" where
  "recorder = \<lparr>ci_id = (\<lambda>_. ''SC-0''),
     ci_bindMountInContainer = (\<lambda>h c ro log. (Inr True, log @ [Mounted h c ro])),
     ci_setEnvironmentVariable = (\<lambda>n v log. (Inr True, log @ [EnvSet n v])),
     ci_setCgroupItem = (\<lambda>k v log. (Inr True, log @ [CgroupSet k v])),
     ci_mountDevice = (\<lambda>d log. (Inr True, log @ [DeviceMounted d])),
     ci_runJob = (\<lambda>f log. case f log of (Inl e, l) \<Rightarrow> (Inl e, l) | (Inr s, l) \<Rightarrow> (Inr (WEXITSTATUS (exit_status s)), l)),
     ci_call = (\<lambda>c log. (Inr 0, log @ [Called c]))\<rparr>"

text \<open>What an implementation of the interface can promise of a property of the container: no operation
  breaks it. \<open>through I\<close> is the property seen from an object that works on the container.\<close>

definition through :: "('c \<Rightarrow> bool) \<Rightarrow> 'o \<times> 'c \<Rightarrow> bool" where
  "through I s \<longleftrightarrow> I (snd s)"

lemma through_simps [simp]: "through I (g, c) = I c"
  by (simp add: through_def)

lemma keeps_through_ext: "keeps I m \<Longrightarrow> keeps (through I) (ext m)"
  by (rule keeps_ext_inv) (simp add: keeps_def)

lemma keeps_through_updm: "keeps (through I) (updm f)"
  by (rule keeps_updm) simp

lemma keeps_through_on:
  fixes get :: "'o \<Rightarrow> 'p" and m :: "('p, 'c, 'a) meth"
  assumes "keeps (through I) m"
  shows "keeps (through I) (on get upd m)"
proof (rule keepsI)
  fix s :: "'o \<times> 'c" assume I: "through I s"
  obtain r p v where run: "m (get (fst s), snd s) = (r, (p, v))" by (rule run_exists)
  from keepsD [OF assms _ run] I show "through I (snd (on get upd m s))"
    by (simp add: on_def run through_def)
qed

lemmas keeps_through = keeps_intros keeps_through_ext keeps_through_updm keeps_through_on

locale container_frame =
  fixes C :: "'c container_if" and I :: "'c \<Rightarrow> bool"
  assumes bind_mount: "keeps I (ci_bindMountInContainer C pathInHost pathInContainer ro)"
    and set_variable: "keeps I (ci_setEnvironmentVariable C name val)"
    and set_cgroup: "keeps I (ci_setCgroupItem C subsys val)"
    and mount_device: "keeps I (ci_mountDevice C pathInHost)"
    and run_job: "keeps I f \<Longrightarrow> keeps I (ci_runJob C f)"
    and kernel_call: "keeps I (ci_call C call)"
begin

lemmas requests = bind_mount set_variable set_cgroup mount_device kernel_call

end

end
