(* ===== verification/EnvGateway.thy ===== *)
theory EnvGateway
  imports ContainerInterface
begin

text \<open>
  The environment gateway (\<open>gateway/environment\<close>): it collects variables from configuration
  elements, letting a later element extend an earlier value but never replace it, and sets them in
  the container when it is activated.
\<close>

type_synonym env_variables = "(string, string) std_map"

record env_gateway = gateway +
  m_variables :: env_variables

definition newEnvGateway :: env_gateway where
  "newEnvGateway = gateway.extend (newGateway ''env'' False) (env_gateway.fields [])"

definition to_lower :: "char \<Rightarrow> char" where
  "to_lower c = (if 65 \<le> (of_char c :: nat) \<and> (of_char c :: nat) \<le> 90 then char_of ((of_char c :: nat) + 32) else c)"

definition requireNonEmptyKeyValue :: "json \<Rightarrow> string \<Rightarrow> string \<Rightarrow> bool \<times> string" where
  "requireNonEmptyKeyValue element key result =
     (let (ok, result') = readString element key result in
      if \<not> ok then (False, result')
      else if length result' = 0 then (False, result') else (True, result'))"

definition parseEnvironmentGatewayConfigElement ::
    "json \<Rightarrow> string \<times> string \<Rightarrow> env_variables \<Rightarrow> bool \<times> (string \<times> string)" where
  "parseEnvironmentGatewayConfigElement element result store =
     (let (ok1, name) = requireNonEmptyKeyValue element ''name'' (fst result) in
      if \<not> ok1 then (False, (name, snd result)) else
      let (ok2, val) = requireNonEmptyKeyValue element ''value'' (snd result) in
      if \<not> ok2 then (False, (name, val)) else
      let (ok3, givenMode) = readOptionalString element ''mode'' ''set'' in
      if \<not> ok3 then (False, (name, val)) else
      let mode = map to_lower givenMode in
      if mode \<notin> set [''set'', ''prepend'', ''append''] then (False, (name, val)) else
      let (ok4, separator) = readOptionalString element ''separator'' '''' in
      if \<not> ok4 then (False, (name, val)) else
      (case map_of store name of
         None \<Rightarrow> (True, (name, val))
       | Some old \<Rightarrow>
           if mode = ''append'' then (True, (name, old @ separator @ val))
           else if mode = ''prepend'' then (True, (name, val @ separator @ old))
           else (False, (name, val))))"

definition env_readConfigElement :: "json \<Rightarrow> (env_gateway, 'w, bool) meth" where
  "env_readConfigElement element = bnd (getm m_variables) (\<lambda>vars.
     let (ok, variable) = parseEnvironmentGatewayConfigElement element ('''', '''') vars in
     if \<not> ok then ret False
     else seq (updm (\<lambda>g. g\<lparr>m_variables := put (fst variable) (snd variable) (m_variables g)\<rparr>)) (ret True))"

definition env_activateGateway :: "'c container_if \<Rightarrow> (env_gateway, 'c, bool) meth" where
  "env_activateGateway C = bnd (getm m_variables) (\<lambda>vars.
     if vars = [] then ret False
     else all_ok (\<lambda>variable. ext (ci_setEnvironmentVariable C (fst variable) (snd variable))) vars)"

definition env_teardownGateway :: "(env_gateway, 'c, bool) meth" where
  "env_teardownGateway = ret True"

section \<open>Lemmas\<close>

lemma requireNonEmpty_True:
  "requireNonEmptyKeyValue e k old = (True, s) \<longleftrightarrow> json_object_get e k = Some (JString s) \<and> s \<noteq> []"
  by (auto simp: requireNonEmptyKeyValue_def readString_def split: option.splits json.splits)

text \<open>An accepted element either brings a new variable or extends the value on record at one end.\<close>

lemma parseEnv_accepts:
  assumes "parseEnvironmentGatewayConfigElement e r store = (True, (name, val))"
  shows "name \<noteq> [] \<and> val \<noteq> [] \<and>
    (\<forall>old. map_of store name = Some old \<longrightarrow> (\<exists>p q. val = p @ old @ q))"
proof -
  obtain ok1 n where 1: "requireNonEmptyKeyValue e ''name'' (fst r) = (ok1, n)" by force
  obtain ok2 v where 2: "requireNonEmptyKeyValue e ''value'' (snd r) = (ok2, v)" by force
  obtain ok3 gm where 3: "readOptionalString e ''mode'' ''set'' = (ok3, gm)" by force
  obtain ok4 sp where 4: "readOptionalString e ''separator'' '''' = (ok4, sp)" by force
  have "ok1 \<and> ok2 \<and> ok3 \<and> ok4 \<and> name = n \<and>
    (case map_of store n of None \<Rightarrow> val = v
     | Some old \<Rightarrow> val = old @ sp @ v \<or> val = v @ sp @ old)"
    using assms by (auto simp: parseEnvironmentGatewayConfigElement_def 1 2 3 4 Let_def
      split: if_splits option.splits)
  moreover from this 1 2 have "n \<noteq> []" "v \<noteq> []" by (auto simp: requireNonEmpty_True)
  ultimately show ?thesis
    by (auto split: option.splits) (metis append_Nil append.assoc append_Nil2)+
qed

interpretation env: gateway_virtuals env_readConfigElement "env_activateGateway C" env_teardownGateway
  unfolding env_readConfigElement_def env_activateGateway_def env_teardownGateway_def
  by unfold_locales
    (auto intro!: keeps_intros keeps_updm keeps_ext simp: base_part_def Let_def split: prod.splits)

text \<open>The element that asks for an extension of a variable.\<close>

definition env_element :: "string \<Rightarrow> string \<Rightarrow> string \<Rightarrow> string \<Rightarrow> json" where
  "env_element name val mode sep = JObject [(''name'', JString name), (''value'', JString val),
     (''mode'', JString mode), (''separator'', JString sep)]"

lemma parse_env_element:
  assumes "name \<noteq> []" "val \<noteq> []" "map to_lower mode \<in> {''set'', ''prepend'', ''append''}"
  shows "parseEnvironmentGatewayConfigElement (env_element name val mode sep) r store =
    (case map_of store name of None \<Rightarrow> (True, (name, val))
     | Some old \<Rightarrow> if map to_lower mode = ''append'' then (True, (name, old @ sep @ val))
                   else if map to_lower mode = ''prepend'' then (True, (name, val @ sep @ old))
                   else (False, (name, val)))"
  using assms by (auto simp: parseEnvironmentGatewayConfigElement_def env_element_def
      requireNonEmptyKeyValue_def read_defs Let_def split: option.splits)

lemma keeps_env_step:
  assumes "\<And>g w name val. I (g, w) \<Longrightarrow> name \<noteq> [] \<Longrightarrow> val \<noteq> [] \<Longrightarrow>
      (\<And>old. map_of (m_variables g) name = Some old \<Longrightarrow> \<exists>p q. val = p @ old @ q) \<Longrightarrow>
      I (g\<lparr>m_variables := put name val (m_variables g)\<rparr>, w)"
  shows "keeps I (env_readConfigElement e)"
proof (rule keepsI)
  fix s :: "env_gateway \<times> 'a" assume I: "I s"
  obtain g w where s: "s = (g, w)" by force
  obtain ok n v where p: "parseEnvironmentGatewayConfigElement e ('''', '''') (m_variables g) = (ok, (n, v))"
    by (rule run_exists)
  show "I (snd (env_readConfigElement e s))"
    using I parseEnv_accepts [of e "('''', '''')" "m_variables g" n v] assms [of g w n v]
    by (cases ok) (auto simp: env_readConfigElement_def s p act_defs)
qed

definition env_wf :: "env_variables \<Rightarrow> bool" where
  "env_wf vars \<longleftrightarrow> ordered vars \<and> (\<forall>(n, v) \<in> set vars. n \<noteq> [] \<and> v \<noteq> [])"

lemma env_wf_put: "env_wf vars \<Longrightarrow> n \<noteq> [] \<Longrightarrow> v \<noteq> [] \<Longrightarrow> env_wf (put n v vars)"
  unfolding env_wf_def by (auto dest: in_set_put)

lemma keeps_env_activate: "(\<And>g w w'. I (g, w) \<Longrightarrow> I (g, w')) \<Longrightarrow> keeps I (env_activateGateway C)"
  unfolding env_activateGateway_def by (auto intro!: keeps_intros keeps_ext)

lemma keeps_env_teardown: "keeps I env_teardownGateway"
  unfolding env_teardownGateway_def by (rule keeps_ret)

text \<open>One accepted element and a list of elements, on the store alone.\<close>

lemma env_read_run:
  assumes "parseEnvironmentGatewayConfigElement e ('''', '''') (m_variables g) = (True, (n, v))"
  shows "env_readConfigElement e (g, w) = (Inr True, (g\<lparr>m_variables := put n v (m_variables g)\<rparr>, w))"
  using assms by (simp add: env_readConfigElement_def act_defs)

lemma env_extend_run:
  assumes "name \<noteq> []" "\<forall>(sep, val) \<in> set xs. val \<noteq> []" "map_of (m_variables g) name = Some old"
  shows "\<exists>h. readElements env_readConfigElement
      (map (\<lambda>(sep, val). env_element name val ''append'' sep) xs) (g, w) = (Inr True, (h, w)) \<and>
    base_part h = base_part g \<and>
    map_of (m_variables h) =
      (map_of (m_variables g))(name \<mapsto> old @ concat (map (\<lambda>(sep, val). sep @ val) xs))"
  using assms
proof (induction xs arbitrary: g old)
  case Nil
  then show ?case by (simp add: readElements_Nil fun_upd_idem)
next
  case (Cons x xs)
  obtain sep val where x: "x = (sep, val)" by force
  let ?g = "g\<lparr>m_variables := put name (old @ sep @ val) (m_variables g)\<rparr>"
  have step: "env_readConfigElement (env_element name val ''append'' sep) (g, w) = (Inr True, (?g, w))"
    by (rule env_read_run) (use Cons.prems in \<open>simp add: x parse_env_element to_lower_def\<close>)
  have obj: "json_is_object (env_element name val ''append'' sep)" by (simp add: env_element_def)
  have pre: "\<forall>(sep, val) \<in> set xs. val \<noteq> []"
    "map_of (m_variables ?g) name = Some (old @ sep @ val)"
    using Cons.prems(2) by auto
  from Cons.IH [OF Cons.prems(1) pre] obtain h where
    1: "readElements env_readConfigElement
      (map (\<lambda>(sep, val). env_element name val ''append'' sep) xs) (?g, w) = (Inr True, (h, w))"
    and 2: "base_part h = base_part ?g" and 3: "map_of (m_variables h) = (map_of (m_variables ?g))
      (name \<mapsto> (old @ sep @ val) @ concat (map (\<lambda>(sep, val). sep @ val) xs))" by blast
  have "map_of (m_variables h) = (map_of (m_variables g))
      (name \<mapsto> old @ concat (map (\<lambda>(sep, val). sep @ val) (x # xs)))"
    by (rule ext) (simp add: 3 x)
  with 1 2 readElements_Cons(1) [where R = env_readConfigElement, OF obj step]
  show ?case by (intro exI [of _ h]) (simp add: x base_part_def)
qed

lemma env_activate_recorder:
  "env_activateGateway recorder (g, log) =
    (if m_variables g = [] then (Inr False, (g, log))
     else (Inr True, (g, log @ map (\<lambda>(n, v). EnvSet n v) (m_variables g))))"
proof -
  have "all_ok (\<lambda>variable. ext (ci_setEnvironmentVariable recorder (fst variable) (snd variable))) vars (g, log)
    = (Inr True, (g, log @ map (\<lambda>(n, v). EnvSet n v) vars))" for vars
    by (induction vars arbitrary: log)
      (auto simp: andThen_True recorder_def ext_def ret_def)
  then show ?thesis by (simp add: env_activateGateway_def act_defs)
qed

section \<open>Properties\<close>

text \<open>C16: Whatever is done with an environment gateway after a variable has got a value (further
  configurations, accepted or not, activations, teardowns), the variable stays defined and the value
  stays inside the value on record: an element can extend a variable, never replace or drop it.\<close>

theorem env_values_only_extended:
  assumes "(gateway_step env_readConfigElement (env_activateGateway C) env_teardownGateway)\<^sup>*\<^sup>* (g, w) (h, v)"
    and "map_of (m_variables g) name = Some old"
  shows "\<exists>p q. map_of (m_variables h) name = Some (p @ old @ q)"
proof -
  let ?I = "\<lambda>(h :: env_gateway, w). \<exists>p q. map_of (m_variables h) name = Some (p @ old @ q)"
  have "?I (h, v)"
  proof (rule gateway_run_invariant [OF assms(1), where I = ?I])
    show "?I (g, w)" using assms(2) by (auto intro!: exI [of _ "[]"])
    show "keeps ?I (env_readConfigElement e)" for e
    proof (rule keeps_env_step)
      fix g' :: env_gateway and w' n v'
      assume "?I (g', w')" and ext: "\<And>old. map_of (m_variables g') n = Some old \<Longrightarrow> \<exists>p q. v' = p @ old @ q"
      then obtain p q where pq: "map_of (m_variables g') name = Some (p @ old @ q)" by auto
      show "?I (g'\<lparr>m_variables := put n v' (m_variables g')\<rparr>, w')"
      proof (cases "n = name")
        case True
        with ext pq obtain p' q' where "v' = p' @ (p @ old @ q) @ q'" by blast
        with True have "map_of (put n v' (m_variables g')) name = Some ((p' @ p) @ old @ (q @ q'))" by simp
        then have "\<exists>p q. map_of (put n v' (m_variables g')) name = Some (p @ old @ q)" by blast
        then show ?thesis by (simp del: map_of_put)
      qed (use pq in auto)
    qed
  qed (auto intro: keeps_env_activate keeps_env_teardown)
  then show ?thesis by simp
qed

theorem env_values_only_extended_witness:
  "\<exists>p q. map_of (m_variables (fst (snd (setConfig env_readConfigElement
     (JArray [env_element ''PATH'' ''/opt'' ''append'' '':''])
     (newEnvGateway\<lparr>m_variables := [(''PATH'', ''/bin'')]\<rparr>, [] :: request list))))) ''PATH'' = Some (p @ ''/bin'' @ q)"
proof -
  let ?s = "(newEnvGateway\<lparr>m_variables := [(''PATH'', ''/bin'')]\<rparr>, [] :: request list)"
  obtain r h w where run: "setConfig env_readConfigElement
     (JArray [env_element ''PATH'' ''/opt'' ''append'' '':'']) ?s = (r, (h, w))"
    by (rule run_exists)
  have "(gateway_step env_readConfigElement (env_activateGateway recorder) env_teardownGateway)\<^sup>*\<^sup>* ?s (h, w)"
    by (rule r_into_rtranclp) (rule gateway_step.intros(1) [OF run])
  from env_values_only_extended [OF this, of "''PATH''" "''/bin''"] show ?thesis by (simp add: run)
qed

text \<open>A configuration that appends a list of values, each with its separator, to a variable on
  record is accepted and leaves the old value followed by the separators and values in the order of
  the configuration; no other variable changes.\<close>

theorem env_append_sequence:
  assumes "xs \<noteq> []" "name \<noteq> []" "\<forall>(sep, val) \<in> set xs. val \<noteq> []"
    and "map_of (m_variables g) name = Some old" and "m_state g \<noteq> ACTIVATED"
  shows "\<exists>h. setConfig env_readConfigElement
      (JArray (map (\<lambda>(sep, val). env_element name val ''append'' sep) xs)) (g, w) = (Inr True, (h, w)) \<and>
    m_state h = CONFIGURED \<and>
    map_of (m_variables h) =
      (map_of (m_variables g))(name \<mapsto> old @ concat (map (\<lambda>(sep, val). sep @ val) xs))"
proof -
  from env_extend_run [OF assms(2,3,4), of w] obtain h where
    run: "readElements env_readConfigElement
      (json_elements (JArray (map (\<lambda>(sep, val). env_element name val ''append'' sep) xs))) (g, w)
        = (Inr True, (h, w))"
    and vars: "map_of (m_variables h) =
      (map_of (m_variables g))(name \<mapsto> old @ concat (map (\<lambda>(sep, val). sep @ val) xs))" by auto
  show ?thesis
    using setConfig_run [OF run] assms(1,5) vars by (auto intro!: exI [of _ "h\<lparr>m_state := CONFIGURED\<rparr>"])
qed

theorem env_append_sequence_witness:
  "\<exists>h. setConfig env_readConfigElement
      (JArray (map (\<lambda>(sep, val). env_element ''P'' val ''append'' sep) [('':'', ''b''), ('';'', ''c'')]))
      (newEnvGateway\<lparr>m_variables := [(''P'', ''a'')]\<rparr>, ()) = (Inr True, (h, ())) \<and>
    map_of (m_variables h) ''P'' = Some ''a:b;c''"
  using env_append_sequence [of "[('':'', ''b''), ('';'', ''c'')]" "''P''"
      "newEnvGateway\<lparr>m_variables := [(''P'', ''a'')]\<rparr>" "''a''" "()"]
  by (auto simp: newEnvGateway_def newGateway_def gateway.defs env_gateway.defs)

end
