(* ===== verification/FileGateway.thy ===== *)
theory FileGateway
  imports ContainerInterface
begin

text \<open>
  The file gateway (\<open>gateway/files\<close>): parser, setting store and gateway. The store keeps one
  setting per path in the container. A \<open>FileSetting\<close> starts with its Boolean uninitialised; what it
  holds then is the parameter \<open>garbage\<close>.
\<close>

record FileSetting =
  pathInHost :: string
  pathInContainer :: string
  readOnly :: bool

text \<open>\<open>operator==\<close> compares the paths in the container.\<close>

definition sameTarget :: "FileSetting \<Rightarrow> FileSetting \<Rightarrow> bool" where
  "sameTarget a b \<longleftrightarrow> pathInContainer a = pathInContainer b"

definition parseConfigElement :: "json \<Rightarrow> FileSetting \<Rightarrow> bool \<times> FileSetting" where
  "parseConfigElement element setting =
     (let (ok1, host) = readString element ''path-host'' (pathInHost setting);
          s1 = setting\<lparr>pathInHost := host\<rparr> in
      if \<not> ok1 then (False, s1) else
      let (ok2, con) = readString element ''path-container'' (pathInContainer s1);
          s2 = s1\<lparr>pathInContainer := con\<rparr> in
      if \<not> ok2 then (False, s2)
      else if length (pathInHost s2) = 0 then (False, s2)
      else if length (pathInContainer s2) = 0 then (False, s2) else
      let (ok3, ro) = readOptionalBool element ''read-only'' (readOnly s2);
          s3 = s2\<lparr>readOnly := ro\<rparr> in
      if \<not> ok3 then (False, s3) else (True, s3))"

text \<open>\<open>addSetting\<close>: the first setting with the same target is compared and merged in place.\<close>

fun addSetting :: "FileSetting list \<Rightarrow> FileSetting \<Rightarrow> bool \<times> FileSetting list" where
  "addSetting [] setting = (True, [setting])"
| "addSetting (it # settings) setting =
     (if sameTarget it setting then
        (if pathInHost it \<noteq> pathInHost setting then (False, it # settings)
         else (True, it\<lparr>readOnly := readOnly it \<and> readOnly setting\<rparr> # settings))
      else (let (ok, rest) = addSetting settings setting in (ok, it # rest)))"

record file_gateway = gateway +
  m_fileSettings :: "FileSetting list"

definition newFileGateway :: file_gateway where
  "newFileGateway = gateway.extend (newGateway ''file'' False) (file_gateway.fields [])"

definition file_readConfigElement :: "bool \<Rightarrow> json \<Rightarrow> (file_gateway, 'w, bool) meth" where
  "file_readConfigElement garbage element =
     (let (ok, setting) = parseConfigElement element
        \<lparr>pathInHost = [], pathInContainer = [], readOnly = garbage\<rparr> in
      if \<not> ok then ret False
      else bnd (getm m_fileSettings) (\<lambda>settings.
        let (added, settings') = addSetting settings setting in
        seq (updm (\<lambda>g. g\<lparr>m_fileSettings := settings'\<rparr>)) (if \<not> added then ret False else ret True)))"

definition file_bindMount :: "'c container_if \<Rightarrow> FileSetting \<Rightarrow> (file_gateway, 'c, bool) meth" where
  "file_bindMount C setting = bnd
     (ext (ci_bindMountInContainer C (pathInHost setting) (pathInContainer setting) (readOnly setting)))
     (\<lambda>ok. if \<not> ok then ret False else ret True)"

definition file_activateGateway :: "'c container_if \<Rightarrow> (file_gateway, 'c, bool) meth" where
  "file_activateGateway C = bnd (getm m_fileSettings) (\<lambda>settings. all_ok (file_bindMount C) settings)"

definition file_teardownGateway :: "(file_gateway, 'c, bool) meth" where
  "file_teardownGateway = ret True"

section \<open>The setting store\<close>

definition targets :: "FileSetting list \<Rightarrow> string list" where
  "targets settings = map pathInContainer settings"

definition lookupSetting :: "FileSetting list \<Rightarrow> string \<Rightarrow> (string \<times> bool) option" where
  "lookupSetting settings p =
     map_of (map (\<lambda>s. (pathInContainer s, (pathInHost s, readOnly s))) settings) p"

text \<open>What one accepted setting does to what the store holds for each path.\<close>

definition mergeSetting :: "(string \<times> bool) option \<Rightarrow> FileSetting \<Rightarrow> (string \<times> bool) option" where
  "mergeSetting held s = (case held of
      None \<Rightarrow> Some (pathInHost s, readOnly s)
    | Some (h, ro) \<Rightarrow> Some (h, ro \<and> readOnly s))"

lemma targets_addSetting:
  "targets (snd (addSetting settings s)) =
     (if pathInContainer s \<in> set (targets settings) then targets settings
      else targets settings @ [pathInContainer s])"
  by (induction settings s rule: addSetting.induct)
    (auto simp: targets_def sameTarget_def split: prod.splits)

lemma lookup_addSetting:
  "addSetting settings s = (ok, settings') \<Longrightarrow>
   lookupSetting settings' = (if ok then (lookupSetting settings)
       (pathInContainer s := mergeSetting (lookupSetting settings (pathInContainer s)) s)
     else lookupSetting settings)"
  by (induction settings s arbitrary: ok settings' rule: addSetting.induct)
    (auto simp: lookupSetting_def sameTarget_def mergeSetting_def fun_eq_iff split: if_splits prod.splits)

lemma addSetting_refuses:
  "fst (addSetting settings s) \<longleftrightarrow>
   (case lookupSetting settings (pathInContainer s) of None \<Rightarrow> True | Some (h, ro) \<Rightarrow> h = pathInHost s)"
  by (induction settings s rule: addSetting.induct)
    (auto simp: lookupSetting_def sameTarget_def split: prod.splits)

lemma keeps_file_read:
  assumes "\<And>g w s. I (g, w) \<Longrightarrow> I (g\<lparr>m_fileSettings := snd (addSetting (m_fileSettings g) s)\<rparr>, w)"
  shows "keeps I (file_readConfigElement garbage e)"
proof (rule keepsI)
  fix s :: "file_gateway \<times> 'a" assume I: "I s"
  obtain g w where s: "s = (g, w)" by force
  obtain ok st where p: "parseConfigElement e \<lparr>pathInHost = [], pathInContainer = [], readOnly = garbage\<rparr> = (ok, st)"
    by force
  obtain added ss where q: "addSetting (m_fileSettings g) st = (added, ss)" by force
  show "I (snd (file_readConfigElement garbage e s))"
    using I assms [of g w st] by (simp add: s p q file_readConfigElement_def act_defs)
qed

lemma keeps_file_activate: "(\<And>g w w'. I (g, w) \<Longrightarrow> I (g, w')) \<Longrightarrow> keeps I (file_activateGateway C)"
  unfolding file_activateGateway_def file_bindMount_def by (auto intro!: keeps_intros keeps_ext)

lemma keeps_file_teardown: "keeps I file_teardownGateway"
  unfolding file_teardownGateway_def by (rule keeps_ret)

interpretation filegw: gateway_virtuals "file_readConfigElement garbage" "file_activateGateway C" file_teardownGateway
  by unfold_locales
    (auto intro!: keeps_file_read keeps_file_activate keeps_file_teardown simp: base_part_def)

lemma file_activate_recorder:
  "file_activateGateway recorder (g, log) = (Inr True, (g, log @
     map (\<lambda>s. Mounted (pathInHost s) (pathInContainer s) (readOnly s)) (m_fileSettings g)))"
proof -
  have "all_ok (file_bindMount recorder) ss (g, log) = (Inr True, (g, log @
     map (\<lambda>s. Mounted (pathInHost s) (pathInContainer s) (readOnly s)) ss))" for ss
    by (induction ss arbitrary: log)
      (auto simp: andThen_True file_bindMount_def recorder_def act_defs)
  then show ?thesis by (simp add: file_activateGateway_def act_defs)
qed

lemma parseConfigElement_reads:
  assumes "json_object_get e ''path-host'' = Some (JString h)" "h \<noteq> []"
    and "json_object_get e ''path-container'' = Some (JString c)" "c \<noteq> []"
  shows "parseConfigElement e s =
    (case json_object_get e ''read-only'' of
       None \<Rightarrow> (True, s\<lparr>pathInHost := h, pathInContainer := c\<rparr>)
     | Some v \<Rightarrow> if json_is_boolean v
         then (True, s\<lparr>pathInHost := h, pathInContainer := c, readOnly := (v = JTrue)\<rparr>)
         else (False, s\<lparr>pathInHost := h, pathInContainer := c\<rparr>))"
  using assms by (auto simp: parseConfigElement_def read_defs split: option.splits)

definition file_element :: "FileSetting \<Rightarrow> json" where
  "file_element s = JObject [(''path-host'', JString (pathInHost s)),
     (''path-container'', JString (pathInContainer s)),
     (''read-only'', if readOnly s then JTrue else JFalse)]"

lemma file_read_element:
  assumes "pathInHost s \<noteq> []" "pathInContainer s \<noteq> []"
  shows "file_readConfigElement garbage (file_element s) (g, w) =
    (case addSetting (m_fileSettings g) s of
       (ok, st) \<Rightarrow> (Inr ok, (g\<lparr>m_fileSettings := st\<rparr>, w)))"
proof -
  have "parseConfigElement (file_element s) \<lparr>pathInHost = [], pathInContainer = [], readOnly = garbage\<rparr> = (True, s)"
    using assms by (simp add: parseConfigElement_reads file_element_def)
  then show ?thesis by (simp add: file_readConfigElement_def act_defs split: prod.splits)
qed

lemma file_read_same_target:
  assumes "\<forall>s \<in> set ss. pathInContainer s = p \<and> pathInHost s = h" "p \<noteq> []" "h \<noteq> []"
    and "m_fileSettings g = [\<lparr>pathInHost = h, pathInContainer = p, readOnly = ro\<rparr>]"
  shows "readElements (file_readConfigElement garbage)
      (map file_element ss) (g, w) =
    (Inr True, (g\<lparr>m_fileSettings := [\<lparr>pathInHost = h, pathInContainer = p, readOnly = ro \<and> list_all readOnly ss\<rparr>]\<rparr>, w))"
  using assms
proof (induction ss arbitrary: g ro)
  case Nil
  then show ?case by (simp add: readElements_Nil flip: Nil.prems(4))
next
  case (Cons s ss)
  let ?g = "g\<lparr>m_fileSettings := [\<lparr>pathInHost = h, pathInContainer = p, readOnly = ro \<and> readOnly s\<rparr>]\<rparr>"
  have "file_readConfigElement garbage (file_element s) (g, w) = (Inr True, (?g, w))"
    using Cons.prems file_read_element [of s garbage g w] by (simp add: sameTarget_def)
  moreover have "json_is_object (file_element s)" by (simp add: file_element_def)
  ultimately have "readElements (file_readConfigElement garbage) (map file_element (s # ss)) (g, w)
    = readElements (file_readConfigElement garbage) (map file_element ss) (?g, w)"
    by (simp add: readElements_Cons)
  also have "\<dots> = (Inr True, (?g\<lparr>m_fileSettings :=
      [\<lparr>pathInHost = h, pathInContainer = p, readOnly = (ro \<and> readOnly s) \<and> list_all readOnly ss\<rparr>]\<rparr>, w))"
    by (rule Cons.IH) (use Cons.prems in simp_all)
  finally show ?case by simp
qed

section \<open>Properties\<close>

text \<open>C14: A new file gateway never holds two settings for one path in the container, whatever is
  configured, activated or torn down.\<close>

theorem file_targets_distinct:
  assumes "(gateway_step (file_readConfigElement garbage) (file_activateGateway C) file_teardownGateway)\<^sup>*\<^sup>*
    (newFileGateway, w) (h, v)"
  shows "distinct (targets (m_fileSettings h))"
proof -
  let ?I = "\<lambda>(h :: file_gateway, w). distinct (targets (m_fileSettings h))"
  have "?I (h, v)"
  proof (rule gateway_run_invariant [OF assms, where I = ?I])
    show "?I (newFileGateway, w)"
      by (simp add: newFileGateway_def newGateway_def gateway.defs file_gateway.defs targets_def)
    show "keeps ?I (file_readConfigElement garbage e)" for e
      by (rule keeps_file_read) (auto simp: targets_addSetting)
  qed (auto intro: keeps_file_activate keeps_file_teardown)
  then show ?thesis by simp
qed

theorem file_targets_distinct_witness:
  "distinct (targets (m_fileSettings (fst (snd (setConfig (file_readConfigElement False)
     (JArray [file_element \<lparr>pathInHost = ''/a'', pathInContainer = ''/c'', readOnly = True\<rparr>,
              file_element \<lparr>pathInHost = ''/a'', pathInContainer = ''/c'', readOnly = False\<rparr>])
     (newFileGateway, [] :: request list))))))"
proof -
  let ?j = "JArray [file_element \<lparr>pathInHost = ''/a'', pathInContainer = ''/c'', readOnly = True\<rparr>,
              file_element \<lparr>pathInHost = ''/a'', pathInContainer = ''/c'', readOnly = False\<rparr>]"
  obtain r h w where run: "setConfig (file_readConfigElement False) ?j (newFileGateway, [] :: request list) = (r, (h, w))"
    by (rule run_exists)
  have "(gateway_step (file_readConfigElement False) (file_activateGateway recorder) file_teardownGateway)\<^sup>*\<^sup>*
    (newFileGateway, []) (h, w)"
    by (rule r_into_rtranclp) (rule gateway_step.intros(1) [OF run])
  from file_targets_distinct [OF this] show ?thesis by (simp add: run)
qed

text \<open>A configuration that asks several times for the same host path at the same path in the
  container is accepted, and activation makes one mount for it, read-only exactly where every request
  was: the most permissive request wins.\<close>

theorem file_merge_permissive:
  assumes "ss \<noteq> []" "\<forall>s \<in> set ss. pathInContainer s = p \<and> pathInHost s = h" "p \<noteq> []" "h \<noteq> []"
  shows "\<exists>g. setConfig (file_readConfigElement garbage) (JArray (map file_element ss)) (newFileGateway, log)
      = (Inr True, (g, log)) \<and>
    fst (activate (file_activateGateway recorder) (g, log)) = Inr True \<and>
    snd (snd (activate (file_activateGateway recorder) (g, log))) = log @ [Mounted h p (list_all readOnly ss)]"
proof -
  obtain s ss' where ss: "ss = s # ss'" using assms(1) by (cases ss) auto
  let ?m = "\<lambda>ro. \<lparr>pathInHost = h, pathInContainer = p, readOnly = ro\<rparr>"
  let ?g1 = "newFileGateway\<lparr>m_fileSettings := [?m (readOnly s)]\<rparr>"
  let ?g2 = "newFileGateway\<lparr>m_fileSettings := [?m (list_all readOnly ss)]\<rparr>"
  have new: "m_fileSettings newFileGateway = []" "m_state newFileGateway = CREATED"
    by (simp_all add: newFileGateway_def newGateway_def gateway.defs file_gateway.defs)
  have sp: "pathInContainer s = p" "pathInHost s = h"
    and rest: "\<forall>s \<in> set ss'. pathInContainer s = p \<and> pathInHost s = h"
    using assms(2) by (auto simp: ss)
  then have "s = ?m (readOnly s)" by simp
  then have first: "file_readConfigElement garbage (file_element s) (newFileGateway, log) = (Inr True, (?g1, log))"
    using assms(3,4) file_read_element [of s garbage newFileGateway log] sp new by simp
  have "json_is_object (file_element s)" by (simp add: file_element_def)
  from readElements_Cons(1) [where R = "file_readConfigElement garbage", OF this first]
    file_read_same_target [OF rest assms(3,4), of ?g1 "readOnly s" garbage log]
  have loop: "readElements (file_readConfigElement garbage)
      (json_elements (JArray (map file_element ss))) (newFileGateway, log) = (Inr True, (?g2, log))"
    by (simp add: ss)
  from setConfig_run [OF loop] new assms(1)
  have conf: "setConfig (file_readConfigElement garbage) (JArray (map file_element ss)) (newFileGateway, log)
      = (Inr True, (?g2\<lparr>m_state := CONFIGURED\<rparr>, log))" by simp
  show ?thesis
    using activate_run [where activateGw = "file_activateGateway recorder", OF file_activate_recorder [of "?g2\<lparr>m_state := CONFIGURED\<rparr>" log]]
    by (intro exI [of _ "?g2\<lparr>m_state := CONFIGURED\<rparr>"]) (simp add: conf)
qed

theorem file_merge_permissive_witness:
  "\<exists>g. setConfig (file_readConfigElement True) (JArray (map file_element
      [\<lparr>pathInHost = ''/a'', pathInContainer = ''/c'', readOnly = True\<rparr>,
       \<lparr>pathInHost = ''/a'', pathInContainer = ''/c'', readOnly = False\<rparr>])) (newFileGateway, [])
      = (Inr True, (g, [] :: request list)) \<and>
    snd (snd (activate (file_activateGateway recorder) (g, []))) = [Mounted ''/a'' ''/c'' False]"
proof -
  let ?ss = "[\<lparr>pathInHost = ''/a'', pathInContainer = ''/c'', readOnly = True\<rparr>,
       \<lparr>pathInHost = ''/a'', pathInContainer = ''/c'', readOnly = False\<rparr>]"
  have "\<forall>s \<in> set ?ss. pathInContainer s = ''/c'' \<and> pathInHost s = ''/a''" by simp
  from file_merge_permissive [OF _ this, of True "[]"] show ?thesis by auto
qed

text \<open>An element for a path in the container that is already taken by another host path is
  refused, and nothing the gateway has on record changes.\<close>

theorem file_conflict_refused:
  assumes "lookupSetting (m_fileSettings g) (pathInContainer s) = Some (h, ro)"
    and "h \<noteq> pathInHost s" "pathInHost s \<noteq> []" "pathInContainer s \<noteq> []"
  shows "\<exists>g'. file_readConfigElement garbage (file_element s) (g, w) = (Inr False, (g', w)) \<and>
    base_part g' = base_part g \<and> lookupSetting (m_fileSettings g') = lookupSetting (m_fileSettings g)"
proof -
  obtain ok st where add: "addSetting (m_fileSettings g) s = (ok, st)" by force
  with addSetting_refuses [of "m_fileSettings g" s] assms(1,2) have "\<not> ok" by simp
  with lookup_addSetting [OF add] file_read_element [of s garbage g w] assms(3,4) add show ?thesis
    by (auto simp: base_part_def)
qed

theorem file_conflict_refused_witness:
  "\<exists>g'. file_readConfigElement True
      (file_element \<lparr>pathInHost = ''/b'', pathInContainer = ''/c'', readOnly = True\<rparr>)
      (newFileGateway\<lparr>m_fileSettings := [\<lparr>pathInHost = ''/a'', pathInContainer = ''/c'', readOnly = True\<rparr>]\<rparr>, ())
    = (Inr False, (g', ()))"
  using file_conflict_refused [of "newFileGateway\<lparr>m_fileSettings := [\<lparr>pathInHost = ''/a'', pathInContainer = ''/c'', readOnly = True\<rparr>]\<rparr>"
      "\<lparr>pathInHost = ''/b'', pathInContainer = ''/c'', readOnly = True\<rparr>" "''/a''" True True "()"]
  by (auto simp: lookupSetting_def)

text \<open>An element without the optional key \<open>read-only\<close> is accepted, and whether its mount is
  read-only is decided by what the uninitialised Boolean held.\<close>

theorem file_read_only_uninitialised:
  "snd (snd (bnd (setConfig (file_readConfigElement garbage)
       (JArray [JObject [(''path-host'', JString ''/a''), (''path-container'', JString ''/c'')]]))
     (\<lambda>_. activate (file_activateGateway recorder)) (newFileGateway, [] :: request list)))
   = [Mounted ''/a'' ''/c'' garbage]"
proof -
  let ?e = "JObject [(''path-host'', JString ''/a''), (''path-container'', JString ''/c'')]"
  let ?g = "newFileGateway\<lparr>m_fileSettings := [\<lparr>pathInHost = ''/a'', pathInContainer = ''/c'', readOnly = garbage\<rparr>]\<rparr>"
  have new: "m_fileSettings newFileGateway = []" "m_state newFileGateway = CREATED"
    by (simp_all add: newFileGateway_def newGateway_def gateway.defs file_gateway.defs)
  have "file_readConfigElement garbage ?e (newFileGateway, [] :: request list) = (Inr True, (?g, []))"
    using new by (simp add: file_readConfigElement_def parseConfigElement_reads act_defs)
  moreover have "json_is_object ?e" by simp
  ultimately have loop: "readElements (file_readConfigElement garbage)
      (json_elements (JArray [?e])) (newFileGateway, [] :: request list) = (Inr True, (?g, []))"
    by (simp add: readElements_step readElements_Nil)
  from setConfig_run [OF loop] new activate_run [where activateGw = "file_activateGateway recorder", OF file_activate_recorder [of "?g\<lparr>m_state := CONFIGURED\<rparr>" "[]"]]
  show ?thesis by (simp add: bnd_def)
qed

end
