(* ===== verification/CgroupsGateway.thy ===== *)
theory CgroupsGateway
  imports ContainerInterface
begin

text \<open>
  \<open>CGroupsParser\<close> and \<open>CgroupsGateway\<close> of \<open>gateway/cgroups\<close>. The settings are kept as strings, as
  in the code, and compared through the conversions of the standard library. The program never
  clears \<open>errno\<close> before it looks at it, so the parser takes as \<open>stale\<close> whether an earlier call
  has left \<open>ERANGE\<close> there.
\<close>

type_synonym cgroup_settings = "(string, string) std_map"

definition memory_keys :: "string list" where
  "memory_keys = [''memory.limit_in_bytes'', ''memory.memsw.limit_in_bytes'']"

text \<open>\<open>strtoul(s, &end, 16)\<close>: the value, clamped at \<open>ULONG_MAX\<close>, and the text at \<open>end\<close>.\<close>

definition ulong_max :: nat where "ulong_max = 18446744073709551615"

definition hex_value :: "char \<Rightarrow> nat option" where
  "hex_value c = (let n = of_char c :: nat in
     if 48 \<le> n \<and> n \<le> 57 then Some (n - 48)
     else if 97 \<le> n \<and> n \<le> 102 then Some (n - 87)
     else if 65 \<le> n \<and> n \<le> 70 then Some (n - 55) else None)"

fun read_hex :: "nat \<Rightarrow> string \<Rightarrow> nat \<times> string" where
  "read_hex n [] = (n, [])"
| "read_hex n (c # cs) = (case hex_value c of None \<Rightarrow> (n, c # cs) | Some d \<Rightarrow> read_hex (16 * n + d) cs)"

definition starts_hex :: "string \<Rightarrow> bool" where
  "starts_hex s \<longleftrightarrow> s \<noteq> [] \<and> hex_value (hd s) \<noteq> None"

definition skip_0x :: "string \<Rightarrow> string" where
  "skip_0x s = (case s of
      a # b # t \<Rightarrow> if a = CHR ''0'' \<and> b \<in> {CHR ''x'', CHR ''X''} \<and> starts_hex t then t else s
    | _ \<Rightarrow> s)"

definition strtoul16 :: "string \<Rightarrow> nat \<times> string" where
  "strtoul16 s =
     (let t = dropWhile is_space s;
          neg = (t \<noteq> [] \<and> hd t = CHR ''-'');
          u = (if t \<noteq> [] \<and> hd t \<in> {CHR ''-'', CHR ''+''} then tl t else t);
          d = skip_0x u
      in if \<not> starts_hex d then (0, s)
         else case read_hex 0 d of (n, rest) \<Rightarrow>
           (if n > ulong_max then ulong_max
            else if neg then (ulong_max + 1 - n) mod (ulong_max + 1) else n, rest))"

definition convertToBytes :: "bool \<Rightarrow> string \<Rightarrow> int \<Rightarrow> exn + string" where
  "convertToBytes stale settingValue multiply =
     (let (limit_in_bytes, sets_erange) = strtoll settingValue in
      if (limit_in_bytes = llong_max \<or> limit_in_bytes = llong_min) \<and> (stale \<or> sets_erange)
      then Inl LimitRangeError
      else if limit_in_bytes > llong_max div multiply then Inl LimitRangeError
      else if limit_in_bytes * multiply < llong_min then Inl UndefinedBehaviour
      else Inr (to_string (limit_in_bytes * multiply)))"

definition suffixCorrection :: "bool \<Rightarrow> string \<Rightarrow> exn + string" where
  "suffixCorrection stale settingValue =
     (if settingValue = [] then Inl UndefinedBehaviour
      else let suffix = last settingValue; removeUnit = butlast settingValue in
        if is_digit suffix then Inr settingValue
        else if suffix \<in> {CHR ''K'', CHR ''k''} then convertToBytes stale removeUnit 1024
        else if suffix \<in> {CHR ''M'', CHR ''m''} then convertToBytes stale removeUnit (1024 * 1024)
        else if suffix \<in> {CHR ''G'', CHR ''g''} then convertToBytes stale removeUnit (1024 * 1024 * 1024)
        else Inl BadSuffixError)"

definition save :: "string \<Rightarrow> string \<Rightarrow> (cgroup_settings, 'w, unit) meth" where
  "save settingKey settingValue = updm (put settingKey settingValue)"

definition parseMemorySetting :: "bool \<Rightarrow> string \<Rightarrow> string \<Rightarrow> (cgroup_settings, 'w, unit) meth" where
  "parseMemorySetting stale settingKey givenValue =
     bnd (lift (suffixCorrection stale givenValue)) (\<lambda>settingValue.
       bnd (getm (\<lambda>m_settings. map_of m_settings settingKey)) (\<lambda>old. case old of
           None \<Rightarrow> save settingKey settingValue
         | Some oldValue \<Rightarrow>
             bnd (lift (stoll oldValue)) (\<lambda>a. bnd (lift (stoll settingValue)) (\<lambda>b.
               if a \<ge> b then ret () else save settingKey settingValue))))"

definition parseCpuShares :: "string \<Rightarrow> string \<Rightarrow> (cgroup_settings, 'w, unit) meth" where
  "parseCpuShares settingKey givenValue =
     bnd (catch (lift (stoi givenValue))
        (\<lambda>e. if e \<in> {StdOutOfRange, StdInvalidArgument} then Some (throw InvalidInputError) else None))
      (\<lambda>newValue.
       if newValue < 2 then throw InvalidInputError
       else bnd (getm (\<lambda>m_settings. map_of m_settings settingKey)) (\<lambda>old. case old of
           None \<Rightarrow> save settingKey (to_string newValue)
         | Some oldValue \<Rightarrow>
             bnd (lift (stoi oldValue)) (\<lambda>a.
               if a \<ge> newValue then ret () else save settingKey (to_string newValue))))"

definition parseClassid :: "string \<Rightarrow> string \<Rightarrow> (cgroup_settings, 'w, unit) meth" where
  "parseClassid settingKey settingValue =
     (if take 2 settingValue \<noteq> ''0x'' \<or> length settingValue > 10 \<or> length settingValue < 7
      then throw InvalidInputError
      else let (hexedValue, end) = strtoul16 settingValue in
        if hexedValue = 0 \<or> hexedValue = ulong_max \<or> end \<noteq> [] then throw InvalidInputError
        else save settingKey settingValue)"

definition parseCGroupsGatewayConfiguration :: "bool \<Rightarrow> json \<Rightarrow> (cgroup_settings, 'w, unit) meth" where
  "parseCGroupsGatewayConfiguration stale element =
     (let (ok1, settingKey) = readString element ''setting'' '''' in
      if \<not> ok1 then throw JSonError else
      let (ok2, settingValue) = readString element ''value'' '''' in
      if \<not> ok2 then throw JSonError else
      if settingKey \<in> set memory_keys then parseMemorySetting stale settingKey settingValue
      else if settingKey = ''cpu.shares'' then parseCpuShares settingKey settingValue
      else if settingKey = ''net_cls.classid'' then parseClassid settingKey settingValue
      else save settingKey settingValue)"

record cgroups_gateway = gateway +
  m_settings :: cgroup_settings

definition newCgroupsGateway :: cgroups_gateway where
  "newCgroupsGateway = gateway.extend (newGateway ''cgroups'' False) (cgroups_gateway.fields [])"

definition is_cgroups_error :: "exn \<Rightarrow> bool" where
  "is_cgroups_error e \<longleftrightarrow> e \<in> {LimitRangeError, BadSuffixError, JSonError, InvalidInputError}"

definition cg_readConfigElement :: "bool \<Rightarrow> json \<Rightarrow> (cgroups_gateway, 'w, bool) meth" where
  "cg_readConfigElement stale element =
     catch (bnd (on m_settings (\<lambda>p g. g\<lparr>m_settings := p\<rparr>) (parseCGroupsGatewayConfiguration stale element))
              (\<lambda>_. ret True))
       (\<lambda>e. if is_cgroups_error e then Some (ret False) else None)"

fun cg_applySettings :: "'c container_if \<Rightarrow> bool \<Rightarrow> cgroup_settings \<Rightarrow> (cgroups_gateway, 'c, bool) meth" where
  "cg_applySettings C success [] = ret success"
| "cg_applySettings C success ((k, v) # settings) =
     bnd (ext (ci_setCgroupItem C k v)) (\<lambda>success. if \<not> success then ret False else cg_applySettings C success settings)"

definition cg_activateGateway :: "'c container_if \<Rightarrow> (cgroups_gateway, 'c, bool) meth" where
  "cg_activateGateway C = bnd (getm m_settings) (\<lambda>cgroupSettings. cg_applySettings C False cgroupSettings)"

definition cg_teardownGateway :: "(cgroups_gateway, 'c, bool) meth" where
  "cg_teardownGateway = ret True"

section \<open>Lemmas\<close>

lemma keeps_cg_apply: "(\<And>g w w'. I (g, w) \<Longrightarrow> I (g, w')) \<Longrightarrow> keeps I (cg_applySettings C b settings)"
  by (induction C b settings rule: cg_applySettings.induct) (auto intro!: keeps_intros keeps_ext)

lemma keeps_cg_activate: "(\<And>g w w'. I (g, w) \<Longrightarrow> I (g, w')) \<Longrightarrow> keeps I (cg_activateGateway C)"
  unfolding cg_activateGateway_def by (auto intro!: keeps_intros keeps_cg_apply)

lemma keeps_cg_read:
  assumes "\<And>g. keeps (\<lambda>(p, w). I (g\<lparr>m_settings := p\<rparr>, w)) (parseCGroupsGatewayConfiguration stale e)"
  shows "keeps I (cg_readConfigElement stale e)"
  unfolding cg_readConfigElement_def
  by (intro keeps_intros keeps_on assms) (auto intro: keeps_intros split: if_splits)

text \<open>What one element can do to the settings: nothing, or write one key.\<close>

definition accepted :: "cgroup_settings \<Rightarrow> string \<Rightarrow> string \<Rightarrow> bool" where
  "accepted st k v \<longleftrightarrow>
     (k \<in> set memory_keys \<longrightarrow> (\<forall>old. map_of st k = Some old \<longrightarrow>
        (\<exists>a b. stoll old = Inr a \<and> stoll v = Inr b \<and> a < b))) \<and>
     (k = ''cpu.shares'' \<longrightarrow> (\<exists>n. v = to_string n \<and> 2 \<le> n \<and> n \<le> int_max \<and>
        (\<forall>old. map_of st k = Some old \<longrightarrow> (\<exists>a. stoi old = Inr a \<and> a < n)))) \<and>
     (k = ''net_cls.classid'' \<longrightarrow> take 2 v = ''0x'' \<and> 7 \<le> length v \<and> length v \<le> 10 \<and>
        snd (strtoul16 v) = [] \<and> fst (strtoul16 v) \<noteq> 0)"

definition writes :: "cgroup_settings \<Rightarrow> cgroup_settings \<Rightarrow> bool" where
  "writes st st' \<longleftrightarrow> st' = st \<or> (\<exists>k v. st' = put k v st \<and> accepted st k v)"

lemma nothing [simp]: "writes st st"
  by (simp add: writes_def)

lemma one_key: "accepted st k v \<Longrightarrow> writes st (put k v st)"
  by (auto simp: writes_def)

lemma key_names: "''cpu.shares'' \<notin> set memory_keys" "''net_cls.classid'' \<notin> set memory_keys"
  by (simp_all add: memory_keys_def)

lemma parse_effect:
  assumes "parseCGroupsGatewayConfiguration stale e (st, w) = (r, (st', w'))"
  shows "w' = w \<and> writes st st'"
proof -
  obtain ok1 k where k: "readString e ''setting'' '''' = (ok1, k)" by force
  obtain ok2 v where v: "readString e ''value'' '''' = (ok2, v)" by force
  consider "\<not> ok1 \<or> \<not> ok2" | "ok1" "ok2" "k \<in> set memory_keys" | "ok1" "ok2" "k = ''cpu.shares''"
    | "ok1" "ok2" "k = ''net_cls.classid''"
    | "ok1" "ok2" "k \<notin> set memory_keys" "k \<noteq> ''cpu.shares''" "k \<noteq> ''net_cls.classid''" by blast
  then show ?thesis
  proof cases
    case 1
    with assms show ?thesis
      by (auto simp: parseCGroupsGatewayConfiguration_def k v throw_def split: if_splits)
  next
    case 2
    then have "parseMemorySetting stale k v (st, w) = (r, (st', w'))"
      using assms by (simp add: parseCGroupsGatewayConfiguration_def k v)
    then show ?thesis using 2 key_names
      by (auto simp: parseMemorySetting_def save_def accepted_def act_defs lift_def not_le
          intro!: one_key split: sum.splits option.splits if_splits)
  next
    case 3
    have le: "n \<le> int_max" if "stoi v = Inr n" for n
      using that by (auto simp: stoi_def split: option.splits if_splits)
    from 3 have "parseCpuShares k v (st, w) = (r, (st', w'))"
      using assms key_names by (simp add: parseCGroupsGatewayConfiguration_def k v)
    with 3 key_names le show ?thesis
      by (auto simp: parseCpuShares_def save_def accepted_def act_defs lift_def not_le not_less
          intro!: one_key split: sum.splits option.splits if_splits)
  next
    case 4
    then have "parseClassid k v (st, w) = (r, (st', w'))"
      using assms key_names by (simp add: parseCGroupsGatewayConfiguration_def k v)
    then show ?thesis using 4 key_names
      by (auto simp: parseClassid_def save_def accepted_def act_defs intro!: one_key split: if_splits prod.splits)
  next
    case 5
    then have "save k v (st, w) = (r, (st', w'))"
      using assms by (simp add: parseCGroupsGatewayConfiguration_def k v)
    with 5 show ?thesis by (auto simp: save_def updm_def accepted_def intro!: one_key)
  qed
qed

lemma keeps_cg_step:
  assumes "\<And>g w k v. I (g, w) \<Longrightarrow> accepted (m_settings g) k v \<Longrightarrow>
      I (g\<lparr>m_settings := put k v (m_settings g)\<rparr>, w)"
  shows "keeps I (cg_readConfigElement stale e)"
proof (rule keeps_cg_read, rule keepsI)
  fix g :: cgroups_gateway and s :: "cgroup_settings \<times> 'a"
  obtain st w where s: "s = (st, w)" by force
  assume "case s of (p, v) \<Rightarrow> I (g\<lparr>m_settings := p\<rparr>, v)"
  then have I: "I (g\<lparr>m_settings := st\<rparr>, w)" by (simp add: s)
  obtain r st' w' where run: "parseCGroupsGatewayConfiguration stale e (st, w) = (r, (st', w'))"
    by (rule run_exists)
  have "writes st st'" and "w' = w" using parse_effect [OF run] by simp_all
  then have "I (g\<lparr>m_settings := st'\<rparr>, w')"
    using I assms [OF I] by (auto simp: writes_def)
  then show "case snd (parseCGroupsGatewayConfiguration stale e s) of (p, v) \<Rightarrow> I (g\<lparr>m_settings := p\<rparr>, v)"
    by (simp add: run s)
qed

interpretation cgroups: gateway_virtuals "cg_readConfigElement stale" "cg_activateGateway C" cg_teardownGateway
  by unfold_locales
    (auto intro!: keeps_cg_step keeps_cg_activate keeps_ret simp: base_part_def cg_teardownGateway_def)

text \<open>Sizes as the manifests write them: a number and a unit.\<close>

definition unit_factor :: "string \<Rightarrow> int option" where
  "unit_factor u = (if u = [] then Some 1
     else if u \<in> {''K'', ''k''} then Some 1024
     else if u \<in> {''M'', ''m''} then Some (1024 * 1024)
     else if u \<in> {''G'', ''g''} then Some (1024 * 1024 * 1024) else None)"

definition size_text :: "int \<times> string \<Rightarrow> string" where
  "size_text q = to_string (fst q) @ snd q"

definition bytes :: "int \<times> string \<Rightarrow> int" where
  "bytes q = fst q * (case unit_factor (snd q) of None \<Rightarrow> 1 | Some m \<Rightarrow> m)"

definition memory_request :: "string \<Rightarrow> int \<times> string \<Rightarrow> json" where
  "memory_request key q = JObject [(''setting'', JString key), (''value'', JString (size_text q))]"

definition size_ok :: "int \<times> string \<Rightarrow> bool" where
  "size_ok q \<longleftrightarrow> unit_factor (snd q) \<noteq> None \<and> 0 \<le> fst q \<and> bytes q \<le> llong_max"

lemma to_string_ne: "to_string n \<noteq> []"
  by (simp add: to_string_def show_nat_ne)

lemma last_to_string: "is_digit (last (to_string n))"
proof -
  have "is_digit (last (show_nat k))" for k
    using show_nat_digits [of k] show_nat_ne [of k] by simp
  then show ?thesis by (simp add: to_string_def show_nat_ne)
qed

lemma strtoll_to_string: "llong_min \<le> n \<Longrightarrow> n \<le> llong_max \<Longrightarrow> strtoll (to_string n) = (n, False)"
  by (simp add: strtoll_def)

lemma convert_number:
  assumes "llong_min < n" "n \<le> llong_max" "m \<in> {1024, 1024 * 1024, 1024 * 1024 * 1024}"
  shows "convertToBytes stale (to_string n) m =
    (if n * m > llong_max then Inl LimitRangeError
     else if n * m < llong_min then Inl UndefinedBehaviour else Inr (to_string (n * m)))"
proof -
  have "n > llong_max div m \<longleftrightarrow> n * m > llong_max"
    using assms(3) by (auto simp: limit_defs)
  moreover have "n = llong_max \<Longrightarrow> n * m > llong_max"
    using assms(3) by (auto simp: limit_defs)
  moreover have "n = llong_max \<Longrightarrow> \<not> n * m < llong_min"
    using assms(3) by (auto simp: limit_defs)
  ultimately show ?thesis
    using assms(1,2) by (auto simp: convertToBytes_def strtoll_to_string)
qed

lemma unit_cases:
  assumes "unit_factor u = Some m"
  obtains "u = []" "m = 1"
  | c where "u = [c]" "c \<in> {CHR ''K'', CHR ''k''}" "m = 1024"
  | c where "u = [c]" "c \<in> {CHR ''M'', CHR ''m''}" "m = 1024 * 1024"
  | c where "u = [c]" "c \<in> {CHR ''G'', CHR ''g''}" "m = 1024 * 1024 * 1024"
  using assms by (auto simp: unit_factor_def split: if_splits)

lemma suffix_number:
  assumes "unit_factor u = Some m" "llong_min < n" "n \<le> llong_max"
  shows "suffixCorrection stale (to_string n @ u) =
    (if n * m > llong_max then Inl LimitRangeError
     else if n * m < llong_min then Inl UndefinedBehaviour else Inr (to_string (n * m)))"
  using assms(1)
proof (cases rule: unit_cases)
  case 1
  then show ?thesis
    using assms by (simp add: suffixCorrection_def to_string_ne last_to_string)
next
  case (2 c)
  have "c = CHR ''K'' \<or> c = CHR ''k''" using 2 by simp
  then show ?thesis unfolding 2 using convert_number [OF assms(2,3), of 1024 stale]
    by (auto simp: suffixCorrection_def is_digit_def)
next
  case (3 c)
  have "c = CHR ''M'' \<or> c = CHR ''m''" using 3 by simp
  then show ?thesis unfolding 3 using convert_number [OF assms(2,3), of "1024 * 1024" stale]
    by (auto simp: suffixCorrection_def is_digit_def)
next
  case (4 c)
  have "c = CHR ''G'' \<or> c = CHR ''g''" using 4 by simp
  then show ?thesis unfolding 4 using convert_number [OF assms(2,3), of "1024 * 1024 * 1024" stale]
    by (auto simp: suffixCorrection_def is_digit_def)
qed

lemma size_ok_suffix:
  assumes "size_ok q"
  shows "suffixCorrection stale (size_text q) = Inr (to_string (bytes q))" "0 \<le> bytes q"
    "stoll (to_string (bytes q)) = Inr (bytes q)"
proof -
  obtain m where m: "unit_factor (snd q) = Some m" using assms by (auto simp: size_ok_def)
  then have "m \<ge> 1" by (cases rule: unit_cases) simp_all
  with m assms have b: "0 \<le> bytes q" "fst q \<le> bytes q" "bytes q = fst q * m"
    by (auto simp: size_ok_def bytes_def mult_le_cancel_left1)
  with assms show "0 \<le> bytes q" "stoll (to_string (bytes q)) = Inr (bytes q)"
    by (simp_all add: size_ok_def stoll_to_string llong_min_def)
  from suffix_number [OF m, of "fst q" stale] b assms
  show "suffixCorrection stale (size_text q) = Inr (to_string (bytes q))"
    by (simp add: size_ok_def size_text_def llong_min_def)
qed

lemma memory_request_read:
  assumes "size_ok q" "key \<in> set memory_keys"
  shows "cg_readConfigElement stale (memory_request key q) (g, w) =
    (case map_of (m_settings g) key of
       None \<Rightarrow> (Inr True, (g\<lparr>m_settings := put key (to_string (bytes q)) (m_settings g)\<rparr>, w))
     | Some old \<Rightarrow> (case stoll old of
          Inl e \<Rightarrow> (if is_cgroups_error e then Inr False else Inl e, (g, w))
        | Inr a \<Rightarrow> (Inr True, (if a \<ge> bytes q then g
            else g\<lparr>m_settings := put key (to_string (bytes q)) (m_settings g)\<rparr>, w))))"
proof -
  have rd: "readString (memory_request key q) ''setting'' [] = (True, key)"
    "readString (memory_request key q) ''value'' [] = (True, size_text q)"
    by (simp_all add: memory_request_def readString_def)
  have parse: "parseCGroupsGatewayConfiguration stale (memory_request key q) =
      parseMemorySetting stale key (size_text q)"
    using assms(2) by (simp add: parseCGroupsGatewayConfiguration_def rd)
  show ?thesis
    by (simp add: cg_readConfigElement_def parse parseMemorySetting_def size_ok_suffix [OF assms(1)]
        act_defs lift_def save_def split: option.splits sum.splits)
qed

lemma memory_requests_read:
  assumes "\<forall>q \<in> set qs. size_ok q" "key \<in> set memory_keys"
    and "map_of (m_settings g) key = Some (to_string a)" "0 \<le> a" "a \<le> llong_max"
  shows "\<exists>h. readElements (cg_readConfigElement stale) (map (memory_request key) qs) (g, w) = (Inr True, (h, w)) \<and>
    m_state h = m_state g \<and>
    map_of (m_settings h) = (map_of (m_settings g))(key \<mapsto> to_string (fold max (map bytes qs) a))"
  using assms(1,3-5)
proof (induction qs arbitrary: g a)
  case Nil
  then show ?case by (simp add: readElements_Nil fun_upd_idem)
next
  case (Cons q qs)
  let ?g = "if a \<ge> bytes q then g else g\<lparr>m_settings := put key (to_string (bytes q)) (m_settings g)\<rparr>"
  have ok: "size_ok q" using Cons.prems(1) by simp
  have step: "cg_readConfigElement stale (memory_request key q) (g, w) = (Inr True, (?g, w))"
    using Cons.prems memory_request_read [OF ok assms(2), of stale g w]
    by (simp add: stoll_to_string llong_min_def)
  have obj: "json_is_object (memory_request key q)" by (simp add: memory_request_def)
  have "map_of (m_settings ?g) key = Some (to_string (max (bytes q) a))"
    using Cons.prems(2) by (simp add: max_def)
  moreover have "0 \<le> max (bytes q) a" "max (bytes q) a \<le> llong_max"
    using Cons.prems(3,4) size_ok_suffix(2) [OF ok] ok by (auto simp: size_ok_def)
  moreover have "\<forall>q \<in> set qs. size_ok q" using Cons.prems(1) by simp
  ultimately obtain h where h: "readElements (cg_readConfigElement stale) (map (memory_request key) qs) (?g, w) = (Inr True, (h, w))"
    "m_state h = m_state ?g"
    "map_of (m_settings h) = (map_of (m_settings ?g))(key \<mapsto> to_string (fold max (map bytes qs) (max (bytes q) a)))"
    using Cons.IH [of ?g "max (bytes q) a"] by blast
  show ?case
    using h readElements_Cons(1) [where R = "cg_readConfigElement stale", OF obj step]
    by (intro exI [of _ h]) auto
qed

section \<open>Properties\<close>



text \<open>Through any sequence of configurations, activations and teardowns a limit on record is never
  lowered: a memory limit reads as a number at least as large as before, and so do the CPU shares.\<close>

theorem limits_never_lowered:
  assumes "(gateway_step (cg_readConfigElement stale) (cg_activateGateway C) cg_teardownGateway)\<^sup>*\<^sup>* (g, w) (h, v)"
    and "key \<in> set memory_keys \<and> number = stoll \<or> key = ''cpu.shares'' \<and> number = stoi"
    and "map_of (m_settings g) key = Some old" "number old = Inr a"
  shows "\<exists>new b. map_of (m_settings h) key = Some new \<and> number new = Inr b \<and> a \<le> b"
proof -
  let ?I = "\<lambda>(h :: cgroups_gateway, w). \<exists>new b. map_of (m_settings h) key = Some new \<and> number new = Inr b \<and> a \<le> b"
  have "?I (h, v)"
  proof (rule gateway_run_invariant [OF assms(1), where I = ?I])
    show "?I (g, w)" using assms(3,4) by auto
    show "keeps ?I (cg_readConfigElement stale e)" for e
    proof (rule keeps_cg_step)
      fix g' :: cgroups_gateway and w' k v'
      assume "?I (g', w')" and acc: "accepted (m_settings g') k v'"
      then obtain new b where nb: "map_of (m_settings g') key = Some new" "number new = Inr b" "a \<le> b" by auto
      have "\<exists>c. number v' = Inr c \<and> b \<le> c" if "k = key"
        using assms(2)
      proof
        assume "key \<in> set memory_keys \<and> number = stoll"
        with acc nb that show ?thesis by (fastforce simp: accepted_def)
      next
        assume "key = ''cpu.shares'' \<and> number = stoi"
        with acc nb that show ?thesis by (fastforce simp: accepted_def stoi_to_string int_min_def)
      qed
      with nb show "?I (g'\<lparr>m_settings := put k v' (m_settings g')\<rparr>, w')"
        by (cases "k = key") auto
    qed
  qed (auto intro: keeps_cg_activate keeps_ret simp: cg_teardownGateway_def)
  then show ?thesis by simp
qed

theorem limits_never_lowered_witness:
  "\<exists>new b. map_of (m_settings (fst (snd (setConfig (cg_readConfigElement False)
      (JArray [memory_request ''memory.limit_in_bytes'' (1, ''k'')])
      (newCgroupsGateway\<lparr>m_settings := [(''memory.limit_in_bytes'', to_string 4096)]\<rparr>, [] :: request list)))))
    ''memory.limit_in_bytes'' = Some new \<and> stoll new = Inr b \<and> 4096 \<le> b"
proof -
  let ?s = "(newCgroupsGateway\<lparr>m_settings := [(''memory.limit_in_bytes'', to_string 4096)]\<rparr>, [] :: request list)"
  obtain r h w where run: "setConfig (cg_readConfigElement False)
      (JArray [memory_request ''memory.limit_in_bytes'' (1, ''k'')]) ?s = (r, (h, w))"
    by (rule run_exists)
  have "(gateway_step (cg_readConfigElement False) (cg_activateGateway recorder) cg_teardownGateway)\<^sup>*\<^sup>* ?s (h, w)"
    by (rule r_into_rtranclp) (rule gateway_step.intros(1) [OF run])
  from limits_never_lowered [OF this, of "''memory.limit_in_bytes''" stoll "to_string 4096" 4096] show ?thesis
    by (simp add: run memory_keys_def stoll_to_string limit_defs)
qed

text \<open>In every run from a new gateway the CPU shares on record are a number of at least 2 and a
  class ID on record has the form \<open>0xAAAABBBB\<close> and is read as a whole, as a number other than 0.\<close>

theorem cgroup_settings_valid:
  assumes "(gateway_step (cg_readConfigElement stale) (cg_activateGateway C) cg_teardownGateway)\<^sup>*\<^sup>* (newCgroupsGateway, w) (h, v)"
  shows "(\<forall>s. map_of (m_settings h) ''cpu.shares'' = Some s \<longrightarrow>
      (\<exists>n. s = to_string n \<and> stoi s = Inr n \<and> 2 \<le> n)) \<and>
    (\<forall>s. map_of (m_settings h) ''net_cls.classid'' = Some s \<longrightarrow>
      take 2 s = ''0x'' \<and> 7 \<le> length s \<and> length s \<le> 10 \<and>
      snd (strtoul16 s) = [] \<and> fst (strtoul16 s) \<noteq> 0)"
    (is "?P (m_settings h)")
proof -
  let ?I = "\<lambda>(h :: cgroups_gateway, w). ?P (m_settings h)"
  have "?I (h, v)"
  proof (rule gateway_run_invariant [OF assms, where I = ?I])
    show "?I (newCgroupsGateway, w)"
      by (simp add: newCgroupsGateway_def newGateway_def gateway.defs cgroups_gateway.defs)
    show "keeps ?I (cg_readConfigElement stale e)" for e
    proof (rule keeps_cg_step)
      fix g' :: cgroups_gateway and w' k v'
      assume I: "?I (g', w')" and acc: "accepted (m_settings g') k v'"
      have "k = ''cpu.shares'' \<Longrightarrow> \<exists>n. v' = to_string n \<and> stoi v' = Inr n \<and> 2 \<le> n"
        using acc by (auto simp: accepted_def stoi_to_string int_min_def)
      with I acc show "?I (g'\<lparr>m_settings := put k v' (m_settings g')\<rparr>, w')"
        by (auto simp: accepted_def)
    qed
  qed (auto intro: keeps_cg_activate keeps_ret simp: cg_teardownGateway_def)
  then show ?thesis by simp
qed

theorem cgroup_settings_valid_witness:
  "\<exists>h v. setConfig (cg_readConfigElement False)
      (JArray [JObject [(''setting'', JString ''cpu.shares''), (''value'', JString ''7'')]])
      (newCgroupsGateway, [] :: request list) = (Inr True, (h, v)) \<and>
    (\<exists>n. map_of (m_settings h) ''cpu.shares'' = Some (to_string n) \<and> 2 \<le> n)"
proof -
  let ?j = "JArray [JObject [(''setting'', JString ''cpu.shares''), (''value'', JString ''7'')]]"
  let ?h = "newCgroupsGateway\<lparr>m_settings := [(''cpu.shares'', to_string 7)], m_state := CONFIGURED\<rparr>"
  have "stoi ''7'' = Inr 7"
    by (simp add: stoi_def scan_int_def scan_unsigned_def is_space_def is_digit_def digit_value_def limit_defs)
  then have run: "setConfig (cg_readConfigElement False) ?j (newCgroupsGateway, [] :: request list) = (Inr True, (?h, []))"
    by (simp add: setConfig_def readElements_step readElements_Nil cg_readConfigElement_def
        parseCGroupsGatewayConfiguration_def readString_def memory_keys_def parseCpuShares_def act_defs
        andThen_def lift_def save_def newCgroupsGateway_def newGateway_def gateway.defs cgroups_gateway.defs)
  have "(gateway_step (cg_readConfigElement False) (cg_activateGateway recorder) cg_teardownGateway)\<^sup>*\<^sup>* (newCgroupsGateway, []) (?h, [])"
    by (rule r_into_rtranclp) (rule gateway_step.intros(1) [OF run])
  from cgroup_settings_valid [OF this] run show ?thesis by auto
qed

text \<open>A memory limit whose last character is a digit is recorded as it stands, with no look at
  what comes before; the next limit for the key then throws \<open>std::invalid_argument\<close> out of the
  gateway, past the handler of its parse errors.\<close>

theorem unchecked_limit_throws_later:
  "fst (setConfig (cg_readConfigElement stale)
      (JArray [JObject [(''setting'', JString ''memory.limit_in_bytes''), (''value'', JString ''abc5'')]])
      (newCgroupsGateway, w)) = Inr True \<and>
  fst (setConfig (cg_readConfigElement stale)
      (JArray [JObject [(''setting'', JString ''memory.limit_in_bytes''), (''value'', JString ''abc5'')],
               memory_request ''memory.limit_in_bytes'' (1, ''G'')])
      (newCgroupsGateway, w)) = Inl StdInvalidArgument"
proof -
  let ?e = "JObject [(''setting'', JString ''memory.limit_in_bytes''), (''value'', JString ''abc5'')]"
  let ?m = "memory_request ''memory.limit_in_bytes'' (1, ''G'')"
  let ?g = "newCgroupsGateway\<lparr>m_settings := [(''memory.limit_in_bytes'', ''abc5'')]\<rparr>"
  have new: "m_settings newCgroupsGateway = []" "m_state newCgroupsGateway = CREATED"
    by (simp_all add: newCgroupsGateway_def newGateway_def gateway.defs cgroups_gateway.defs)
  have bad: "stoll ''abc5'' = Inl StdInvalidArgument"
    by (simp add: stoll_def scan_int_def scan_unsigned_def is_space_def is_digit_def)
  have 1: "cg_readConfigElement stale ?e (newCgroupsGateway, w) = (Inr True, (?g, w))"
    using new by (simp add: cg_readConfigElement_def parseCGroupsGatewayConfiguration_def readString_def
        memory_keys_def parseMemorySetting_def suffixCorrection_def is_digit_def act_defs lift_def save_def)
  have "size_ok (1, ''G'')" by (simp add: size_ok_def unit_factor_def bytes_def llong_max_def)
  from memory_request_read [OF this, of "''memory.limit_in_bytes''" stale ?g w] bad
  have 2: "cg_readConfigElement stale ?m (?g, w) = (Inl StdInvalidArgument, (?g, w))"
    by (simp add: memory_keys_def is_cgroups_error_def)
  have l1: "readElements (cg_readConfigElement stale) (json_elements (JArray [?e])) (newCgroupsGateway, w) = (Inr True, (?g, w))"
    by (simp add: readElements_step readElements_Nil 1)
  have l2: "readElements (cg_readConfigElement stale) (json_elements (JArray [?e, ?m])) (newCgroupsGateway, w)
      = (Inl StdInvalidArgument, (?g, w))"
    by (simp add: readElements_step readElements_Nil 1 2) (simp add: memory_request_def)
  show ?thesis using setConfig_run [OF l1] setConfig_run [OF l2] new by simp
qed

lemma last_show_nat: "is_digit (last (show_nat n))"
  using show_nat_digits [of n] show_nat_ne [of n] by simp

lemma to_string_nonneg: "0 \<le> i \<Longrightarrow> to_string i = show_nat (nat i)"
  by (simp add: to_string_def)

definition memory_units :: "(char \<times> int) set" where
  "memory_units = {(CHR ''K'', 1024), (CHR ''k'', 1024), (CHR ''M'', 1048576), (CHR ''m'', 1048576),
     (CHR ''G'', 1073741824), (CHR ''g'', 1073741824)}"

lemma unit_correction:
  assumes "(c, k) \<in> memory_units"
  shows "suffixCorrection stale (v @ [c]) = convertToBytes stale v k" "1024 \<le> k"
  using assms by (auto simp: memory_units_def suffixCorrection_def is_digit_def)

text \<open>C31: A memory limit written in decimal with a unit comes back from the stored string: for every number of
  kilo-, mega- or gigabytes whose bytes fit in a \<open>long long\<close>, the conversion stores a string that
  \<open>std::stoll\<close> reads as the number of bytes, and a stored string that is given again is stored as it is.\<close>

theorem memory_limit_roundtrip:
  assumes "0 \<le> n" "n \<le> llong_max div k" "(c, k) \<in> memory_units"
  shows "\<exists>stored. suffixCorrection stale (to_string n @ [c]) = Inr stored \<and> stoll stored = Inr (n * k) \<and>
    suffixCorrection stale stored = Inr stored"
proof -
  have k: "1024 \<le> k" by (rule unit_correction(2) [OF assms(3)])
  have "n * k \<le> llong_max div k * k" using assms(2) k by (intro mult_right_mono) simp_all
  also have "\<dots> \<le> llong_max" using div_mult_mod_eq [of llong_max k] pos_mod_sign [of k llong_max] k by linarith
  finally have fits: "n * k \<le> llong_max" .
  have "n * 1024 \<le> n * k" using assms(1) k by (intro mult_left_mono)
  with fits have small: "n < llong_max" "0 \<le> n * k" using assms(1) k by (simp_all add: llong_max_def)
  have "strtoll (to_string n) = (n, False)" using small(1) assms(1) by (simp add: strtoll_def limit_defs)
  then have conv: "convertToBytes stale (to_string n) k = Inr (to_string (n * k))"
    using assms(1,2) small fits by (simp add: convertToBytes_def llong_min_def)
  have "stoll (to_string (n * k)) = Inr (n * k)"
    using fits small(2) by (intro stoll_to_string) (simp_all add: llong_min_def)
  moreover have "suffixCorrection stale (to_string (n * k)) = Inr (to_string (n * k))"
    using last_show_nat show_nat_ne by (simp add: suffixCorrection_def to_string_nonneg [OF small(2)] Let_def)
  ultimately show ?thesis using conv unit_correction(1) [OF assms(3)] by simp
qed

theorem memory_limit_roundtrip_witness:
  "\<exists>stored. suffixCorrection False ''512M'' = Inr stored \<and> stoll stored = Inr 536870912"
proof -
  have "to_string 512 = ''512''" by code_simp
  with memory_limit_roundtrip [of 512 1048576 "CHR ''M''" False] show ?thesis
    by (auto simp: llong_max_def memory_units_def)
qed


end
