(* ===== verification/DeviceNodeGateway.thy ===== *)
theory DeviceNodeGateway
  imports ContainerInterface
begin

text \<open>
  \<open>Device\<close>, \<open>DeviceNodeLogic\<close> and \<open>DeviceNodeGateway\<close> of \<open>gateway/devicenode\<close>. A mode is a
  decimal number whose last three digits stand for the permissions of owner, group and others;
  -1 is no mode. The gateway is dynamic: it is configured and activated again while the container
  runs, and a device whose mode has grown is applied again.
\<close>

text \<open>Division and remainder of C++ truncate towards 0.\<close>

definition cdiv :: "int \<Rightarrow> int \<Rightarrow> int" where
  "cdiv a b = (if 0 \<le> a then a div b else - ((- a) div b))"

definition cmod :: "int \<Rightarrow> int \<Rightarrow> int" where
  "cmod a b = a - cdiv a b * b"

lemma cdiv_nonneg [simp]: "0 \<le> a \<Longrightarrow> cdiv a b = a div b"
  by (simp add: cdiv_def)

lemma cmod_nonneg [simp]: "0 \<le> a \<Longrightarrow> cmod a b = a mod b"
  by (simp add: cmod_def minus_div_mult_eq_mod)

record device =
  m_name :: string
  m_mode :: int
  m_isConfigured :: bool

definition newDevice :: "string \<Rightarrow> int \<Rightarrow> device" where
  "newDevice name mode = \<lparr>m_name = name, m_mode = mode, m_isConfigured = False\<rparr>"

definition copyDevice :: "device \<Rightarrow> device" where
  "copyDevice dev = \<lparr>m_name = m_name dev, m_mode = m_mode dev, m_isConfigured = False\<rparr>"

definition parseDevice :: "json \<Rightarrow> device \<Rightarrow> bool \<times> device" where
  "parseDevice element dev =
     (let (ok, name) = readString element ''name'' '''';
          dev = dev\<lparr>m_name := name\<rparr> in
      if \<not> ok then (False, dev) else
      let dev = dev\<lparr>m_mode := -1\<rparr> in
      if json_object_get element ''mode'' \<noteq> None then
        let (modeParses, mode) = readInt element ''mode'' (m_mode dev) in
        if \<not> modeParses then (False, dev) else (True, dev\<lparr>m_mode := mode\<rparr>)
      else (True, dev))"

definition activateDevice :: "'c container_if \<Rightarrow> (device, 'c, bool) meth" where
  "activateDevice C = bnd (getm (\<lambda>d. d)) (\<lambda>dev.
     if \<not> m_isConfigured dev then
       bnd (ext (ci_mountDevice C (m_name dev))) (\<lambda>ok.
         if \<not> ok then ret False
         else bnd (if m_mode dev \<noteq> -1
                   then ext (ci_runJob C (ci_call C (File (Chmod (m_name dev) (m_mode dev)))))
                   else ret 0) (\<lambda>status.
           if status \<noteq> 0 then ret False
           else seq (updm (m_isConfigured_update (\<lambda>_. True))) (ret True)))
     else ret True)"

definition calculateDeviceMode :: "int \<Rightarrow> device \<Rightarrow> device" where
  "calculateDeviceMode appliedMode dev =
     (let mode = m_mode dev;
          modeResult = (if mode \<noteq> appliedMode then
            (let owner = (if cdiv appliedMode 100 \<ge> cdiv mode 100
                          then cdiv appliedMode 100 * 100 else cdiv mode 100 * 100);
                 group = (if cmod (cdiv appliedMode 10) 10 \<ge> cmod (cdiv mode 10) 10
                          then cmod (cdiv appliedMode 10) 10 * 10 else cmod (cdiv mode 10) 10 * 10);
                 others = (if cmod appliedMode 10 \<ge> cmod mode 10
                           then cmod appliedMode 10 else cmod mode 10)
             in owner + group + others)
            else mode)
      in if modeResult > mode then dev\<lparr>m_isConfigured := False, m_mode := modeResult\<rparr> else dev)"

definition setMode :: "int \<Rightarrow> device \<Rightarrow> device" where
  "setMode mode dev =
     (if cdiv mode 100 < 8 \<and> cdiv (cmod mode 100) 10 < 8 \<and> cmod mode 10 < 8
      then dev\<lparr>m_mode := mode\<rparr> else dev)"

text \<open>\<open>findDeviceByName\<close> hands out a shared pointer into the list, through which the found device is
  changed in place; the model gives the index.\<close>

fun findDeviceByName :: "string \<Rightarrow> device list \<Rightarrow> nat option" where
  "findDeviceByName name [] = None"
| "findDeviceByName name (d # ds) =
     (if m_name d = name then Some 0 else map_option Suc (findDeviceByName name ds))"

definition updateDeviceList :: "device \<Rightarrow> device list \<Rightarrow> device list" where
  "updateDeviceList dev devList = (case findDeviceByName (m_name dev) devList of
      None \<Rightarrow> devList @ [copyDevice dev]
    | Some i \<Rightarrow> devList[i := calculateDeviceMode (m_mode dev) (devList ! i)])"

record device_gateway = gateway +
  m_devList :: "device list"

definition newDeviceNodeGateway :: device_gateway where
  "newDeviceNodeGateway = gateway.extend (newGateway ''devicenode'' True) (device_gateway.fields [])"

definition dev_readConfigElement :: "json \<Rightarrow> (device_gateway, 'w, bool) meth" where
  "dev_readConfigElement element =
     (let (ok, dev) = parseDevice element (newDevice '''' (-1)) in
      if \<not> ok then ret False
      else seq (updm (\<lambda>g. g\<lparr>m_devList := updateDeviceList dev (m_devList g)\<rparr>)) (ret True))"

text \<open>The loop over the shared pointers, which changes the devices in place.\<close>

fun activateDevices :: "'c container_if \<Rightarrow> device list \<Rightarrow> 'c \<Rightarrow> (exn + bool) \<times> device list \<times> 'c" where
  "activateDevices C [] c = (Inr True, [], c)"
| "activateDevices C (dev # devs) c = (case activateDevice C (dev, c) of
      (Inl e, (dev', c')) \<Rightarrow> (Inl e, dev' # devs, c')
    | (Inr ok, (dev', c')) \<Rightarrow>
        if \<not> ok then (Inr False, dev' # devs, c')
        else (case activateDevices C devs c' of (r, devs', c'') \<Rightarrow> (r, dev' # devs', c'')))"

definition dev_activateGateway :: "'c container_if \<Rightarrow> (device_gateway, 'c, bool) meth" where
  "dev_activateGateway C = bnd (getm m_devList) (\<lambda>devlist.
     if devlist = [] then ret False
     else on m_devList (\<lambda>ds g. g\<lparr>m_devList := ds\<rparr>) (\<lambda>(ds, c). activateDevices C ds c))"

definition dev_teardownGateway :: "(device_gateway, 'c, bool) meth" where
  "dev_teardownGateway = ret True"

section \<open>Lemmas\<close>

subsection \<open>Modes\<close>

text \<open>The digits of a mode, and the digitwise maximum that the white-listing policy asks for.\<close>

definition digits3 :: "int \<Rightarrow> int \<times> int \<times> int" where
  "digits3 m = (m div 100, (m div 10) mod 10, m mod 10)"

definition mode_of :: "int \<times> int \<times> int \<Rightarrow> int" where
  "mode_of = (\<lambda>(a, b, c). 100 * a + 10 * b + c)"

definition permissive :: "int \<Rightarrow> int \<Rightarrow> int" where
  "permissive m n = (case (digits3 m, digits3 n) of ((a, b, c), (a', b', c')) \<Rightarrow>
     mode_of (max a a', max b b', max c c'))"

lemma mode_of_digits3: "mode_of (digits3 m) = m"
proof -
  have "10 * (m div 10) + m mod 10 = m" "10 * (m div 10 div 10) + (m div 10) mod 10 = m div 10"
    by simp_all
  moreover have "m div 100 = m div 10 div 10"
    using zdiv_zmult2_eq [of 10 m 10] by simp
  ultimately show ?thesis by (simp only: mode_of_def digits3_def prod.case)
qed

lemma digits3_mode_of:
  "0 \<le> b \<Longrightarrow> b < 10 \<Longrightarrow> 0 \<le> c \<Longrightarrow> c < 10 \<Longrightarrow> digits3 (mode_of (a, b, c)) = (a, b, c)"
proof -
  assume b: "0 \<le> b" "b < 10" and c: "0 \<le> c" "c < 10"
  let ?x = "10 * a + b"
  have eq: "100 * a + 10 * b + c = 10 * ?x + c" by simp
  have 1: "(10 * x + c) div 10 = x" "(10 * x + c) mod 10 = c" for x using c by simp_all
  have 2: "?x div 10 = a" "?x mod 10 = b" using b by simp_all
  have 3: "(10 * ?x + c) div 100 = (10 * ?x + c) div 10 div 10"
    using zdiv_zmult2_eq [of 10 "10 * ?x + c" 10] by simp
  show ?thesis
    by (simp only: mode_of_def digits3_def prod.case eq 3 1 2)
qed

lemma digits3_range: "digits3 m = (a, b, c) \<Longrightarrow> 0 \<le> b \<and> b < 10 \<and> 0 \<le> c \<and> c < 10"
  unfolding digits3_def by (metis Pair_inject pos_mod_bound pos_mod_sign zero_less_numeral)

lemma digits3_permissive:
  assumes "digits3 m = (a, b, c)" "digits3 n = (a', b', c')"
  shows "digits3 (permissive m n) = (max a a', max b b', max c c')"
proof -
  have "0 \<le> b" "b < 10" "0 \<le> c" "c < 10" "0 \<le> b'" "b' < 10" "0 \<le> c'" "c' < 10"
    using digits3_range [OF assms(1)] digits3_range [OF assms(2)] by simp_all
  then have "0 \<le> max b b'" "max b b' < 10" "0 \<le> max c c'" "max c c' < 10" by auto
  from digits3_mode_of [OF this] show ?thesis by (simp add: permissive_def assms)
qed

lemma permissive_ge: "m \<le> permissive m n" "n \<le> permissive m n"
proof -
  obtain a b c a' b' c' where d: "digits3 m = (a, b, c)" "digits3 n = (a', b', c')"
    by (metis prod_cases3)
  have "mode_of (a, b, c) = m" "mode_of (a', b', c') = n"
    using mode_of_digits3 [of m] mode_of_digits3 [of n] d by simp_all
  with d show "m \<le> permissive m n" "n \<le> permissive m n"
    by (auto simp: permissive_def mode_of_def)
qed

lemma permissive_idem: "permissive m m = m"
  using mode_of_digits3 [of m] by (cases "digits3 m") (simp add: permissive_def)

lemma permissive_commute: "permissive m n = permissive n m"
  by (simp add: permissive_def max.commute split: prod.splits)

lemma permissive_assoc: "permissive (permissive m n) k = permissive m (permissive n k)"
proof -
  obtain a b c a' b' c' a'' b'' c'' where
    d: "digits3 m = (a, b, c)" "digits3 n = (a', b', c')" "digits3 k = (a'', b'', c'')"
    by (metis prod_cases3)
  have e: "digits3 (permissive m n) = (max a a', max b b', max c c')"
    "digits3 (permissive n k) = (max a' a'', max b' b'', max c' c'')"
    using d by (simp_all add: digits3_permissive)
  show ?thesis
    unfolding permissive_def [of "permissive m n" k] permissive_def [of m "permissive n k"]
    by (simp add: d e max.assoc)
qed

lemma calculate_permissive:
  assumes "0 \<le> m_mode dev" "0 \<le> a"
  shows "calculateDeviceMode a dev =
    (if permissive (m_mode dev) a > m_mode dev
     then dev\<lparr>m_isConfigured := False, m_mode := permissive (m_mode dev) a\<rparr> else dev)"
proof (cases "m_mode dev = a")
  case True
  then show ?thesis by (simp add: calculateDeviceMode_def permissive_idem)
next
  case False
  have pick: "(if y \<ge> x then y * k else x * k) = k * max x y" "(if y \<ge> x then y else x) = max x y"
    for x y k :: int by (simp_all add: max_def)
  have "cdiv a 10 \<ge> 0" "cdiv (m_mode dev) 10 \<ge> 0" using assms by simp_all
  then have "cdiv a 100 = a div 100" "cdiv (m_mode dev) 100 = m_mode dev div 100"
    "cmod (cdiv a 10) 10 = a div 10 mod 10" "cmod (cdiv (m_mode dev) 10) 10 = m_mode dev div 10 mod 10"
    "cmod a 10 = a mod 10" "cmod (m_mode dev) 10 = m_mode dev mod 10" using assms by simp_all
  with False show ?thesis
    by (simp only: calculateDeviceMode_def permissive_def digits3_def mode_of_def Let_def pick prod.case
        if_True not_False_eq_True simp_thms)
qed

lemma calculate_mode: "0 \<le> m_mode dev \<Longrightarrow> 0 \<le> a \<Longrightarrow>
    m_mode (calculateDeviceMode a dev) = permissive (m_mode dev) a"
  using permissive_ge(1) [of "m_mode dev" a] by (simp add: calculate_permissive)

lemma calculate_name [simp]: "m_name (calculateDeviceMode a dev) = m_name dev"
  by (simp add: calculateDeviceMode_def Let_def)

subsection \<open>The list of devices\<close>

lemma find_None: "findDeviceByName name ds = None \<longleftrightarrow> name \<notin> m_name ` set ds"
  by (induction ds) auto

lemma find_Some: "findDeviceByName name ds = Some i \<Longrightarrow> i < length ds \<and> m_name (ds ! i) = name"
  by (induction ds arbitrary: i) (auto split: if_splits)

definition grows :: "device list \<Rightarrow> device list \<Rightarrow> bool" where
  "grows ds es \<longleftrightarrow> length ds \<le> length es \<and>
     (\<forall>i < length ds. m_name (es ! i) = m_name (ds ! i) \<and> m_mode (ds ! i) \<le> m_mode (es ! i))"

lemma grows_refl [simp]: "grows ds ds"
  by (simp add: grows_def)

lemma grows_trans: "grows ds es \<Longrightarrow> grows es fs \<Longrightarrow> grows ds fs"
  unfolding grows_def by (metis (full_types) order_less_le_trans order_trans)

lemma calculate_grows: "m_mode dev \<le> m_mode (calculateDeviceMode a dev)"
  by (simp add: calculateDeviceMode_def Let_def)

lemma update_grows: "grows ds (updateDeviceList dev ds)"
  unfolding grows_def updateDeviceList_def using calculate_grows
  by (auto simp: nth_append nth_list_update dest!: find_Some split: option.splits)

lemma update_names:
  "map m_name (updateDeviceList dev ds) =
    (if m_name dev \<in> m_name ` set ds then map m_name ds else map m_name ds @ [m_name dev])"
proof (cases "findDeviceByName (m_name dev) ds")
  case None
  then have "m_name dev \<notin> m_name ` set ds" by (simp add: find_None)
  with None show ?thesis by (simp add: updateDeviceList_def copyDevice_def)
next
  case (Some i)
  from find_Some [OF this] Some have "m_name dev \<in> m_name ` set ds" by (metis imageI nth_mem)
  moreover have "map m_name (updateDeviceList dev ds) = map m_name ds"
    using find_Some [OF Some] by (intro nth_equalityI) (simp_all add: updateDeviceList_def Some nth_list_update)
  ultimately show ?thesis by simp
qed

lemma update_distinct: "distinct (map m_name ds) \<Longrightarrow> distinct (map m_name (updateDeviceList dev ds))"
  by (auto simp: update_names image_iff)

lemma activateDevice_same:
  assumes "activateDevice C (dev, c) = (r, (dev', c'))"
  shows "m_name dev' = m_name dev \<and> m_mode dev' = m_mode dev"
  using assms unfolding activateDevice_def
  by (auto simp: act_defs split: sum.splits prod.splits if_splits)

lemma activateDevices_same:
  assumes "activateDevices C ds c = (r, ds', c')"
  shows "map (\<lambda>d. (m_name d, m_mode d)) ds' = map (\<lambda>d. (m_name d, m_mode d)) ds"
  using assms
proof (induction ds arbitrary: c r ds' c')
  case (Cons dev devs)
  obtain q dev' c1 where run: "activateDevice C (dev, c) = (q, (dev', c1))" by (rule run_exists)
  obtain r2 ds2 c2 where rest: "activateDevices C devs c1 = (r2, ds2, c2)" by (rule run_exists)
  show ?case
    using Cons.prems Cons.IH [OF rest] activateDevice_same [OF run]
    by (cases q) (auto simp: run rest split: if_splits)
qed simp

lemma activate_grows:
  assumes "activateDevices C ds c = (r, ds', c')"
  shows "grows ds ds' \<and> map m_name ds' = map m_name ds"
proof -
  note same = activateDevices_same [OF assms]
  have "length ds' = length ds" using map_eq_imp_length_eq [OF same] .
  moreover have "m_name (ds' ! i) = m_name (ds ! i) \<and> m_mode (ds' ! i) = m_mode (ds ! i)" if "i < length ds" for i
    using that \<open>length ds' = length ds\<close> arg_cong [OF same, of "\<lambda>xs. xs ! i"] by simp
  ultimately show ?thesis by (auto simp: grows_def intro: nth_equalityI)
qed

lemma keeps_dev_read:
  assumes "\<And>g w dev. I (g, w) \<Longrightarrow> I (g\<lparr>m_devList := updateDeviceList dev (m_devList g)\<rparr>, w)"
  shows "keeps I (dev_readConfigElement e)"
  unfolding dev_readConfigElement_def Let_def using assms by (auto intro!: keeps_intros keeps_updm)

lemma keeps_dev_activate:
  assumes "\<And>g w w' r ds'. I (g, w) \<Longrightarrow> activateDevices C (m_devList g) w = (r, ds', w') \<Longrightarrow>
      I (g\<lparr>m_devList := ds'\<rparr>, w')"
  shows "keeps I (dev_activateGateway C)"
proof (rule keepsI)
  fix s assume "I s"
  obtain g w where s: "s = (g, w)" by force
  obtain r ds' w' where run: "activateDevices C (m_devList g) w = (r, ds', w')" by (rule run_exists)
  show "I (snd (dev_activateGateway C s))"
    using \<open>I s\<close> assms [OF _ run] by (simp add: dev_activateGateway_def s act_defs run)
qed

interpretation devices: gateway_virtuals dev_readConfigElement "dev_activateGateway C" dev_teardownGateway
  by unfold_locales
    (auto intro!: keeps_dev_read keeps_dev_activate keeps_ret simp: base_part_def dev_teardownGateway_def)

subsection \<open>Requests for devices\<close>

definition device_element :: "string \<times> int \<Rightarrow> json" where
  "device_element q = JObject [(''name'', JString (fst q)), (''mode'', JInteger (snd q))]"

definition mode_ok :: "string \<times> int \<Rightarrow> bool" where
  "mode_ok q \<longleftrightarrow> 0 \<le> snd q \<and> snd q \<le> int_max"

lemma device_read:
  assumes "mode_ok q"
  shows "dev_readConfigElement (device_element q) (g, w) =
    (Inr True, (g\<lparr>m_devList := updateDeviceList (newDevice (fst q) (snd q)) (m_devList g)\<rparr>, w))"
  using assms
  by (simp add: dev_readConfigElement_def device_element_def parseDevice_def newDevice_def read_defs
      mode_ok_def to_int32_id int_min_def act_defs)

text \<open>The modes on record, and the effect of the requests on them.\<close>

definition mode_on :: "device list \<Rightarrow> string \<Rightarrow> int option" where
  "mode_on ds name = map_option (\<lambda>i. m_mode (ds ! i)) (findDeviceByName name ds)"

lemma findDevice_append:
  "findDeviceByName n (ds @ [d]) = (case findDeviceByName n ds of Some i \<Rightarrow> Some i
     | None \<Rightarrow> if m_name d = n then Some (length ds) else None)"
  by (induction ds) (auto split: option.splits)

lemma find_names: "map m_name ds = map m_name es \<Longrightarrow> findDeviceByName n ds = findDeviceByName n es"
proof (induction ds arbitrary: es)
  case (Cons d ds)
  then show ?case by (cases es) auto
qed simp

lemma mode_on_update:
  assumes "0 \<le> m_mode dev" "\<forall>m. mode_on ds (m_name dev) = Some m \<longrightarrow> 0 \<le> m"
  shows "mode_on (updateDeviceList dev ds) = (mode_on ds)(m_name dev \<mapsto>
    (case mode_on ds (m_name dev) of None \<Rightarrow> m_mode dev | Some m \<Rightarrow> permissive m (m_mode dev)))"
proof (cases "findDeviceByName (m_name dev) ds")
  case None
  show ?thesis
    by (rule ext) (auto simp: mode_on_def updateDeviceList_def None findDevice_append copyDevice_def nth_append
        dest: find_Some split: option.splits)
next
  case (Some i)
  let ?es = "ds[i := calculateDeviceMode (m_mode dev) (ds ! i)]"
  note i = find_Some [OF Some]
  have "map m_name ?es = map m_name ds"
    using i by (intro nth_equalityI) (simp_all add: nth_list_update)
  then have find: "findDeviceByName n ?es = findDeviceByName n ds" for n by (rule find_names)
  have "0 \<le> m_mode (ds ! i)" using assms(2) Some by (simp add: mode_on_def)
  then have mode: "m_mode (?es ! i) = permissive (m_mode (ds ! i)) (m_mode dev)"
    using i assms(1) by (simp add: calculate_mode)
  show ?thesis
  proof (rule ext)
    fix n
    show "mode_on (updateDeviceList dev ds) n = ((mode_on ds)(m_name dev \<mapsto>
      (case mode_on ds (m_name dev) of None \<Rightarrow> m_mode dev | Some m \<Rightarrow> permissive m (m_mode dev)))) n"
    proof (cases "n = m_name dev")
      case True
      with Some mode i show ?thesis by (simp add: mode_on_def updateDeviceList_def find)
    next
      case False
      then have "?es ! j = ds ! j" if "findDeviceByName n ds = Some j" for j
        using that find_Some [OF that] i by (cases "j = i") auto
      with False Some show ?thesis
        by (cases "findDeviceByName n ds") (simp_all add: mode_on_def updateDeviceList_def find)
    qed
  qed
qed

text \<open>The digitwise maximum of a list of modes.\<close>

lemma digits3_fold:
  "digits3 (fold (\<lambda>n m. permissive m n) ns m) =
    (Max ((\<lambda>k. k div 100) ` set (m # ns)), Max ((\<lambda>k. (k div 10) mod 10) ` set (m # ns)),
     Max ((\<lambda>k. k mod 10) ` set (m # ns)))"
proof (induction ns rule: rev_induct)
  case Nil
  then show ?case by (simp add: digits3_def)
next
  case (snoc n ns)
  have "digits3 n = (n div 100, (n div 10) mod 10, n mod 10)" by (simp add: digits3_def)
  have last: "Max (f ` set (m # ns @ [n])) = max (Max (f ` set (m # ns))) (f n)" for f :: "int \<Rightarrow> int"
  proof -
    have "f ` set (m # ns @ [n]) = insert (f n) (f ` set (m # ns))" by auto
    then show ?thesis using Max_insert [of "f ` set (m # ns)" "f n"] by (simp add: max.commute)
  qed
  from digits3_permissive [OF snoc \<open>digits3 n = _\<close>] show ?case
    unfolding last by simp
qed

definition modes_for :: "string \<Rightarrow> (string \<times> int) list \<Rightarrow> int list" where
  "modes_for name qs = map snd (filter (\<lambda>q. fst q = name) qs)"

definition all_modes :: "device list \<Rightarrow> string \<Rightarrow> int list" where
  "all_modes ds name = (case mode_on ds name of None \<Rightarrow> [] | Some m \<Rightarrow> [m])"

definition combined :: "int list \<Rightarrow> int option" where
  "combined ms = (case ms of [] \<Rightarrow> None | m # ns \<Rightarrow> Some (fold (\<lambda>n m. permissive m n) ns m))"

lemma devices_read:
  assumes "\<forall>q \<in> set qs. mode_ok q" "\<forall>n m. mode_on (m_devList g) n = Some m \<longrightarrow> 0 \<le> m"
  shows "\<exists>h. readElements dev_readConfigElement (map device_element qs) (g, w) = (Inr True, (h, w)) \<and>
    (\<forall>n. mode_on (m_devList h) n = combined (all_modes (m_devList g) n @ modes_for n qs))"
  using assms
proof (induction qs arbitrary: g)
  case Nil
  then show ?case
    by (auto simp: readElements_Nil modes_for_def all_modes_def combined_def split: option.splits)
next
  case (Cons q qs)
  let ?dev = "newDevice (fst q) (snd q)"
  let ?g = "g\<lparr>m_devList := updateDeviceList ?dev (m_devList g)\<rparr>"
  have ok: "mode_ok q" using Cons.prems(1) by simp
  have obj: "json_is_object (device_element q)" by (simp add: device_element_def)
  have dev: "m_name ?dev = fst q" "m_mode ?dev = snd q" "0 \<le> m_mode ?dev"
    using ok by (simp_all add: newDevice_def mode_ok_def)
  have upd: "mode_on (m_devList ?g) = (mode_on (m_devList g))(fst q \<mapsto>
      (case mode_on (m_devList g) (fst q) of None \<Rightarrow> snd q | Some m \<Rightarrow> permissive m (snd q)))"
    using mode_on_update [OF dev(3), of "m_devList g"] Cons.prems(2) dev by (simp cong: option.case_cong)
  have pos: "\<forall>n m. mode_on (m_devList ?g) n = Some m \<longrightarrow> 0 \<le> m"
    using Cons.prems(2) dev permissive_ge(1) unfolding upd
    by (auto split: option.splits) (metis order_trans)+
  have "\<forall>q \<in> set qs. mode_ok q" using Cons.prems(1) by simp
  from Cons.IH [OF this pos] obtain h where
    1: "readElements dev_readConfigElement (map device_element qs) (?g, w) = (Inr True, (h, w))"
    and 2: "\<forall>n. mode_on (m_devList h) n = combined (all_modes (m_devList ?g) n @ modes_for n qs)" by blast
  have "combined (all_modes (m_devList ?g) n @ modes_for n qs) =
      combined (all_modes (m_devList g) n @ modes_for n (q # qs))" for n
    unfolding all_modes_def upd
    by (auto simp: modes_for_def combined_def split: option.splits)
  with 1 2 readElements_Cons(1) [where R = dev_readConfigElement, OF obj device_read [OF ok, of g w]]
  show ?case by (intro exI [of _ h]) simp
qed

text \<open>What the white-listing policy promises: each digit is the largest of those asked for.\<close>

definition digit_max :: "int set \<Rightarrow> int \<times> int \<times> int" where
  "digit_max M = (Max ((\<lambda>k. k div 100) ` M), Max ((\<lambda>k. (k div 10) mod 10) ` M), Max ((\<lambda>k. k mod 10) ` M))"

section \<open>Properties\<close>



text \<open>Through any sequence of configurations, activations and teardowns no two devices of the
  gateway share a name, no device is forgotten or renamed, and no mode is ever lowered.\<close>

theorem devices_only_grow:
  assumes "(gateway_step dev_readConfigElement (dev_activateGateway C) dev_teardownGateway)\<^sup>*\<^sup>* (g, w) (h, v)"
    and "distinct (map m_name (m_devList g))"
  shows "distinct (map m_name (m_devList h)) \<and> grows (m_devList g) (m_devList h)"
proof -
  let ?I = "\<lambda>(h :: device_gateway, w). distinct (map m_name (m_devList h)) \<and> grows (m_devList g) (m_devList h)"
  have "?I (h, v)"
  proof (rule gateway_run_invariant [OF assms(1), where I = ?I])
    show "keeps ?I (dev_readConfigElement e)" for e
      by (rule keeps_dev_read) (auto intro: update_distinct grows_trans [OF _ update_grows])
    show "keeps ?I (dev_activateGateway C)"
      by (rule keeps_dev_activate) (use activate_grows in \<open>fastforce intro: grows_trans\<close>)
  qed (auto simp: assms(2) dev_teardownGateway_def intro: keeps_ret)
  then show ?thesis by simp
qed

theorem devices_only_grow_witness:
  "let (r, h, v) = setConfig dev_readConfigElement (JArray [device_element (''/dev/b'', 600)])
     (newDeviceNodeGateway\<lparr>m_devList := [newDevice ''/dev/a'' 622]\<rparr>, [] :: request list)
   in distinct (map m_name (m_devList h)) \<and> grows [newDevice ''/dev/a'' 622] (m_devList h)"
proof -
  let ?s = "(newDeviceNodeGateway\<lparr>m_devList := [newDevice ''/dev/a'' 622]\<rparr>, [] :: request list)"
  obtain r h w where run: "setConfig dev_readConfigElement (JArray [device_element (''/dev/b'', 600)]) ?s = (r, (h, w))"
    by (rule run_exists)
  have "(gateway_step dev_readConfigElement (dev_activateGateway recorder) dev_teardownGateway)\<^sup>*\<^sup>* ?s (h, w)"
    by (rule r_into_rtranclp) (rule gateway_step.intros(1) [OF run])
  from devices_only_grow [OF this] show ?thesis by (simp add: run)
qed

text \<open>In no run from a new gateway does the device node gateway report that it is activated, since
  nothing sets the flag that \<open>isActivated\<close> asks a dynamic gateway for; the library therefore never
  tears it down.\<close>

theorem device_gateway_never_activated:
  assumes "(gateway_step dev_readConfigElement (dev_activateGateway C) dev_teardownGateway)\<^sup>*\<^sup>* (newDeviceNodeGateway, w) (h, v)"
  shows "\<not> isActivated h"
proof -
  let ?I = "\<lambda>(h :: device_gateway, w). m_isDynamic h \<and> \<not> m_activatedOnce h"
  have "?I (h, v)"
  proof (rule gateway_run_invariant [OF assms, where I = ?I])
    show "?I (newDeviceNodeGateway, w)"
      by (simp add: newDeviceNodeGateway_def newGateway_def gateway.defs device_gateway.defs)
  qed (auto intro!: keeps_dev_read keeps_dev_activate keeps_ret simp: dev_teardownGateway_def)
  then show ?thesis by (simp add: isActivated_def)
qed

theorem device_gateway_never_activated_witness:
  "\<not> isActivated (fst (snd (bnd (setConfig dev_readConfigElement (JArray [device_element (''/dev/a'', 600)]))
     (\<lambda>_. activate (dev_activateGateway recorder)) (newDeviceNodeGateway, []))))"
proof -
  obtain r h w where run: "setConfig dev_readConfigElement (JArray [device_element (''/dev/a'', 600)])
      (newDeviceNodeGateway, [] :: request list) = (r, (h, w))"
    by (rule run_exists)
  obtain r' h' w' where run': "activate (dev_activateGateway recorder) (h, w) = (r', (h', w'))"
    by (rule run_exists)
  let ?step = "gateway_step dev_readConfigElement (dev_activateGateway recorder) dev_teardownGateway"
  have one: "?step\<^sup>*\<^sup>* (newDeviceNodeGateway, []) (h, w)"
    by (rule r_into_rtranclp) (rule gateway_step.intros(1) [OF run])
  then have two: "?step\<^sup>*\<^sup>* (newDeviceNodeGateway, []) (h', w')"
    by (rule rtranclp.rtrancl_into_rtrancl) (rule gateway_step.intros(2) [OF run'])
  show ?thesis using device_gateway_never_activated [OF one] device_gateway_never_activated [OF two]
    by (cases r) (auto simp: bnd_def run run')
qed

end
