(* ===== verification/Netlink.thy ===== *)
theory Netlink
  imports Prelude "HOL-Library.Word"
begin

unbundle bit_operations_syntax

text \<open>
  The class \<open>Netlink\<close> of \<open>gateway/network/netlink.cpp\<close>: requests to the routing socket of the
  kernel and the cache of what it answers. The kernel is a parameter, the record \<open>kernel_if\<close>; an
  answer comes as the list of messages that the walk with \<open>NLMSG_OK\<close> and \<open>NLMSG_NEXT\<close> sees. The
  loop of \<open>readMessage\<close> may not end, so it takes fuel, the number of \<open>recvmsg\<close> calls it may make.
\<close>

section \<open>Byte order\<close>

text \<open>\<open>htonl\<close> and \<open>ntohl\<close> on the little-endian machines the program is built for.\<close>

definition htonl :: "32 word \<Rightarrow> 32 word" where
  "htonl w = push_bit 24 w OR (push_bit 8 w AND 0xFF0000) OR (drop_bit 8 w AND 0xFF00) OR drop_bit 24 w"

definition ntohl :: "32 word \<Rightarrow> 32 word" where
  "ntohl w = htonl w"

lemma len_eq: "LENGTH(32) = 32"
  by simp

lemma bit_htonl:
  "bit (htonl w) n \<longleftrightarrow> n < 32 \<and> bit w (if n < 8 then n + 24 else if n < 16 then n + 8 else if n < 24 then n - 8 else n - 24)"
proof -
  have m1: "bit (0xFF0000 :: 32 word) n \<longleftrightarrow> 16 \<le> n \<and> n < 24"
  proof -
    have "(0xFF0000 :: 32 word) = push_bit 16 (mask 8)" by (simp add: mask_eq_exp_minus_1 push_bit_eq_mult)
    then show ?thesis by (simp only: bit_push_bit_iff bit_mask_iff len_eq) auto
  qed
  have m2: "bit (0xFF00 :: 32 word) n \<longleftrightarrow> 8 \<le> n \<and> n < 16"
  proof -
    have "(0xFF00 :: 32 word) = push_bit 8 (mask 8)" by (simp add: mask_eq_exp_minus_1 push_bit_eq_mult)
    then show ?thesis by (simp only: bit_push_bit_iff bit_mask_iff len_eq) auto
  qed
  have high: "bit w k \<Longrightarrow> k < 32" for k using bit_imp_le_length [of w k] by simp
  show ?thesis
    unfolding htonl_def bit_or_iff bit_and_iff bit_push_bit_iff bit_drop_bit_eq o_def m1 m2 len_eq
    by (auto simp: add.commute dest: high)
qed

lemma htonl_htonl [simp]: "htonl (htonl w) = w"
  by (rule bit_word_eqI) (auto simp: bit_htonl)

lemma ntohl_htonl [simp]: "ntohl (htonl w) = w" "htonl (ntohl w) = w"
  by (simp_all add: ntohl_def)

section \<open>Messages\<close>

type_synonym attribute = "nat \<times> string"

record link_info =
  ifi_index :: int
  ifi_flags :: "32 word"
  ifi_type :: nat
  link_attributes :: "attribute list"

record address_info =
  ifa_index :: nat
  address_attributes :: "attribute list"

datatype nlmsg =
    NLMSG_ERROR int | NLMSG_DONE
  | LinkMessage link_info | AddressMessage address_info | RouteMessage "attribute list"
  | OtherMessage

datatype request_type = RTM_NEWROUTE | RTM_NEWLINK | RTM_NEWADDR | RTM_GETLINK | RTM_GETADDR | RTM_GETROUTE

datatype request_flag = NLM_F_CREATE | NLM_F_REPLACE | NLM_F_DUMP | NLM_F_ACK | NLM_F_REQUEST

datatype payload =
    PayGen int | PayLink "32 word" "32 word" int | PayAddr "8 word" int | PayRoute

record netlink_request =
  nlmsg_len :: nat
  nlmsg_type :: request_type
  nlmsg_flags :: "request_flag list"
  nlmsg_seq :: "32 word"
  pay :: payload
  attrs :: "(nat \<times> nat \<times> 32 word) list"

definition IFLA_IFNAME :: nat where "IFLA_IFNAME = 3"
definition IFA_ADDRESS :: nat where "IFA_ADDRESS = 1"
definition IFA_LOCAL :: nat where "IFA_LOCAL = 2"
definition IFA_BROADCAST :: nat where "IFA_BROADCAST = 4"
definition RTA_GATEWAY :: nat where "RTA_GATEWAY = 5"
definition IFF_UP :: "32 word" where "IFF_UP = 1"
definition ARPHRD_LOOPBACK :: nat where "ARPHRD_LOOPBACK = 772"
definition AF_PACKET :: int where "AF_PACKET = 17"

text \<open>Sizes of the header and the payloads, and the alignment of the kernel's macros.\<close>

definition sizeof_hdr :: nat where "sizeof_hdr = 16"

fun sizeof_pay :: "payload \<Rightarrow> nat" where
  "sizeof_pay (PayGen f) = 1"
| "sizeof_pay (PayLink f c i) = 16"
| "sizeof_pay (PayAddr p i) = 8"
| "sizeof_pay PayRoute = 12"

definition NLMSG_ALIGN :: "nat \<Rightarrow> nat" where "NLMSG_ALIGN n = (n + 3) div 4 * 4"
definition NLMSG_LENGTH :: "nat \<Rightarrow> nat" where "NLMSG_LENGTH n = n + sizeof_hdr"
definition RTA_LENGTH :: "nat \<Rightarrow> nat" where "RTA_LENGTH n = 4 + n"
definition sizeof_attr :: nat where "sizeof_attr = 2048"

section \<open>The object\<close>

record 'c kernel_if =
  k_socket :: "('c, int) act"
  k_bind :: "('c, int) act"
  k_sendmsg :: "netlink_request \<Rightarrow> ('c, int) act"
  k_recvmsg :: "('c, int \<times> nlmsg list) act"
  inet_aton :: "string \<Rightarrow> 32 word option"
  inet_pton :: "string \<Rightarrow> 32 word option"
  inet_ntop :: "string \<Rightarrow> string option"

record netlink =
  m_sequenceNumber :: "32 word"
  m_hasKernelDump :: bool
  m_netlinkInitialized :: bool
  m_links :: "link_info list"
  m_addresses :: "address_info list"
  m_routes :: "attribute list list"

definition setupNetlink :: "'c kernel_if \<Rightarrow> (netlink, 'c, bool) meth" where
  "setupNetlink K = bnd (getm m_netlinkInitialized) (\<lambda>initialized.
     if initialized then ret True
     else bnd (ext (k_socket K)) (\<lambda>fd.
       if fd = -1 then ret False
       else bnd (ext (k_bind K)) (\<lambda>r.
         if r < 0 then ret False
         else seq (updm (m_netlinkInitialized_update (\<lambda>_. True))) (ret True))))"

definition createMessage :: "request_type \<Rightarrow> request_flag list \<Rightarrow> payload \<Rightarrow> (netlink, 'c, netlink_request) meth" where
  "createMessage type flags payload =
     bnd (getm m_sequenceNumber) (\<lambda>number.
       seq (updm (m_sequenceNumber_update (\<lambda>n. n + 1)))
         (ret \<lparr>nlmsg_len = NLMSG_LENGTH (sizeof_pay payload), nlmsg_type = type,
               nlmsg_flags = flags @ [NLM_F_ACK, NLM_F_REQUEST], nlmsg_seq = number, pay = payload, attrs = []\<rparr>))"

definition addAttribute :: "nat \<Rightarrow> nat \<Rightarrow> 32 word \<Rightarrow> netlink_request \<Rightarrow> bool \<times> netlink_request" where
  "addAttribute type len data request =
     (let usedAttributeLength = nlmsg_len request - sizeof_hdr - sizeof_pay (pay request) in
      if usedAttributeLength + RTA_LENGTH len > sizeof_attr then (False, request)
      else (True, request\<lparr>attrs := attrs request @ [(type, len, data)],
              nlmsg_len := NLMSG_ALIGN (nlmsg_len request) + RTA_LENGTH len\<rparr>))"

text \<open>The messages of one read: the error that ends the function at once, or whether the end of the
  answer was seen.\<close>

fun handleMessages :: "nlmsg list \<Rightarrow> bool \<Rightarrow> netlink \<Rightarrow> (int + bool) \<times> netlink" where
  "handleMessages [] end n = (Inr end, n)"
| "handleMessages (NLMSG_ERROR e # ms) end n =
     (if e \<noteq> 0 then (Inl e, n) else handleMessages ms True n)"
| "handleMessages (NLMSG_DONE # ms) end n = handleMessages ms True n"
| "handleMessages (LinkMessage l # ms) end n = handleMessages ms end (n\<lparr>m_links := m_links n @ [l]\<rparr>)"
| "handleMessages (AddressMessage a # ms) end n = handleMessages ms end (n\<lparr>m_addresses := m_addresses n @ [a]\<rparr>)"
| "handleMessages (RouteMessage r # ms) end n = handleMessages ms end (n\<lparr>m_routes := m_routes n @ [r]\<rparr>)"
| "handleMessages (OtherMessage # ms) end n = handleMessages ms end n"

fun readLoop :: "'c kernel_if \<Rightarrow> nat \<Rightarrow> (netlink, 'c, int) meth" where
  "readLoop K 0 = throw NoReturn"
| "readLoop K (Suc fuel) = bnd (ext (k_recvmsg K)) (\<lambda>(len, msgs). \<lambda>(n, c).
     case handleMessages (if len \<le> 0 then [] else msgs) (len = 0) n of
       (Inl e, n') \<Rightarrow> (Inr e, (n', c))
     | (Inr end, n') \<Rightarrow> if end then (Inr 0, (n', c)) else readLoop K fuel (n', c))"

definition readMessage :: "'c kernel_if \<Rightarrow> nat \<Rightarrow> (netlink, 'c, int) meth" where
  "readMessage K fuel = bnd (setupNetlink K) (\<lambda>ok. if \<not> ok then ret 1 else readLoop K fuel)"

definition sendMessage :: "'c kernel_if \<Rightarrow> nat \<Rightarrow> netlink_request \<Rightarrow> (netlink, 'c, bool) meth" where
  "sendMessage K fuel request = bnd (setupNetlink K) (\<lambda>ok.
     if \<not> ok then ret False
     else bnd (ext (k_sendmsg K request)) (\<lambda>r.
       if r = -1 then ret False
       else bnd (readMessage K fuel) (\<lambda>status. if status < 0 then ret False else ret True)))"

definition getKernelDump :: "'c kernel_if \<Rightarrow> nat \<Rightarrow> (netlink, 'c, bool) meth" where
  "getKernelDump K fuel = seq (updm (m_hasKernelDump_update (\<lambda>_. False)))
     (andThen (bnd (createMessage RTM_GETLINK [NLM_F_DUMP] (PayGen AF_PACKET)) (sendMessage K fuel))
     (andThen (bnd (createMessage RTM_GETADDR [NLM_F_DUMP] (PayGen AF_PACKET)) (sendMessage K fuel))
     (andThen (bnd (createMessage RTM_GETROUTE [NLM_F_DUMP] (PayGen AF_PACKET)) (sendMessage K fuel))
       (seq (updm (m_hasKernelDump_update (\<lambda>_. True))) (ret True)))))"

definition checkKernelDump :: "'c kernel_if \<Rightarrow> nat \<Rightarrow> (netlink, 'c, bool) meth" where
  "checkKernelDump K fuel = bnd (getm m_hasKernelDump) (\<lambda>has.
     if has then ret True else getKernelDump K fuel)"

text \<open>The constructor; its failures are only reported.\<close>

definition emptyNetlink :: netlink where
  "emptyNetlink = \<lparr>m_sequenceNumber = 1, m_hasKernelDump = False, m_netlinkInitialized = False,
     m_links = [], m_addresses = [], m_routes = []\<rparr>"

definition constructNetlink :: "'c kernel_if \<Rightarrow> nat \<Rightarrow> (netlink, 'c, unit) meth" where
  "constructNetlink K fuel =
     bnd (setupNetlink K) (\<lambda>_. bnd (getKernelDump K fuel) (\<lambda>_. ret ()))"

definition clearCache :: "netlink \<Rightarrow> netlink" where
  "clearCache n = n\<lparr>m_links := [], m_addresses := [], m_routes := [], m_hasKernelDump := False\<rparr>"

definition findByIndex :: "int \<Rightarrow> link_info list \<Rightarrow> link_info option" where
  "findByIndex ifaceIndex links = find (\<lambda>l. ifi_index l = ifaceIndex) links"

definition setDefaultGateway :: "'c kernel_if \<Rightarrow> nat \<Rightarrow> string \<Rightarrow> (netlink, 'c, bool) meth" where
  "setDefaultGateway K fuel gatewayAddress =
     bnd (createMessage RTM_NEWROUTE [NLM_F_CREATE, NLM_F_REPLACE] PayRoute) (\<lambda>set_gw.
       case inet_aton K gatewayAddress of
         None \<Rightarrow> ret False
       | Some gw_addr \<Rightarrow> sendMessage K fuel (snd (addAttribute RTA_GATEWAY 4 gw_addr set_gw)))"

definition linkUp :: "'c kernel_if \<Rightarrow> nat \<Rightarrow> int \<Rightarrow> (netlink, 'c, bool) meth" where
  "linkUp K fuel ifaceIndex = andThen (checkKernelDump K fuel)
     (bnd (getm m_links) (\<lambda>links. case findByIndex ifaceIndex links of
         None \<Rightarrow> ret False
       | Some ifinfo \<Rightarrow>
           bnd (createMessage RTM_NEWLINK [NLM_F_CREATE]
                 (PayLink (ifi_flags ifinfo OR IFF_UP) IFF_UP (ifi_index ifinfo))) (sendMessage K fuel)))"

definition broadcastAddress :: "32 word \<Rightarrow> nat \<Rightarrow> 32 word" where
  "broadcastAddress ip netmask = ip OR NOT (push_bit netmask 1 - 1)"

definition setIP :: "'c kernel_if \<Rightarrow> nat \<Rightarrow> int \<Rightarrow> 32 word \<Rightarrow> 8 word \<Rightarrow> (netlink, 'c, bool) meth" where
  "setIP K fuel ifaceIndex ip netmask =
     bnd (getm m_links) (\<lambda>links. case findByIndex ifaceIndex links of
         None \<Rightarrow> ret False
       | Some ifinfo \<Rightarrow>
           bnd (createMessage RTM_NEWADDR [NLM_F_CREATE, NLM_F_REPLACE] (PayAddr netmask (ifi_index ifinfo)))
             (\<lambda>msg. let msg = snd (addAttribute IFA_LOCAL 4 ip msg);
                        msg = snd (addAttribute IFA_BROADCAST 4 (broadcastAddress ip (unat netmask)) msg)
                    in sendMessage K fuel msg))"

definition linkDown :: "'c kernel_if \<Rightarrow> nat \<Rightarrow> int \<Rightarrow> (netlink, 'c, bool) meth" where
  "linkDown K fuel ifaceIndex =
     bnd (getm m_links) (\<lambda>links.
       case find (\<lambda>l. ifi_type l \<noteq> ARPHRD_LOOPBACK \<and> ifi_index l = ifaceIndex) links of
         None \<Rightarrow> ret False
       | Some ifinfo \<Rightarrow>
           bnd (createMessage RTM_NEWLINK [] (PayLink (NOT IFF_UP) IFF_UP (ifi_index ifinfo))) (sendMessage K fuel))"

text \<open>Attribute data is compared as C strings.\<close>

definition c_string :: "string \<Rightarrow> string" where
  "c_string data = takeWhile (\<lambda>c. c \<noteq> CHR 0x00) data"

definition hasName :: "string \<Rightarrow> link_info \<Rightarrow> bool" where
  "hasName name l \<longleftrightarrow> (\<exists>a \<in> set (link_attributes l). fst a = IFLA_IFNAME \<and> c_string (snd a) = name)"

definition findLink :: "'c kernel_if \<Rightarrow> nat \<Rightarrow> string \<Rightarrow> (netlink, 'c, link_info option) meth" where
  "findLink K fuel ifaceName = bnd (checkKernelDump K fuel) (\<lambda>ok.
     if \<not> ok then ret None else getm (\<lambda>n. find (hasName ifaceName) (m_links n)))"

definition findAddresses :: "'c kernel_if \<Rightarrow> nat \<Rightarrow> nat \<Rightarrow> (netlink, 'c, bool \<times> address_info list) meth" where
  "findAddresses K fuel interfaceIndex = bnd (checkKernelDump K fuel) (\<lambda>ok.
     if \<not> ok then ret (False, [])
     else getm (\<lambda>n. (True, filter (\<lambda>a. ifa_index a = interfaceIndex) (m_addresses n))))"

definition hasAddress :: "'c kernel_if \<Rightarrow> address_info list \<Rightarrow> string \<Rightarrow> bool" where
  "hasAddress K haystack needle \<longleftrightarrow> (\<exists>info \<in> set haystack. \<exists>a \<in> set (address_attributes info).
     (fst a = IFA_ADDRESS \<or> fst a = IFA_LOCAL) \<and> inet_ntop K (snd a) = Some needle)"

section \<open>What the kernel answers\<close>

text \<open>\<open>receives K c ps d\<close>: from the world \<open>c\<close> the calls of \<open>recvmsg\<close> give the packets \<open>ps\<close> and lead to \<open>d\<close>.\<close>

fun receives :: "'c kernel_if \<Rightarrow> 'c \<Rightarrow> (int \<times> nlmsg list) list \<Rightarrow> 'c \<Rightarrow> bool" where
  "receives K c [] d \<longleftrightarrow> d = c"
| "receives K c (p # ps) d \<longleftrightarrow> (case k_recvmsg K c of (r, e) \<Rightarrow> r = Inr p \<and> receives K e ps d)"

fun is_error :: "nlmsg \<Rightarrow> bool" where
  "is_error (NLMSG_ERROR e) \<longleftrightarrow> e \<noteq> 0"
| "is_error _ \<longleftrightarrow> False"

fun is_end :: "nlmsg \<Rightarrow> bool" where
  "is_end (NLMSG_ERROR e) \<longleftrightarrow> e = 0"
| "is_end NLMSG_DONE \<longleftrightarrow> True"
| "is_end _ \<longleftrightarrow> False"

fun links_of :: "nlmsg list \<Rightarrow> link_info list" where
  "links_of [] = []"
| "links_of (LinkMessage l # ms) = l # links_of ms"
| "links_of (m # ms) = links_of ms"

fun addresses_of :: "nlmsg list \<Rightarrow> address_info list" where
  "addresses_of [] = []"
| "addresses_of (AddressMessage a # ms) = a # addresses_of ms"
| "addresses_of (m # ms) = addresses_of ms"

lemma handleMessages_ok:
  assumes "\<forall>m \<in> set ms. \<not> is_error m"
  shows "\<exists>n'. handleMessages ms end n = (Inr (end \<or> (\<exists>m \<in> set ms. is_end m)), n') \<and>
    m_links n' = m_links n @ links_of ms \<and> m_addresses n' = m_addresses n @ addresses_of ms"
  using assms by (induction ms "end" n rule: handleMessages.induct) auto

lemma readLoop_step:
  assumes "k_recvmsg K c = (Inr (len, msgs), d)" "0 < len" "\<forall>m \<in> set msgs. \<not> is_error m"
  shows "\<exists>n'. readLoop K (Suc fuel) (n, c) =
      (if \<exists>m \<in> set msgs. is_end m then (Inr 0, (n', d)) else readLoop K fuel (n', d)) \<and>
    m_links n' = m_links n @ links_of msgs \<and> m_addresses n' = m_addresses n @ addresses_of msgs"
proof -
  from handleMessages_ok [OF assms(3), of False n] obtain n' where
    run: "handleMessages msgs False n = (Inr (\<exists>m \<in> set msgs. is_end m), n')" and
    cache: "m_links n' = m_links n @ links_of msgs" "m_addresses n' = m_addresses n @ addresses_of msgs"
    by auto
  have "readLoop K (Suc fuel) (n, c) =
      (if \<exists>m \<in> set msgs. is_end m then (Inr 0, (n', d)) else readLoop K fuel (n', d))"
    using assms(1,2) by (simp add: bnd_def ext_def run)
  with cache show ?thesis by blast
qed

lemma readLoop_packets:
  assumes "receives K c (ps @ [p]) d"
    and "\<forall>q \<in> set ps. 0 < fst q \<and> (\<forall>m \<in> set (snd q). \<not> is_error m \<and> \<not> is_end m)"
    and "0 < fst p \<and> (\<forall>m \<in> set (snd p). \<not> is_error m) \<and> (\<exists>m \<in> set (snd p). is_end m)"
    and "length ps < fuel"
  shows "\<exists>n'. readLoop K fuel (n, c) = (Inr 0, (n', d)) \<and>
    m_links n' = m_links n @ concat (map (links_of \<circ> snd) (ps @ [p])) \<and>
    m_addresses n' = m_addresses n @ concat (map (addresses_of \<circ> snd) (ps @ [p]))"
  using assms
proof (induction ps arbitrary: c n fuel)
  case Nil
  then obtain fuel' where f: "fuel = Suc fuel'" by (cases fuel) auto
  from Nil have "k_recvmsg K c = (Inr (fst p, snd p), d)" by (auto split: prod.splits)
  from readLoop_step [OF this, of fuel' n] Nil.prems(3) show ?case by (auto simp: f)
next
  case (Cons q ps)
  then obtain fuel' where f: "fuel = Suc fuel'" and fuel': "length ps < fuel'" by (cases fuel) auto
  from Cons.prems(1) obtain e where e: "k_recvmsg K c = (Inr (fst q, snd q), e)" "receives K e (ps @ [p]) d"
    by (auto split: prod.splits)
  from readLoop_step [OF e(1), of fuel' n] Cons.prems(2) obtain n1 where
    step: "readLoop K (Suc fuel') (n, c) = readLoop K fuel' (n1, e)"
    and n1: "m_links n1 = m_links n @ links_of (snd q)" "m_addresses n1 = m_addresses n @ addresses_of (snd q)"
    by (auto split: if_splits)
  from Cons.IH [OF e(2) _ Cons.prems(3) fuel', of n1] Cons.prems(2) step n1 show ?case
    by (auto simp: f)
qed

lemma bit_broadcast: "bit (broadcastAddress ip m) n \<longleftrightarrow> n < 32 \<and> (bit ip n \<or> m \<le> n)"
proof -
  have "push_bit m 1 - 1 = (mask m :: 32 word)"
    by (simp only: mask_eq_exp_minus_1 push_bit_of_1)
  moreover have "bit ip k \<Longrightarrow> k < 32" for k using bit_imp_le_length [of ip k] by simp
  ultimately show ?thesis
    unfolding broadcastAddress_def by (auto simp only: bit_or_iff bit_not_iff bit_mask_iff len_eq possible_bit_word)
qed

section \<open>Properties\<close>

text \<open>C35: Reading an answer that comes in any number of packets, the last of which holds the end mark,
  returns 0 as soon as there is fuel for the packets, and adds every link and every address of the
  answer to the cache, once each and in the order of the answer.\<close>

theorem netlink_answer_collected:
  assumes "m_netlinkInitialized n" and "receives K c (ps @ [p]) d" and "length ps < fuel"
    and "\<forall>q \<in> set ps. 0 < fst q \<and> (\<forall>m \<in> set (snd q). \<not> is_error m \<and> \<not> is_end m)"
    and "0 < fst p \<and> (\<forall>m \<in> set (snd p). \<not> is_error m) \<and> (\<exists>m \<in> set (snd p). is_end m)"
  shows "\<exists>n'. readMessage K fuel (n, c) = (Inr 0, (n', d)) \<and>
    m_links n' = m_links n @ concat (map (links_of \<circ> snd) (ps @ [p])) \<and>
    m_addresses n' = m_addresses n @ concat (map (addresses_of \<circ> snd) (ps @ [p]))"
  using readLoop_packets [OF assms(2,4,5,3), of n] assms(1)
  by (simp add: readMessage_def setupNetlink_def act_defs)

text \<open>A kernel that plays back a list of packets.\<close>

definition playback :: "(int \<times> nlmsg list) list kernel_if" where
  "playback = \<lparr>k_socket = (\<lambda>c. (Inr 3, c)), k_bind = (\<lambda>c. (Inr 0, c)), k_sendmsg = (\<lambda>_ c. (Inr 0, c)),
     k_recvmsg = (\<lambda>c. case c of [] \<Rightarrow> (Inr (-1, []), []) | p # ps \<Rightarrow> (Inr p, ps)),
     inet_aton = (\<lambda>_. None), inet_pton = (\<lambda>_. None), inet_ntop = (\<lambda>_. None)\<rparr>"

definition example_link :: "int \<Rightarrow> link_info" where
  "example_link i = \<lparr>ifi_index = i, ifi_flags = 0, ifi_type = 1, link_attributes = [(IFLA_IFNAME, ''eth0'')]\<rparr>"

theorem netlink_answer_collected_witness:
  "\<exists>n'. readMessage playback 2 (emptyNetlink\<lparr>m_netlinkInitialized := True\<rparr>,
      [(40, [LinkMessage (example_link 1)]), (60, [LinkMessage (example_link 2), NLMSG_DONE])]) = (Inr 0, (n', [])) \<and>
    m_links n' = [example_link 1, example_link 2]"
proof -
  have "receives playback [(40, [LinkMessage (example_link 1)]), (60, [LinkMessage (example_link 2), NLMSG_DONE])]
      ([(40, [LinkMessage (example_link 1)])] @ [(60, [LinkMessage (example_link 2), NLMSG_DONE])]) []"
    by (simp add: playback_def)
  from netlink_answer_collected [OF _ this, of "emptyNetlink\<lparr>m_netlinkInitialized := True\<rparr>" 2]
  show ?thesis by (auto simp: emptyNetlink_def)
qed

text \<open>Where receiving from the kernel keeps failing, reading an answer never returns: the loop ends
  on an empty read or an end mark only and does not look at a negative length.\<close>

theorem netlink_failed_receive_loops:
  assumes "m_netlinkInitialized n" and "\<And>c. \<exists>len msgs d. k_recvmsg K c = (Inr (len, msgs), d) \<and> len < 0"
  shows "fst (readMessage K fuel (n, c)) = Inl NoReturn"
proof -
  have "fst (readLoop K fuel (n, c)) = Inl NoReturn" for n c
  proof (induction fuel arbitrary: n c)
    case (Suc fuel)
    from assms(2) [of c] obtain len msgs d where r: "k_recvmsg K c = (Inr (len, msgs), d)" "len < 0" by blast
    then have "readLoop K (Suc fuel) (n, c) = readLoop K fuel (n, d)" by (simp add: bnd_def ext_def)
    with Suc show ?case by simp
  qed (simp add: throw_def)
  then show ?thesis using assms(1) by (simp add: readMessage_def setupNetlink_def act_defs)
qed

theorem netlink_failed_receive_loops_witness:
  "fst (readMessage (playback\<lparr>k_recvmsg := (\<lambda>c. (Inr (-1, []), c))\<rparr>) 1000
     (emptyNetlink\<lparr>m_netlinkInitialized := True\<rparr>, [])) = Inl NoReturn"
  by (rule netlink_failed_receive_loops) (simp_all add: playback_def)

text \<open>C38: The broadcast address that goes with an interface address is the one of its subnet for every
  address exactly where the prefix length is a multiple of 8: the mask is built in host byte order
  and applied to an address in network byte order.\<close>

theorem broadcast_address_multiple_of_8:
  assumes "m < 32"
  shows "(\<forall>a. broadcastAddress (htonl a) m = htonl (a OR mask (32 - m))) \<longleftrightarrow> 8 dvd m"
proof
  assume "8 dvd m"
  with assms have m: "m = 0 \<or> m = 8 \<or> m = 16 \<or> m = 24" by presburger
  show "\<forall>a. broadcastAddress (htonl a) m = htonl (a OR mask (32 - m))"
  proof (intro allI bit_word_eqI)
    fix a :: "32 word" and n assume "n < LENGTH(32)"
    then have n: "n < 32" by simp
    with m show "bit (broadcastAddress (htonl a) m) n \<longleftrightarrow> bit (htonl (a OR mask (32 - m))) n"
      unfolding bit_broadcast bit_htonl bit_or_iff bit_mask_iff len_eq by auto
  qed
next
  assume "\<forall>a. broadcastAddress (htonl a) m = htonl (a OR mask (32 - m))"
  then have eq: "broadcastAddress (htonl 0) m = htonl (0 OR mask (32 - m))" by blast
  let ?k = "8 * (m div 8)"
  have "m div 8 = 0 \<or> m div 8 = 1 \<or> m div 8 = 2 \<or> m div 8 = 3" using assms by presburger
  then have "bit (htonl (0 OR mask (32 - m))) ?k"
    unfolding bit_htonl bit_or_iff bit_mask_iff len_eq using assms by auto
  then have "bit (broadcastAddress (htonl 0) m) ?k" by (simp only: eq)
  then have "m \<le> ?k" unfolding bit_broadcast bit_htonl by simp
  then show "8 dvd m" by presburger
qed

theorem broadcast_address_multiple_of_8_witness:
  "broadcastAddress (htonl 0x0A000301) 24 = htonl (0x0A000301 OR mask 8)"
  using broadcast_address_multiple_of_8 [of 24] by simp

end
