(* ===== verification/NetlinkBytes.thy ===== *)
theory NetlinkBytes
  imports Netlink
begin

text \<open>
  The attributes of netlink messages as they lie in memory: \<open>addAttribute\<close>, which appends one to a
  request, and \<open>getAttributes\<close>, which takes the attributes of an answer apart. A message is a list of
  bytes, little-endian; an access past its end is the exception \<open>UndefinedBehaviour\<close>. An attribute
  is its length (with the header of four bytes), its type and its data, and the next one starts at
  a multiple of four.
\<close>

type_synonym bytes = "8 word list"

section \<open>The macros and the accesses\<close>

definition RTA_ALIGN :: "nat \<Rightarrow> nat" where "RTA_ALIGN n = (n + 3) div 4 * 4"

definition sizeof_rtattr :: nat where "sizeof_rtattr = 4"

text \<open>An \<open>unsigned short\<close>.\<close>

definition store16 :: "nat \<Rightarrow> bytes" where
  "store16 n = [word_of_nat n, word_of_nat (n div 256)]"

definition load16 :: "bytes \<Rightarrow> nat \<Rightarrow> nat" where
  "load16 b i = unat (b ! i) + 256 * unat (b ! (i + 1))"

definition write_at :: "bytes \<Rightarrow> nat \<Rightarrow> bytes \<Rightarrow> bytes" where
  "write_at b i d = take i b @ d @ drop (i + length d) b"

section \<open>Building a request\<close>

text \<open>The header, the payload and the buffer for the attributes; the structure is as long as its
  alignment makes it. \<open>msg_len\<close> is the field \<open>nlmsg_len\<close> of the header, \<open>msg_pay\<close> the size of the payload's type.
  The other fields of the header are in the request of the other theory; no attribute depends
  on their bytes, which are 0 here.\<close>

record message =
  msg_pay :: nat
  msg_len :: nat
  msg_bytes :: bytes

definition sizeof_request :: "nat \<Rightarrow> nat" where
  "sizeof_request pay_size = NLMSG_ALIGN (sizeof_hdr + pay_size + sizeof_attr)"

definition emptyMessage :: "nat \<Rightarrow> message" where
  "emptyMessage pay_size = \<lparr>msg_pay = pay_size, msg_len = NLMSG_LENGTH pay_size,
     msg_bytes = replicate (sizeof_request pay_size) 0\<rparr>"

definition addAttributeBytes :: "nat \<Rightarrow> bytes \<Rightarrow> message \<Rightarrow> exn + (bool \<times> message)" where
  "addAttributeBytes type data request =
     (let usedAttributeLength = msg_len request - sizeof_hdr - msg_pay request in
      if usedAttributeLength + RTA_LENGTH (length data) > sizeof_attr then Inr (False, request)
      else let rta = NLMSG_ALIGN (msg_len request) in
        if rta + RTA_LENGTH (length data) > length (msg_bytes request) then Inl UndefinedBehaviour
        else Inr (True, request\<lparr>
          msg_bytes := write_at (msg_bytes request) rta (store16 (RTA_LENGTH (length data)) @ store16 type @ data),
          msg_len := rta + RTA_LENGTH (length data)\<rparr>))"

section \<open>Taking an answer apart\<close>

text \<open>\<open>attribute\<close> is the offset of the pointer, \<open>len\<close> what is left of the message, which the last step can
  make negative; \<open>malloc n\<close> tells whether \<open>n\<close> bytes can be had. The result is the value returned and the
  attributes appended to \<open>result\<close>, each with its type.\<close>

function attributesFrom :: "(nat \<Rightarrow> bool) \<Rightarrow> bytes \<Rightarrow> nat \<Rightarrow> int \<Rightarrow> exn + (bool \<times> (nat \<times> bytes) list)" where
  "attributesFrom malloc b attribute len =
     (if len < int sizeof_rtattr then Inr (True, [])
      else if length b < attribute + sizeof_rtattr then Inl UndefinedBehaviour
      else let rta_len = load16 b attribute in
        if rta_len < sizeof_rtattr \<or> int rta_len > len then Inr (True, [])
        else if \<not> malloc (rta_len - sizeof_rtattr) then Inr (False, [])
        else if length b < attribute + rta_len then Inl UndefinedBehaviour
        else let data = take (rta_len - sizeof_rtattr) (drop (attribute + sizeof_rtattr) b) in
          (case attributesFrom malloc b (attribute + RTA_ALIGN rta_len) (len - int (RTA_ALIGN rta_len)) of
             Inl e \<Rightarrow> Inl e
           | Inr (ok, rest) \<Rightarrow> Inr (ok, (load16 b (attribute + 2), data) # rest)))"
  by pat_completeness auto
termination
  by (relation "measure (\<lambda>(malloc, b, attribute, len). nat len)") (auto simp: RTA_ALIGN_def sizeof_rtattr_def)

declare attributesFrom.simps [simp del]

definition getAttributes :: "(nat \<Rightarrow> bool) \<Rightarrow> message \<Rightarrow> exn + (bool \<times> (nat \<times> bytes) list)" where
  "getAttributes malloc header =
     attributesFrom malloc (msg_bytes header) (sizeof_hdr + NLMSG_ALIGN (msg_pay header))
       (int (msg_len header) - int (NLMSG_LENGTH (msg_pay header)))"

section \<open>Lemmas\<close>

lemma align_props: "n \<le> RTA_ALIGN n" "RTA_ALIGN n < n + 4" "RTA_ALIGN n mod 4 = 0" "NLMSG_ALIGN n = RTA_ALIGN n"
  "n mod 4 = 0 \<Longrightarrow> RTA_ALIGN n = n" "m mod 4 = 0 \<Longrightarrow> RTA_ALIGN (m + n) = m + RTA_ALIGN n"
proof -
  have div: "(n + 3) div 4 * 4 + (n + 3) mod 4 = n + 3" by (rule div_mult_mod_eq)
  have small: "(n + 3) mod 4 < 4" by (rule mod_less_divisor) (rule zero_less_numeral)
  show "n \<le> RTA_ALIGN n" unfolding RTA_ALIGN_def using div small by linarith
  show "RTA_ALIGN n < n + 4" unfolding RTA_ALIGN_def using div small by linarith
  show "RTA_ALIGN n mod 4 = 0" "NLMSG_ALIGN n = RTA_ALIGN n" by (simp_all add: RTA_ALIGN_def NLMSG_ALIGN_def)
  show same: "RTA_ALIGN n = n" if "n mod 4 = 0"
  proof -
    from that obtain k where "n = 4 * k" by (auto simp: mod_eq_0_iff_dvd elim: dvdE)
    then show ?thesis by (simp add: RTA_ALIGN_def)
  qed
  show "RTA_ALIGN (m + n) = m + RTA_ALIGN n" if "m mod 4 = 0"
  proof -
    from that obtain k where "m = 4 * k" by (auto simp: mod_eq_0_iff_dvd elim: dvdE)
    then show ?thesis by (simp add: RTA_ALIGN_def add.assoc)
  qed
qed

lemma unat_byte: "unat (word_of_nat n :: 8 word) = n mod 256"
  by (simp add: unat_of_nat)

lemma load16_store16: "n < 65536 \<Longrightarrow> load16 (store16 n) 0 = n"
  by (simp add: load16_def store16_def unat_byte)

lemma write_at_length: "i + length d \<le> length b \<Longrightarrow> length (write_at b i d) = length b"
  by (simp add: write_at_def)

lemma write_at_region:
  "i + length d \<le> length b \<Longrightarrow> take (length d) (drop i (write_at b i d)) = d"
  "j + n \<le> i \<Longrightarrow> i \<le> length b \<Longrightarrow> take n (drop j (write_at b i d)) = take n (drop j b)"
proof -
  show "take (length d) (drop i (write_at b i d)) = d" if "i + length d \<le> length b"
    using that by (simp add: write_at_def)
  show "take n (drop j (write_at b i d)) = take n (drop j b)" if "j + n \<le> i" "i \<le> length b"
    using that by (simp add: write_at_def drop_take [symmetric] flip: take_drop) (simp add: take_drop)
qed

text \<open>One attribute in memory.\<close>

definition encoded :: "nat \<times> bytes \<Rightarrow> bytes" where
  "encoded a = store16 (RTA_LENGTH (length (snd a))) @ store16 (fst a) @ snd a"

lemma length_encoded [simp]: "length (encoded a) = RTA_LENGTH (length (snd a))"
  by (simp add: encoded_def store16_def RTA_LENGTH_def)

lemma load_region:
  assumes "take (RTA_LENGTH (length d)) (drop i b) = encoded (t, d)" "RTA_LENGTH (length d) < 65536" "t < 65536"
    "i + RTA_LENGTH (length d) \<le> length b"
  shows "load16 b i = RTA_LENGTH (length d)" "load16 b (i + 2) = t" "take (length d) (drop (i + 4) b) = d"
proof -
  have at: "b ! (i + k) = encoded (t, d) ! k" if "k < RTA_LENGTH (length d)" for k
    using that assms(1,4) nth_take [of k "RTA_LENGTH (length d)" "drop i b"] by simp
  have four: "4 \<le> RTA_LENGTH (length d)" by (simp add: RTA_LENGTH_def)
  show "load16 b i = RTA_LENGTH (length d)"
    using at [of 0] at [of 1] four assms(2) by (simp add: load16_def encoded_def store16_def unat_byte)
  show "load16 b (i + 2) = t"
    using at [of 2] at [of 3] four assms(3) by (simp add: load16_def encoded_def store16_def unat_byte numeral_2_eq_2 numeral_3_eq_3)
  have "drop 4 (take (RTA_LENGTH (length d)) (drop i b)) = d"
    by (simp add: assms(1) encoded_def store16_def)
  then show "take (length d) (drop (i + 4) b) = d"
    by (simp add: drop_take RTA_LENGTH_def add.commute)
qed

text \<open>Attributes one after the other from an offset on; the last one ends at \<open>e\<close>.\<close>

fun laid :: "bytes \<Rightarrow> nat \<Rightarrow> (nat \<times> bytes) list \<Rightarrow> nat \<Rightarrow> bool" where
  "laid b off [] e \<longleftrightarrow> e = off"
| "laid b off (a # as) e \<longleftrightarrow>
     take (length (encoded a)) (drop off b) = encoded a \<and> off + length (encoded a) \<le> length b \<and>
     (if as = [] then e = off + length (encoded a) else laid b (RTA_ALIGN (off + length (encoded a))) as e)"

lemma laid_end: "laid b off as e \<Longrightarrow> off \<le> e \<and> (\<forall>a as'. as = a # as' \<longrightarrow> off + length (encoded a) \<le> e)"
proof (induction b off as e rule: laid.induct)
  case (2 b off a as e)
  show ?case
  proof (cases "as = []")
    case False
    with 2 have "RTA_ALIGN (off + length (encoded a)) \<le> e" by simp
    then show ?thesis using align_props(1) [of "off + length (encoded a)"] by (auto simp del: length_encoded)
  qed (use 2 in auto)
qed simp

definition small :: "nat \<times> bytes \<Rightarrow> bool" where
  "small a \<longleftrightarrow> fst a < 65536 \<and> RTA_LENGTH (length (snd a)) < 65536"

lemma laid_read:
  assumes "laid b off as e" "off mod 4 = 0" "\<forall>a \<in> set as. small a"
  shows "attributesFrom (\<lambda>_. True) b off (int e - int off) = Inr (True, as)"
  using assms
proof (induction as arbitrary: off)
  case Nil
  then show ?case by (simp add: attributesFrom.simps sizeof_rtattr_def)
next
  case (Cons a as)
  obtain t d where a: "a = (t, d)" by (cases a)
  let ?n = "RTA_LENGTH (length d)"
  have lay: "take ?n (drop off b) = encoded (t, d)" "off + ?n \<le> length b" using Cons.prems(1) by (simp_all add: a)
  have small: "?n < 65536" "t < 65536" "4 \<le> ?n" using Cons.prems(3) by (simp_all add: a small_def RTA_LENGTH_def)
  note load = load_region [OF lay(1) small(1,2) lay(2)]
  have fits: "off + ?n \<le> e" using laid_end [OF Cons.prems(1)] by (simp add: a)
  have al: "RTA_ALIGN (off + ?n) = off + RTA_ALIGN ?n" using align_props(6) [OF Cons.prems(2)] .
  have rest: "attributesFrom (\<lambda>_. True) b (off + RTA_ALIGN ?n) (int e - int off - int (RTA_ALIGN ?n)) = Inr (True, as)"
  proof (cases "as = []")
    case True
    then have "int e - int off - int (RTA_ALIGN ?n) < 4" using Cons.prems(1) align_props(1) [of ?n] by (simp add: a)
    then show ?thesis using True by (simp add: attributesFrom.simps sizeof_rtattr_def)
  next
    case False
    then have l: "laid b (off + RTA_ALIGN ?n) as e" using Cons.prems(1) by (simp add: a al)
    have "(off + RTA_ALIGN ?n) mod 4 = 0" using align_props(3) [of "off + ?n"] al by simp
    from Cons.IH [OF l this] Cons.prems(3) show ?thesis by (simp add: algebra_simps)
  qed
  have d: "take (?n - 4) (drop (off + 4) b) = d" using load(3) by (simp add: RTA_LENGTH_def)
  show ?case
    unfolding attributesFrom.simps [of _ b off] using small(3) lay(2) fits rest d
    by (simp add: a sizeof_rtattr_def load(1) load(2) [simplified] Let_def)
qed

lemma laid_write:
  assumes "laid b off as e" "off mod 4 = 0" "RTA_ALIGN e + length (encoded a) \<le> length b"
  shows "laid (write_at b (RTA_ALIGN e) (encoded a)) off (as @ [a]) (RTA_ALIGN e + length (encoded a))"
  using assms(1,2)
proof (induction as arbitrary: off)
  case Nil
  then have "RTA_ALIGN e = off" using align_props(5) by simp
  then show ?case using assms(3) write_at_region(1) [of off "encoded a" b] by (simp add: write_at_length)
next
  case (Cons x as)
  have "off + length (encoded x) \<le> RTA_ALIGN e"
    using laid_end [OF Cons.prems(1)] align_props(1) [of e] by (auto simp del: length_encoded)
  then have same: "take (length (encoded x)) (drop off (write_at b (RTA_ALIGN e) (encoded a))) = encoded x"
    using write_at_region(2) [of off "length (encoded x)" "RTA_ALIGN e" b "encoded a"] Cons.prems(1) assms(3) by simp
  show ?case
  proof (cases "as = []")
    case True
    then have "e = off + length (encoded x)" using Cons.prems(1) by simp
    then show ?thesis
      using True same Cons.prems(1) assms(3) write_at_region(1) [of "RTA_ALIGN e" "encoded a" b] by (simp add: write_at_length)
  next
    case False
    have "RTA_ALIGN (off + length (encoded x)) mod 4 = 0" by (rule align_props(3))
    with Cons.IH [OF _ this] False same Cons.prems(1) assms(3) show ?thesis by (simp add: write_at_length)
  qed
qed


section \<open>Every attribute that fits comes back\<close>

text \<open>The requests of the code are built by adding attributes one by one, until one is refused.\<close>

fun addAttributes :: "(nat \<times> bytes) list \<Rightarrow> message \<Rightarrow> exn + (bool \<times> message)" where
  "addAttributes [] request = Inr (True, request)"
| "addAttributes (a # as) request =
     (case addAttributeBytes (fst a) (snd a) request of
        Inl e \<Rightarrow> Inl e
      | Inr (ok, request) \<Rightarrow> if ok then addAttributes as request else Inr (False, request))"

definition taken :: "(nat \<times> bytes) list \<Rightarrow> nat" where
  "taken as = sum_list (map (\<lambda>a. RTA_ALIGN (RTA_LENGTH (length (snd a)))) as)"

lemma taken_simps [simp]: "taken [] = 0"
  "taken (as @ bs) = taken as + taken bs" "taken (a # as) = RTA_ALIGN (RTA_LENGTH (length (snd a))) + taken as"
  by (simp_all add: taken_def)

definition holds_attributes :: "(nat \<times> bytes) list \<Rightarrow> message \<Rightarrow> bool" where
  "holds_attributes as m \<longleftrightarrow> msg_pay m mod 4 = 0 \<and>
     length (msg_bytes m) = NLMSG_LENGTH (msg_pay m) + sizeof_attr \<and>
     laid (msg_bytes m) (NLMSG_LENGTH (msg_pay m)) as (msg_len m) \<and>
     RTA_ALIGN (msg_len m) = NLMSG_LENGTH (msg_pay m) + taken as"

lemma aligned_start: "p mod 4 = 0 \<Longrightarrow> NLMSG_LENGTH p mod 4 = 0"
  by (auto simp: NLMSG_LENGTH_def sizeof_hdr_def mod_eq_0_iff_dvd)

lemma size_aligned: "p mod 4 = 0 \<Longrightarrow> sizeof_request p = NLMSG_LENGTH p + sizeof_attr"
  using align_props(5) [of "sizeof_hdr + p + sizeof_attr"] align_props(4) [of "sizeof_hdr + p + sizeof_attr"]
  by (auto simp: sizeof_request_def sizeof_hdr_def sizeof_attr_def NLMSG_LENGTH_def mod_eq_0_iff_dvd)

lemma empty_holds: "p mod 4 = 0 \<Longrightarrow> holds_attributes [] (emptyMessage p)"
  using align_props(5) [OF aligned_start]
  by (simp add: holds_attributes_def emptyMessage_def size_aligned)

lemma add_holds:
  assumes m: "holds_attributes as m" and fits: "taken (as @ [a]) \<le> sizeof_attr"
  shows "\<exists>m'. addAttributeBytes (fst a) (snd a) m = Inr (True, m') \<and> holds_attributes (as @ [a]) m' \<and> msg_pay m' = msg_pay m"
proof -
  let ?n = "RTA_LENGTH (length (snd a))" and ?p = "NLMSG_LENGTH (msg_pay m)"
  let ?m = "m\<lparr>msg_bytes := write_at (msg_bytes m) (?p + taken as) (encoded a), msg_len := ?p + taken as + ?n\<rparr>"
  have m_at: "RTA_ALIGN (msg_len m) = ?p + taken as" and len: "length (msg_bytes m) = ?p + sizeof_attr"
    and p: "?p mod 4 = 0" and l: "laid (msg_bytes m) ?p as (msg_len m)"
    using m aligned_start by (auto simp: holds_attributes_def)
  have n: "?n \<le> RTA_ALIGN ?n" by (rule align_props(1))
  have used: "msg_len m - sizeof_hdr - msg_pay m \<le> taken as"
    using align_props(1) [of "msg_len m"] m_at by (simp add: NLMSG_LENGTH_def)
  have room: "?p + taken as + ?n \<le> length (msg_bytes m)" using fits n len by simp
  have "addAttributeBytes (fst a) (snd a) m = Inr (True, ?m)"
    unfolding addAttributeBytes_def Let_def align_props(4) m_at using used fits n room
    by (simp add: encoded_def)
  moreover have "laid (msg_bytes ?m) ?p (as @ [a]) (msg_len ?m)"
    using laid_write [OF l p] room by (simp add: m_at)
  moreover have "RTA_ALIGN (?p + taken as + ?n) = ?p + taken as + RTA_ALIGN ?n"
    by (rule align_props(6)) (metis m_at align_props(3))
  ultimately show ?thesis
    using m room by (auto simp: holds_attributes_def write_at_length)
qed

lemma add_all_holds:
  "holds_attributes bs m \<Longrightarrow> taken (bs @ as) \<le> sizeof_attr \<Longrightarrow>
     \<exists>m'. addAttributes as m = Inr (True, m') \<and> holds_attributes (bs @ as) m'"
proof (induction as arbitrary: bs m)
  case (Cons a as)
  from Cons.prems(2) have "taken (bs @ [a]) \<le> sizeof_attr" by simp
  from add_holds [OF Cons.prems(1) this] obtain m1
    where "addAttributeBytes (fst a) (snd a) m = Inr (True, m1)" "holds_attributes (bs @ [a]) m1" by blast
  with Cons.IH [of "bs @ [a]" m1] Cons.prems(2) show ?case by simp
qed simp

lemma held_are_read:
  assumes "holds_attributes as m" "\<forall>a \<in> set as. small a"
  shows "getAttributes (\<lambda>_. True) m = Inr (True, as)"
proof -
  have off: "sizeof_hdr + NLMSG_ALIGN (msg_pay m) = NLMSG_LENGTH (msg_pay m)"
    using assms(1) align_props(5) by (simp add: holds_attributes_def align_props(4) NLMSG_LENGTH_def)
  show ?thesis
    unfolding getAttributes_def off using assms aligned_start
    by (auto simp: holds_attributes_def intro: laid_read)
qed

lemma taken_small: "taken as \<le> sizeof_attr \<Longrightarrow> a \<in> set as \<Longrightarrow> fst a < 65536 \<Longrightarrow> small a"
proof -
  assume "a \<in> set as" "taken as \<le> sizeof_attr" "fst a < 65536"
  moreover from \<open>a \<in> set as\<close> have "RTA_ALIGN (RTA_LENGTH (length (snd a))) \<le> taken as"
    unfolding taken_def by (intro member_le_sum_list) auto
  ultimately show "small a"
    using align_props(1) [of "RTA_LENGTH (length (snd a))"] by (simp add: small_def sizeof_attr_def)
qed

text \<open>C33: the attributes added one by one to an empty request, each taking its aligned length of the 2048
  bytes there are, are all accepted, and taking the message apart gives them back, in order, with
  their types and their data.\<close>

theorem attributes_roundtrip:
  assumes "p mod 4 = 0" "taken as \<le> sizeof_attr" "\<forall>a \<in> set as. fst a < 65536"
  shows "\<exists>m. addAttributes as (emptyMessage p) = Inr (True, m) \<and> getAttributes (\<lambda>_. True) m = Inr (True, as)"
proof -
  obtain m where "addAttributes as (emptyMessage p) = Inr (True, m)" "holds_attributes as m"
    using add_all_holds [OF empty_holds [OF assms(1)], of as] assms(2) by auto
  with assms(2,3) show ?thesis by (auto intro!: held_are_read taken_small)
qed

lemma attributes_roundtrip_witness:
  "\<exists>m. addAttributes [(2, [10, 0, 0, 5]), (3, [101, 116, 104, 48, 0]), (4, [10, 0, 0, 255])] (emptyMessage 8) = Inr (True, m) \<and>
     getAttributes (\<lambda>_. True) m = Inr (True, [(2, [10, 0, 0, 5]), (3, [101, 116, 104, 48, 0]), (4, [10, 0, 0, 255])])"
  by (rule attributes_roundtrip) (simp_all add: RTA_ALIGN_def RTA_LENGTH_def sizeof_attr_def)

section \<open>Where the buffer ends\<close>

text \<open>C37: adding an attribute to a request writes past its end exactly when the attribute fits after the
  bytes in use but not after their number rounded up to the alignment at which it is written: the
  guard of the code counts the former.\<close>

theorem addAttribute_overflow_iff:
  assumes "msg_pay m mod 4 = 0" "length (msg_bytes m) = sizeof_request (msg_pay m)" "NLMSG_LENGTH (msg_pay m) \<le> msg_len m"
  shows "addAttributeBytes type data m = Inl UndefinedBehaviour \<longleftrightarrow>
    (let used = msg_len m - NLMSG_LENGTH (msg_pay m) in
       used + RTA_LENGTH (length data) \<le> sizeof_attr \<and> RTA_ALIGN used + RTA_LENGTH (length data) > sizeof_attr)"
proof -
  obtain u where u: "msg_len m = NLMSG_LENGTH (msg_pay m) + u" using assms(3) le_Suc_ex by blast
  have "RTA_ALIGN (msg_len m) = NLMSG_LENGTH (msg_pay m) + RTA_ALIGN u"
    unfolding u by (rule align_props(6)) (rule aligned_start [OF assms(1)])
  then show ?thesis
    using assms size_aligned [OF assms(1)] by (auto simp: addAttributeBytes_def Let_def align_props(4) u NLMSG_LENGTH_def)
qed

text \<open>A request whose attributes end 2041 bytes into the buffer, and one more of three bytes.\<close>

lemma addAttribute_overflow_iff_witness:
  "addAttributeBytes 3 [1, 2, 3] ((emptyMessage 8)\<lparr>msg_len := 16 + 8 + 2041\<rparr>) = Inl UndefinedBehaviour"
  by (subst addAttribute_overflow_iff)
    (simp_all add: emptyMessage_def NLMSG_LENGTH_def sizeof_hdr_def RTA_LENGTH_def RTA_ALIGN_def sizeof_attr_def Let_def)

section \<open>Answers from outside\<close>

lemma attributes_within:
  assumes "int off + len \<le> int (length b)"
  shows "\<exists>ok as. attributesFrom malloc b off len = Inr (ok, as) \<and>
    int (sum_list (map (\<lambda>a. RTA_LENGTH (length (snd a))) as)) \<le> max 0 len"
  using assms
proof (induction malloc b off len rule: attributesFrom.induct)
  case (1 malloc b off len)
  let ?n = "load16 b off"
  show ?case
  proof (cases "len < 4 \<or> ?n < 4 \<or> int ?n > len \<or> \<not> malloc (?n - 4)")
    case True
    then show ?thesis using "1.prems" by (auto simp: attributesFrom.simps [of malloc b off] sizeof_rtattr_def Let_def)
  next
    case False
    have n: "?n \<le> RTA_ALIGN ?n" by (rule align_props(1))
    have inside: "off + ?n \<le> length b" "off + 4 \<le> length b" using False "1.prems" by auto
    have next_in: "int (off + RTA_ALIGN ?n) + (len - int (RTA_ALIGN ?n)) \<le> int (length b)" using "1.prems" by simp
    have "\<exists>ok as. attributesFrom malloc b (off + RTA_ALIGN ?n) (len - int (RTA_ALIGN ?n)) = Inr (ok, as) \<and>
      int (sum_list (map (\<lambda>a. RTA_LENGTH (length (snd a))) as)) \<le> max 0 (len - int (RTA_ALIGN ?n))"
      using "1.IH" [OF _ _ refl _ _ _ refl next_in] False inside by (auto simp: sizeof_rtattr_def)
    then obtain ok as where
      rest: "attributesFrom malloc b (off + RTA_ALIGN ?n) (len - int (RTA_ALIGN ?n)) = Inr (ok, as)"
      and sum: "int (sum_list (map (\<lambda>a. RTA_LENGTH (length (snd a))) as)) \<le> max 0 (len - int (RTA_ALIGN ?n))"
      by blast
    have "attributesFrom malloc b off len =
        Inr (ok, (load16 b (off + 2), take (?n - 4) (drop (off + 4) b)) # as)"
      using False inside rest by (simp add: attributesFrom.simps [of malloc b off] sizeof_rtattr_def Let_def)
    moreover have "RTA_LENGTH (length (take (?n - 4) (drop (off + 4) b))) = ?n"
      using False inside by (simp add: RTA_LENGTH_def)
    ultimately show ?thesis using sum n False by auto
  qed
qed

text \<open>C34: whatever the bytes of an answer are, taking its attributes apart ends and reads no byte outside
  the message, as long as the length in its header is not larger than what was received; with the
  attributes it returns it has not read more than the message has after the payload.\<close>

theorem getAttributes_safe:
  assumes "msg_pay m mod 4 = 0" "msg_len m \<le> length (msg_bytes m)"
  shows "\<exists>ok as. getAttributes malloc m = Inr (ok, as) \<and>
    sum_list (map (\<lambda>a. RTA_LENGTH (length (snd a))) as) \<le> msg_len m - NLMSG_LENGTH (msg_pay m)"
proof -
  have off: "sizeof_hdr + NLMSG_ALIGN (msg_pay m) = NLMSG_LENGTH (msg_pay m)"
    using assms(1) align_props(5) by (simp add: align_props(4) NLMSG_LENGTH_def)
  have "int (NLMSG_LENGTH (msg_pay m)) + (int (msg_len m) - int (NLMSG_LENGTH (msg_pay m))) \<le> int (length (msg_bytes m))"
    using assms(2) by simp
  from attributes_within [OF this, of malloc] show ?thesis
    unfolding getAttributes_def off by force
qed

lemma getAttributes_safe_witness:
  "\<exists>ok as. getAttributes (\<lambda>_. True) \<lparr>msg_pay = 8, msg_len = 30, msg_bytes = replicate 24 0 @ [255, 255, 3, 0, 1, 2]\<rparr> = Inr (ok, as) \<and>
     sum_list (map (\<lambda>a. RTA_LENGTH (length (snd a))) as) \<le> 30 - NLMSG_LENGTH 8"
  using getAttributes_safe [of "\<lparr>msg_pay = 8, msg_len = 30, msg_bytes = replicate 24 0 @ [255, 255, 3, 0, 1, 2]\<rparr>" "\<lambda>_. True"]
  by simp


section \<open>The requests of the other theory\<close>

text \<open>There a request keeps its attributes as a list; accepting one and the new length are the same.\<close>

lemma createMessage_length:
  "\<exists>r x'. createMessage type flags payload x = (Inr r, x') \<and>
     nlmsg_len r = msg_len (emptyMessage (sizeof_pay payload)) \<and> pay r = payload"
  by (simp add: createMessage_def emptyMessage_def bnd_def getm_def seq_def updm_def ret_def split_beta)

lemma addAttribute_same_answer:
  assumes "msg_len m = nlmsg_len r" "msg_pay m = sizeof_pay (pay r)" "addAttributeBytes type data m = Inr (ok, m')"
  shows "fst (addAttribute type (length data) v r) = ok" "nlmsg_len (snd (addAttribute type (length data) v r)) = msg_len m'"
  using assms by (auto simp: addAttribute_def addAttributeBytes_def Let_def split: if_splits)

end
