(* ===== verification/NetworkGateway.thy ===== *)
theory NetworkGateway
  imports Netlink ContainerInterface
begin

text \<open>
  The network gateway of \<open>gateway/network\<close>: the address it gives a container, the parser of its
  rules, the iptables commands they become and the activation. \<open>Kh\<close> is the kernel as the host
  process sees it, \<open>Kc\<close> as a process in the network namespace of the container does; code that runs
  in a \<open>FunctionJob\<close> goes through \<open>ci_runJob\<close>.
\<close>

section \<open>NetworkGatewayFunctions\<close>

text \<open>The message of the first exception is formed by adding the netmask to the address of a string
  literal of 25 bytes, so a netmask of 32 or more is outside of it.\<close>

definition generateIP :: "(string \<Rightarrow> 32 word option) \<Rightarrow> 32 word \<Rightarrow> string \<Rightarrow> int \<Rightarrow> exn + 32 word" where
  "generateIP pton netmask gatewayIP containerID =
     (if netmask > 31 then Inl UndefinedBehaviour
      else if netmask < 1 then Inl IPAllocationError
      else let maskBits = push_bit (32 - unat netmask) 1 - 1 :: 32 word in
        case pton gatewayIP of
          None \<Rightarrow> Inl IPAllocationError
        | Some address \<Rightarrow>
            let internetAddress = ntohl address in
            if (internetAddress OR maskBits) < internetAddress + word_of_int containerID + 1
            then Inl IPAllocationError
            else Inr (htonl (internetAddress + (word_of_int containerID + 1))))"

section \<open>IPTableEntry\<close>

datatype Target = INVALID_TARGET | ACCEPT | DROP | REJECT

record portFilter =
  pf_any :: bool
  pf_multiport :: bool
  pf_ports :: string

record Rule =
  host :: string
  protocols :: "string list"
  rule_ports :: portFilter
  target :: Target

record IPTableEntry =
  m_type :: string
  m_rules :: "Rule list"
  m_defaultTarget :: Target

definition newPortFilter :: portFilter where
  "newPortFilter = \<lparr>pf_any = False, pf_multiport = False, pf_ports = ''''\<rparr>"

definition newEntry :: IPTableEntry where
  "newEntry = \<lparr>m_type = '''', m_rules = [], m_defaultTarget = DROP\<rparr>"

fun convertTarget :: "Target \<Rightarrow> string" where
  "convertTarget ACCEPT = ''ACCEPT''"
| "convertTarget DROP = ''DROP''"
| "convertTarget REJECT = ''REJECT''"
| "convertTarget INVALID_TARGET = ''INVALID''"

definition hostPart :: "string \<Rightarrow> Rule \<Rightarrow> string" where
  "hostPart type rule =
     (if host rule \<noteq> '''' \<and> host rule \<noteq> ''*''
      then (if type = ''INPUT'' then '' -s '' else '' -d '') @ host rule else '''')"

definition interpretRuleWithProtocol :: "string \<Rightarrow> Rule \<Rightarrow> string \<Rightarrow> string" where
  "interpretRuleWithProtocol type rule protocol =
     ''iptables -A '' @ type @ hostPart type rule @
     (if pf_any (rule_ports rule)
      then (if pf_multiport (rule_ports rule)
            then '' -p '' @ protocol @ '' --match multiport '' @
                 (if type = ''INPUT'' then ''--sports '' else ''--dports '') @ pf_ports (rule_ports rule)
            else '' -p '' @ protocol @ '' '' @
                 (if type = ''INPUT'' then ''--sport '' else ''--dport '') @ pf_ports (rule_ports rule))
      else '' -p '' @ protocol) @
     '' -j '' @ convertTarget (target rule)"

definition interpretRule :: "string \<Rightarrow> Rule \<Rightarrow> string" where
  "interpretRule type rule =
     ''iptables -A '' @ type @ hostPart type rule @
     (if pf_any (rule_ports rule)
      then (if pf_multiport (rule_ports rule)
            then '' -p all --match multiport '' @
                 (if type = ''INPUT'' then ''--sports '' else ''--dports '') @ pf_ports (rule_ports rule)
            else '' -p tcp '' @
                 (if type = ''INPUT'' then ''--sport '' else ''--dport '') @ pf_ports (rule_ports rule))
      else '''') @
     '' -j '' @ convertTarget (target rule)"

definition interpretPolicy :: "IPTableEntry \<Rightarrow> string" where
  "interpretPolicy e =
     (if m_defaultTarget e \<noteq> ACCEPT \<and> m_defaultTarget e \<noteq> DROP then ''''
      else ''iptables -P '' @ m_type e @ '' '' @ convertTarget (m_defaultTarget e))"

text \<open>The call answers 0 where Glib has spawned the command and another value where it throws; the exit
  status of the command is not looked at.\<close>

definition insertCommand :: "'c container_if \<Rightarrow> string \<Rightarrow> ('c, bool) act" where
  "insertCommand C command = bnd (ci_call C (Proc (SpawnLine command))) (\<lambda>r. ret (r = 0))"

definition applyRule :: "'c container_if \<Rightarrow> string \<Rightarrow> Rule \<Rightarrow> ('c, bool) act" where
  "applyRule C type rule =
     (if protocols rule \<noteq> []
      then all_ok (\<lambda>proto. insertCommand C (interpretRuleWithProtocol type rule proto)) (protocols rule)
      else insertCommand C (interpretRule type rule))"

definition applyRules :: "'c container_if \<Rightarrow> IPTableEntry \<Rightarrow> ('c, bool) act" where
  "applyRules C e = andThen (all_ok (applyRule C (m_type e)) (m_rules e)) (insertCommand C (interpretPolicy e))"

section \<open>NetworkGatewayParser\<close>

definition isProtocolValid :: "string \<Rightarrow> bool" where
  "isProtocolValid protocol \<longleftrightarrow> protocol = ''tcp'' \<or> protocol = ''udp'' \<or> protocol = ''icmp''"

fun portList :: "json list \<Rightarrow> string option" where
  "portList [] = Some ''''"
| "portList (JInteger port # js) = map_option (\<lambda>rest. to_string (to_int32 port) @ '','' @ rest) (portList js)"
| "portList (_ # js) = None"

definition parsePort :: "json \<Rightarrow> portFilter \<Rightarrow> exn + (bool \<times> portFilter)" where
  "parsePort element ports = (case element of
      JInteger port \<Rightarrow> Inr (True, \<lparr>pf_any = True, pf_multiport = False, pf_ports = to_string port\<rparr>)
    | JString portRange \<Rightarrow> Inr (True, \<lparr>pf_any = True, pf_multiport = True, pf_ports = portRange\<rparr>)
    | JArray vals \<Rightarrow> (case portList vals of
          None \<Rightarrow> Inr (False, ports)
        | Some text \<Rightarrow>
            if text = [] then Inl UndefinedBehaviour
            else Inr (True, \<lparr>pf_any = True, pf_multiport = True, pf_ports = butlast text\<rparr>))
    | _ \<Rightarrow> Inr (False, ports))"

fun addProtocols :: "json list \<Rightarrow> string list \<Rightarrow> bool \<times> string list" where
  "addProtocols [] proto = (True, proto)"
| "addProtocols (JString protocol # js) proto =
     (if \<not> isProtocolValid protocol then (False, proto) else addProtocols js (proto @ [protocol]))"
| "addProtocols (_ # js) proto = (False, proto)"

definition parseProtocol :: "json \<Rightarrow> string list \<Rightarrow> bool \<times> string list" where
  "parseProtocol element proto = (case element of
      JString protocol \<Rightarrow> if \<not> isProtocolValid protocol then (False, proto) else (True, proto @ [protocol])
    | JArray vals \<Rightarrow> addProtocols vals proto
    | _ \<Rightarrow> (False, proto))"

text \<open>\<open>parseRule\<close> does not look at what the two parsers return.\<close>

definition parseRule :: "json \<Rightarrow> Rule list \<Rightarrow> exn + (bool \<times> Rule list)" where
  "parseRule element rules =
     (let r = \<lparr>host = '''', protocols = [], rule_ports = newPortFilter, target = ACCEPT\<rparr>;
          (ok, h) = readString element ''host'' (host r); r = r\<lparr>host := h\<rparr> in
      if \<not> ok then Inr (False, rules) else
      case (case json_object_get element ''ports'' of
              None \<Rightarrow> Inr (True, rule_ports r) | Some ports \<Rightarrow> parsePort ports (rule_ports r)) of
        Inl x \<Rightarrow> Inl x
      | Inr (_, ports) \<Rightarrow>
          let r = r\<lparr>rule_ports := ports\<rparr>;
              r = r\<lparr>protocols := (case json_object_get element ''protocols'' of
                     None \<Rightarrow> protocols r | Some protocs \<Rightarrow> snd (parseProtocol protocs (protocols r)))\<rparr>
          in Inr (True, rules @ [r]))"

fun parseRules :: "json list \<Rightarrow> Rule list \<Rightarrow> exn + (bool \<times> Rule list)" where
  "parseRules [] rules = Inr (True, rules)"
| "parseRules (val # vals) rules =
     (if json_is_object val then
        (case parseRule val rules of
           Inl x \<Rightarrow> Inl x
         | Inr (ok, rules') \<Rightarrow> if \<not> ok then Inr (False, rules') else parseRules vals rules')
      else Inr (False, rules))"

definition parseNetworkGatewayConfiguration :: "json \<Rightarrow> IPTableEntry \<Rightarrow> exn + (bool \<times> IPTableEntry)" where
  "parseNetworkGatewayConfiguration element e =
     (let (ok, chain) = readString element ''direction'' '''' in
      if \<not> ok then Inr (False, e) else
      let e = e\<lparr>m_defaultTarget := DROP\<rparr> in
      if chain \<noteq> ''INCOMING'' \<and> chain \<noteq> ''OUTGOING'' then Inr (False, e) else
      let e = e\<lparr>m_type := (if chain = ''INCOMING'' then ''INPUT'' else ''OUTPUT'')\<rparr> in
      case json_object_get element ''allow'' of
        None \<Rightarrow> Inr (False, e)
      | Some rules \<Rightarrow>
          if \<not> json_is_array rules then Inr (False, e)
          else (case parseRules (json_elements rules) (m_rules e) of
              Inl x \<Rightarrow> Inl x
            | Inr (ok, rs) \<Rightarrow> Inr (ok, e\<lparr>m_rules := rs\<rparr>)))"

section \<open>NetworkGateway\<close>

record network_gateway = gateway +
  m_ip :: "32 word"
  m_netmask :: "32 word"
  m_gateway :: string
  m_bridgeDevice :: string
  m_entries :: "IPTableEntry list"
  m_interfaceInitialized :: bool
  m_containerID :: int
  m_netlinkHost :: netlink

definition FAILURE :: int where "FAILURE = -1"
definition SUCCESS :: int where "SUCCESS = 0"
definition NO_LINK :: int where "NO_LINK = 1"
definition BAD_LINKUP :: int where "BAD_LINKUP = 2"
definition BAD_LINKDOWN :: int where "BAD_LINKDOWN = 3"
definition BAD_SETIP :: int where "BAD_SETIP = 3"

lemmas code_defs = FAILURE_def SUCCESS_def NO_LINK_def BAD_LINKUP_def BAD_LINKDOWN_def BAD_SETIP_def

text \<open>The constructor; the socket to the kernel is opened by the member \<open>m_netlinkHost\<close>.\<close>

definition newNetworkGateway :: "'c kernel_if \<Rightarrow> nat \<Rightarrow> int \<Rightarrow> string \<Rightarrow> string \<Rightarrow> 8 word \<Rightarrow>
    ('c, network_gateway) act" where
  "newNetworkGateway Kh fuel cid bridgeDevice gateway maskBits w =
     (case constructNetlink Kh fuel (emptyNetlink, w) of
        (Inl x, (_, w')) \<Rightarrow> (Inl x, w')
      | (Inr _, (n, w')) \<Rightarrow> (Inr (gateway.extend (newGateway ''network'' False)
          (network_gateway.fields 0 (ucast maskBits) gateway bridgeDevice [] False cid n)), w'))"

definition net_readConfigElement :: "json \<Rightarrow> (network_gateway, 'w, bool) meth" where
  "net_readConfigElement element = (case parseNetworkGatewayConfiguration element newEntry of
      Inl x \<Rightarrow> throw x
    | Inr (ok, e) \<Rightarrow>
        if ok then seq (updm (\<lambda>g. g\<lparr>m_entries := m_entries g @ [e]\<rparr>)) (ret True) else ret False)"

text \<open>A job that works with a \<open>Netlink\<close> object of its own.\<close>

definition withNetlink :: "'c kernel_if \<Rightarrow> nat \<Rightarrow> (netlink, 'c, int) meth \<Rightarrow> ('c, int) act" where
  "withNetlink K fuel body c = (case seq (constructNetlink K fuel) body (emptyNetlink, c) of
     (r, (_, c')) \<Rightarrow> (r, c'))"

definition setDefaultGatewayJob :: "'c container_if \<Rightarrow> 'c kernel_if \<Rightarrow> nat \<Rightarrow> (network_gateway, 'c, bool) meth" where
  "setDefaultGatewayJob C Kc fuel = bnd (getm m_gateway) (\<lambda>gateway.
     bnd (ext (ci_runJob C (withNetlink Kc fuel
            (bnd (setDefaultGateway Kc fuel gateway) (\<lambda>ok. ret (if ok then SUCCESS else FAILURE))))))
       (\<lambda>status. ret (status = 0)))"

definition bringUpEthernet :: "'c kernel_if \<Rightarrow> nat \<Rightarrow> 32 word \<Rightarrow> 32 word \<Rightarrow> (netlink, 'c, int) meth" where
  "bringUpEthernet Kc fuel ip netmask = bnd (findLink Kc fuel ''eth0'') (\<lambda>iface. case iface of
       None \<Rightarrow> ret NO_LINK
     | Some l \<Rightarrow> bnd (linkUp Kc fuel (ifi_index l)) (\<lambda>ok.
         if \<not> ok then ret BAD_LINKUP
         else bnd (setIP Kc fuel (ifi_index l) ip (ucast netmask)) (\<lambda>ok.
           if \<not> ok then ret BAD_SETIP else ret SUCCESS)))"

definition network_up :: "'c container_if \<Rightarrow> 'c kernel_if \<Rightarrow> nat \<Rightarrow> (network_gateway, 'c, bool) meth" where
  "network_up C Kc fuel = bnd (getm (\<lambda>g. g)) (\<lambda>g.
     if m_interfaceInitialized g then ret True
     else bnd (ext (ci_runJob C (withNetlink Kc fuel (bringUpEthernet Kc fuel (m_ip g) (m_netmask g)))))
       (\<lambda>returnCode.
         if returnCode = SUCCESS
         then seq (updm (m_interfaceInitialized_update (\<lambda>_. True))) (setDefaultGatewayJob C Kc fuel)
         else ret False))"

definition network_down :: "'c container_if \<Rightarrow> 'c kernel_if \<Rightarrow> nat \<Rightarrow> (network_gateway, 'c, bool) meth" where
  "network_down C Kc fuel =
     bnd (ext (ci_runJob C (withNetlink Kc fuel
            (bnd (findLink Kc fuel ''eth0'') (\<lambda>iface. case iface of
               None \<Rightarrow> ret NO_LINK
             | Some l \<Rightarrow> bnd (linkDown Kc fuel (ifi_index l)) (\<lambda>ok.
                 if \<not> ok then ret BAD_LINKDOWN else ret SUCCESS))))))
       (\<lambda>returnCode. ret (returnCode = SUCCESS))"

text \<open>A bridge that is not found leaves a link whose index is 0; neither failure ends the function.\<close>

definition isBridgeAvailable :: "'c kernel_if \<Rightarrow> nat \<Rightarrow> (network_gateway, 'c, bool) meth" where
  "isBridgeAvailable Kh fuel = bnd (getm (\<lambda>g. g)) (\<lambda>g.
     on m_netlinkHost (\<lambda>n g. g\<lparr>m_netlinkHost := n\<rparr>)
       (bnd (findLink Kh fuel (m_bridgeDevice g)) (\<lambda>iface.
         let index = (case iface of None \<Rightarrow> 0 | Some l \<Rightarrow> nat (ifi_index l)) in
         bnd (findAddresses Kh fuel index) (\<lambda>(_, addresses).
           ret (hasAddress Kh addresses (m_gateway g))))))"

definition net_activateGateway :: "'c container_if \<Rightarrow> 'c kernel_if \<Rightarrow> 'c kernel_if \<Rightarrow> nat \<Rightarrow> (network_gateway, 'c, bool) meth" where
  "net_activateGateway C Kh Kc fuel = bnd (getm (\<lambda>g. g)) (\<lambda>g.
     if m_gateway g = [] then ret True
     else andThen (isBridgeAvailable Kh fuel)
       (case generateIP (inet_pton Kh) (m_netmask g) (m_gateway g) (m_containerID g) of
          Inl x \<Rightarrow> if x = IPAllocationError then ret False else throw x
        | Inr ip \<Rightarrow> seq (updm (m_ip_update (\<lambda>_. ip)))
            (andThen (network_up C Kc fuel)
              (all_ok (\<lambda>entry.
                 bnd (ext (ci_runJob C (bnd (applyRules C entry) (\<lambda>ok. ret (if ok then SUCCESS else FAILURE)))))
                   (\<lambda>status. ret (status = 0))) (m_entries g)))))"

definition net_teardownGateway :: "(network_gateway, 'c, bool) meth" where
  "net_teardownGateway = ret True"

section \<open>Lemmas\<close>

subsection \<open>Addresses\<close>

lemma mask_push: "push_bit k 1 - 1 = (mask k :: 32 word)"
  by (simp only: mask_eq_exp_minus_1 push_bit_of_1)

lemma drop_bit_or_mask: "drop_bit k (a OR mask k) = drop_bit k (a :: 32 word)"
  by (rule bit_word_eqI) (simp add: bit_simps)

lemma drop_bit_mono: "(a :: 32 word) \<le> b \<Longrightarrow> drop_bit k a \<le> drop_bit k b"
  unfolding word_le_nat_alt unat_drop_bit_eq by (simp add: drop_bit_nat_def div_le_mono)

lemma same_subnet:
  assumes "(a :: 32 word) \<le> b" "b \<le> a OR mask k"
  shows "drop_bit k b = drop_bit k a"
  using drop_bit_mono [OF assms(1), of k] drop_bit_mono [OF assms(2), of k] unfolding drop_bit_or_mask by (rule antisym [rotated])

lemma no_wrap:
  assumes "0 \<le> i" "uint (a :: 32 word) + i + 1 < 2 ^ 32"
  shows "uint (a + word_of_int i + 1) = uint a + i + 1" "a + word_of_int i + 1 = word_of_int (uint a + i + 1)"
proof -
  show eq: "a + word_of_int i + 1 = word_of_int (uint a + i + 1)" by simp
  have "uint (a + word_of_int i + 1) = (uint a + i + 1) mod 2 ^ 32"
    by (simp only: eq uint_word_of_int len_eq)
  also have "\<dots> = uint a + i + 1" using assms by (intro mod_pos_pos_trivial) simp_all
  finally show "uint (a + word_of_int i + 1) = uint a + i + 1" .
qed

lemma generateIP_value:
  assumes "pton g = Some a" "1 \<le> nm" "nm \<le> 31"
  shows "generateIP pton nm g i =
    (if (ntohl a OR mask (32 - unat nm)) < ntohl a + word_of_int i + 1 then Inl IPAllocationError
     else Inr (htonl (ntohl a + word_of_int i + 1)))"
proof -
  have "nm \<noteq> 0" using assms(2) by auto
  then have "\<not> 31 < nm" "\<not> nm < 1" using assms(3) by (simp_all add: not_less)
  moreover have "ntohl a + (word_of_int i + 1) = ntohl a + word_of_int i + 1" by (simp add: add.assoc)
  ultimately show ?thesis using assms(1) by (simp only: generateIP_def mask_push Let_def option.case if_False)
qed

subsection \<open>Rules and commands\<close>

definition ruleCommands :: "string \<Rightarrow> Rule \<Rightarrow> string list" where
  "ruleCommands type rule = (if protocols rule = [] then [interpretRule type rule]
     else map (interpretRuleWithProtocol type rule) (protocols rule))"

definition commands :: "IPTableEntry \<Rightarrow> string list" where
  "commands e = concat (map (ruleCommands (m_type e)) (m_rules e)) @ [interpretPolicy e]"

lemma insert_recorder:
  "insertCommand recorder cmd log = (Inr True, log @ [Called (Proc (SpawnLine cmd))])"
  by (simp add: insertCommand_def recorder_def act_defs)

lemma all_ok_log:
  assumes "\<And>x log. f x log = (Inr True, log @ g x)"
  shows "all_ok f xs log = (Inr True, log @ concat (map g xs))"
  by (induction xs arbitrary: log) (simp_all add: assms andThen_True ret_def)

lemma applyRule_recorder:
  "applyRule recorder type rule log =
    (Inr True, log @ map (\<lambda>cmd. Called (Proc (SpawnLine cmd))) (ruleCommands type rule))"
proof -
  have "all_ok (\<lambda>proto. insertCommand recorder (interpretRuleWithProtocol type rule proto)) ps log =
    (Inr True, log @ map (\<lambda>cmd. Called (Proc (SpawnLine cmd))) (map (interpretRuleWithProtocol type rule) ps))" for ps
    using all_ok_log [of "\<lambda>proto. insertCommand recorder (interpretRuleWithProtocol type rule proto)"
        "\<lambda>proto. [Called (Proc (SpawnLine (interpretRuleWithProtocol type rule proto)))]", OF insert_recorder]
    by (simp add: comp_def)
  then show ?thesis by (simp add: applyRule_def ruleCommands_def insert_recorder)
qed

text \<open>White-listing: what an entry may hold.\<close>

definition rules_ok :: "Rule list \<Rightarrow> bool" where
  "rules_ok rules \<longleftrightarrow> (\<forall>r \<in> set rules. target r = ACCEPT \<and> (\<forall>p \<in> set (protocols r). isProtocolValid p))"

definition whitelisting :: "IPTableEntry \<Rightarrow> bool" where
  "whitelisting e \<longleftrightarrow> m_defaultTarget e = DROP \<and> m_type e \<in> {''INPUT'', ''OUTPUT''} \<and>
     rules_ok (m_rules e)"

lemma addProtocols_valid:
  "addProtocols js ps = (ok, qs) \<Longrightarrow> \<forall>p \<in> set ps. isProtocolValid p \<Longrightarrow> \<forall>p \<in> set qs. isProtocolValid p"
  by (induction js ps rule: addProtocols.induct) (auto split: if_splits)

lemma parseProtocol_valid: "\<forall>p \<in> set (snd (parseProtocol j [])). isProtocolValid p"
  using addProtocols_valid [of _ "[]"] by (auto simp: parseProtocol_def split: json.splits) (metis empty_iff list.set(1) prod.collapse)+

lemma parseRule_valid:
  assumes "parseRule e rules = Inr (ok, rules')"
    and "rules_ok rules"
  shows "rules_ok rules'"
  using assms parseProtocol_valid unfolding parseRule_def rules_ok_def
  by (auto simp: Let_def split: prod.splits sum.splits option.splits if_splits)

lemma parseRules_valid:
  "parseRules vals rules = Inr (ok, rules') \<Longrightarrow> rules_ok rules \<Longrightarrow> rules_ok rules'"
proof (induction vals arbitrary: rules)
  case (Cons val vals)
  show ?case
  proof (cases "parseRule val rules")
    case (Inr q)
    obtain o1 r1 where q: "q = (o1, r1)" by (cases q)
    have "rules_ok r1" using parseRule_valid [of val rules o1 r1] Inr q Cons.prems(2) by simp
    then show ?thesis using Cons.prems Cons.IH [of r1] by (auto simp: Inr q split: if_splits)
  qed (use Cons.prems in \<open>auto split: if_splits\<close>)
qed simp

lemma parse_whitelisting:
  assumes "parseNetworkGatewayConfiguration e newEntry = Inr (True, en)"
  shows "whitelisting en"
  using assms parseRules_valid [of _ "[]"] rules_ok_def [of "[]"] unfolding parseNetworkGatewayConfiguration_def newEntry_def
  by (fastforce simp: Let_def whitelisting_def split: prod.splits sum.splits option.splits if_splits)

lemma keeps_net_read:
  assumes "\<And>g w en. I (g, w) \<Longrightarrow> whitelisting en \<Longrightarrow> I (g\<lparr>m_entries := m_entries g @ [en]\<rparr>, w)"
  shows "keeps I (net_readConfigElement e)"
proof (cases "parseNetworkGatewayConfiguration e newEntry")
  case (Inl x)
  then show ?thesis by (simp add: net_readConfigElement_def keeps_throw)
next
  case (Inr p)
  obtain ok en where p: "p = (ok, en)" by (cases p)
  show ?thesis
    using parse_whitelisting [of e en] Inr assms unfolding net_readConfigElement_def p
    by (auto simp: p intro!: keeps_seq keeps_ret keeps_updm)
qed

lemma keeps_net_activate:
  fixes I :: "network_gateway \<times> 'c \<Rightarrow> bool"
  assumes "\<And>g w w'. I (g, w) \<Longrightarrow> I (g, w')" "\<And>g w ip. I (g, w) \<Longrightarrow> I (g\<lparr>m_ip := ip\<rparr>, w)"
    and "\<And>g w n. I (g, w) \<Longrightarrow> I (g\<lparr>m_netlinkHost := n\<rparr>, w)"
    and "\<And>g w. I (g, w) \<Longrightarrow> I (g\<lparr>m_interfaceInitialized := True\<rparr>, w)"
  shows "keeps I (net_activateGateway C Kh Kc fuel)"
proof -
  have host: "keeps I (on m_netlinkHost (\<lambda>n g. g\<lparr>m_netlinkHost := n\<rparr>) m)" for m :: "(netlink, 'c, bool) meth"
  proof (rule keepsI)
    fix s assume "I s"
    obtain g w where s: "s = (g, w)" by force
    obtain r n v where run: "m (m_netlinkHost g, w) = (r, (n, v))" by (rule run_exists)
    show "I (snd (on m_netlinkHost (\<lambda>n g. g\<lparr>m_netlinkHost := n\<rparr>) m s))"
      using assms(1) [of g w v] assms(3) [of g v n] \<open>I s\<close> by (simp add: on_def s run)
  qed
  have bridge: "keeps I (isBridgeAvailable Kh fuel)"
    unfolding isBridgeAvailable_def by (intro keeps_bnd keeps_getm host)
  have ext: "keeps I (ext m)" for m :: "('c, int) act" by (rule keeps_ext) (rule assms(1))
  have gw: "keeps I (setDefaultGatewayJob C Kc fuel)"
    unfolding setDefaultGatewayJob_def by (intro keeps_bnd keeps_getm keeps_ret ext)
  have up: "keeps I (network_up C Kc fuel)"
    unfolding network_up_def
    by (intro keeps_bnd keeps_getm keeps_ret keeps_if keeps_seq ext gw keeps_updm) (rule assms(4))
  have ip: "keeps I (updm (m_ip_update (\<lambda>_. ip)))" for ip
    by (rule keeps_updm) (rule assms(2))
  have rest: "keeps I (seq (updm (m_ip_update (\<lambda>_. ip))) (andThen (network_up C Kc fuel)
      (all_ok (\<lambda>entry. bnd (ext (job entry)) (\<lambda>status. ret (status = 0))) entries)))"
    for ip entries and job :: "IPTableEntry \<Rightarrow> ('c, int) act"
    by (intro keeps_seq keeps_andThen keeps_all_ok keeps_bnd keeps_ret ip up ext)
  have alloc: "keeps I (case generateIP p nm gw i of
      Inl x \<Rightarrow> if x = IPAllocationError then ret False else throw x
    | Inr ip \<Rightarrow> seq (updm (m_ip_update (\<lambda>_. ip))) (andThen (network_up C Kc fuel)
      (all_ok (\<lambda>entry. bnd (ext (job entry)) (\<lambda>status. ret (status = 0))) entries)))"
    for p nm gw i entries and job :: "IPTableEntry \<Rightarrow> ('c, int) act"
    using rest by (cases "generateIP p nm gw i") (simp_all add: keeps_ret keeps_throw)
  show ?thesis
    unfolding net_activateGateway_def
    by (intro keeps_bnd keeps_getm keeps_if keeps_ret keeps_andThen bridge alloc)
qed

interpretation net: gateway_virtuals net_readConfigElement "net_activateGateway C Kh Kc fuel" net_teardownGateway
  by unfold_locales
    (auto intro!: keeps_net_read keeps_net_activate keeps_ret simp: base_part_def net_teardownGateway_def)

definition exampleNetworkGateway :: network_gateway where
  "exampleNetworkGateway = gateway.extend (newGateway ''network'' False)
     (network_gateway.fields 0 24 ''10.0.3.1'' ''br0'' [] False 0 emptyNetlink)"

text \<open>A kernel without sockets.\<close>

definition no_kernel :: "'c kernel_if" where
  "no_kernel = \<lparr>k_socket = (\<lambda>c. (Inr (-1), c)), k_bind = (\<lambda>c. (Inr (-1), c)), k_sendmsg = (\<lambda>_ c. (Inr (-1), c)),
     k_recvmsg = (\<lambda>c. (Inr (-1, []), c)), inet_aton = (\<lambda>_. None), inet_pton = (\<lambda>_. None), inet_ntop = (\<lambda>_. None)\<rparr>"

section \<open>Properties\<close>

text \<open>C24: The address a container gets: for a container ID that does not run past the end of the 32-bit
  range, the gateway's address plus the ID plus 1 where that is in the subnet of the gateway, and an
  allocation error otherwise; an address that is given out lies in that subnet.\<close>

theorem generated_ip_in_subnet:
  assumes "pton gw = Some a" "1 \<le> nm" "nm \<le> 31" "0 \<le> i" "uint (ntohl a) + i + 1 < 2 ^ 32"
  shows "if uint (ntohl a) + i + 1 \<le> uint (ntohl a OR mask (32 - unat nm))
    then \<exists>ip. generateIP pton nm gw i = Inr ip \<and> uint (ntohl ip) = uint (ntohl a) + i + 1 \<and>
      drop_bit (32 - unat nm) (ntohl ip) = drop_bit (32 - unat nm) (ntohl a)
    else generateIP pton nm gw i = Inl IPAllocationError"
proof -
  let ?a = "ntohl a" and ?ip = "ntohl a + word_of_int i + 1"
  note val = no_wrap [OF assms(4,5)]
  have "\<not> (?a OR mask (32 - unat nm)) < ?ip \<longleftrightarrow> uint ?a + i + 1 \<le> uint (?a OR mask (32 - unat nm))"
    by (simp only: word_less_def val(1) not_less)
  moreover have "drop_bit (32 - unat nm) ?ip = drop_bit (32 - unat nm) ?a"
    if "uint ?a + i + 1 \<le> uint (?a OR mask (32 - unat nm))"
  proof (rule same_subnet)
    show "?a \<le> ?ip" "?ip \<le> ?a OR mask (32 - unat nm)"
      using assms(4) that by (simp_all only: word_le_def val(1))
  qed
  ultimately show ?thesis
    using generateIP_value [of pton gw a nm i] assms(1-3) val(1) by auto
qed

theorem generated_ip_in_subnet_witness:
  "generateIP (\<lambda>_. Some (htonl 0x0A000301)) 24 ''10.0.3.1'' 253 = Inr (htonl 0x0A0003FF) \<and>
   generateIP (\<lambda>_. Some (htonl 0x0A000301)) 24 ''10.0.3.1'' 254 = Inl IPAllocationError"
proof -
  have m: "(0x0A000301 :: 32 word) OR mask 8 = 0x0A0003FF" by (simp add: mask_eq_exp_minus_1)
  from generated_ip_in_subnet [of "\<lambda>_. Some (htonl 0x0A000301)" "''10.0.3.1''" "htonl 0x0A000301" 24 253]
  obtain ip where ip: "generateIP (\<lambda>_. Some (htonl 0x0A000301)) 24 ''10.0.3.1'' 253 = Inr ip"
    and "uint (ntohl ip) = 0x0A0003FF"
    by (auto simp: m)
  then have "ntohl ip = 0x0A0003FF" by (simp add: word_uint_eq_iff)
  then have "ip = htonl 0x0A0003FF" by (metis ntohl_htonl(2))
  with ip have "generateIP (\<lambda>_. Some (htonl 0x0A000301)) 24 ''10.0.3.1'' 253 = Inr (htonl 0x0A0003FF)" by simp
  moreover have "generateIP (\<lambda>_. Some (htonl 0x0A000301)) 24 ''10.0.3.1'' 254 = Inl IPAllocationError"
    using generated_ip_in_subnet [of "\<lambda>_. Some (htonl 0x0A000301)" "''10.0.3.1''" "htonl 0x0A000301" 24 254]
    by (simp add: m)
  ultimately show ?thesis by simp
qed

text \<open>Two containers never get the same address, whatever the gateway and the netmask.\<close>

theorem generated_ips_distinct:
  assumes "0 \<le> i" "i < 2 ^ 31" "0 \<le> j" "j < 2 ^ 31" "i \<noteq> j"
    and "generateIP pton nm gw i = Inr ip" "generateIP pton nm gw j = Inr ip'"
  shows "ip \<noteq> ip'"
proof
  assume eq: "ip = ip'"
  obtain a where "ip = htonl (ntohl a + (word_of_int i + 1))" "ip' = htonl (ntohl a + (word_of_int j + 1))"
    using assms(6,7) by (auto simp: generateIP_def Let_def split: if_splits option.splits)
  with eq have "ntohl a + (word_of_int i + 1) = ntohl a + (word_of_int j + 1)" by (metis htonl_htonl)
  then have "uint (word_of_int i :: 32 word) = uint (word_of_int j :: 32 word)" by simp
  then have "i mod 2 ^ 32 = j mod 2 ^ 32" by (simp only: uint_word_of_int len_eq)
  with assms(1-5) show False by simp
qed

theorem generated_ips_distinct_witness:
  "generateIP (\<lambda>_. Some (htonl 0x0A000301)) 24 ''10.0.3.1'' 0 \<noteq> generateIP (\<lambda>_. Some (htonl 0x0A000301)) 24 ''10.0.3.1'' 1"
proof -
  have "generateIP (\<lambda>_. Some (htonl 0x0A000301)) 24 ''10.0.3.1'' i = Inr (htonl (0x0A000301 + (word_of_int i + 1)))"
    if "i = 0 \<or> i = 1" for i
    using that by (auto simp: generateIP_def Let_def mask_eq_exp_minus_1)
  with generated_ips_distinct [of 0 1 "\<lambda>_. Some (htonl 0x0A000301)" 24 "''10.0.3.1''"] show ?thesis by auto
qed



text \<open>C13: In every run from a gateway without entries the entries on record only white-list: the policy
  is DROP, the chain is INPUT or OUTPUT, every rule accepts, and for one of the valid protocols where
  it names any; applying such an entry runs its rules in order and sets the policy last.\<close>

theorem network_entries_whitelist:
  assumes "(gateway_step net_readConfigElement (net_activateGateway C Kh Kc fuel) net_teardownGateway)\<^sup>*\<^sup>* (g, w) (h, v)"
    and "m_entries g = []" "e \<in> set (m_entries h)"
  shows "whitelisting e \<and>
    applyRules recorder e log = (Inr True, log @ map (\<lambda>cmd. Called (Proc (SpawnLine cmd)))
      (concat (map (ruleCommands (m_type e)) (m_rules e)) @ [''iptables -P '' @ m_type e @ '' DROP'']))"
proof -
  let ?I = "\<lambda>(h :: network_gateway, w :: 'a). \<forall>e \<in> set (m_entries h). whitelisting e"
  have "?I (h, v)"
  proof (rule gateway_run_invariant [OF assms(1), where I = ?I])
    show "keeps ?I (net_readConfigElement e)" for e by (rule keeps_net_read) auto
    show "keeps ?I (net_activateGateway C Kh Kc fuel)" by (rule keeps_net_activate) auto
  qed (auto simp: assms(2) net_teardownGateway_def intro: keeps_ret)
  with assms(3) have wl: "whitelisting e" by simp
  have "all_ok (applyRule recorder (m_type e)) (m_rules e) log = (Inr True,
      log @ concat (map (\<lambda>r. map (\<lambda>cmd. Called (Proc (SpawnLine cmd))) (ruleCommands (m_type e) r)) (m_rules e)))"
    by (rule all_ok_log) (rule applyRule_recorder)
  then have "applyRules recorder e log = (Inr True, log @ map (\<lambda>cmd. Called (Proc (SpawnLine cmd)))
      (concat (map (ruleCommands (m_type e)) (m_rules e)) @ [interpretPolicy e]))"
    by (simp add: applyRules_def andThen_run insert_recorder map_concat comp_def)
  with wl show ?thesis by (simp add: interpretPolicy_def whitelisting_def)
qed

theorem network_entries_whitelist_witness:
  "let (r, h, v) = setConfig net_readConfigElement (JArray [JObject [(''direction'', JString ''OUTGOING''),
       (''allow'', JArray [JObject [(''host'', JString ''*''), (''ports'', JInteger 80), (''protocols'', JString ''tcp'')]])]])
       (exampleNetworkGateway, [] :: request list)
   in \<forall>e \<in> set (m_entries h). whitelisting e"
proof -
  let ?j = "JArray [JObject [(''direction'', JString ''OUTGOING''),
       (''allow'', JArray [JObject [(''host'', JString ''*''), (''ports'', JInteger 80), (''protocols'', JString ''tcp'')]])]]"
  obtain r h v where run: "setConfig net_readConfigElement ?j (exampleNetworkGateway, [] :: request list) = (r, (h, v))"
    by (rule run_exists)
  let ?step = "gateway_step net_readConfigElement (net_activateGateway recorder no_kernel no_kernel 0) net_teardownGateway"
  have steps: "?step\<^sup>*\<^sup>* (exampleNetworkGateway, []) (h, v)"
    by (rule r_into_rtranclp) (rule gateway_step.intros(1) [OF run])
  have "m_entries exampleNetworkGateway = []"
    by (simp add: exampleNetworkGateway_def newGateway_def gateway.defs network_gateway.defs)
  then have "\<forall>e \<in> set (m_entries h). whitelisting e"
    using network_entries_whitelist [OF steps] by simp
  then show ?thesis by (simp only: run Let_def prod.case)
qed

end
