(* ===== verification/PulseWayland.thy ===== *)
theory PulseWayland
  imports ContainerInterface
begin

text \<open>
  \<open>PulseGateway\<close> and \<open>WaylandGateway\<close>: each exposes one socket of the host. The Wayland gateway is
  dynamic and declares a member \<open>m_activatedOnce\<close> of its own that hides the one of the base class,
  here \<open>w_activatedOnce\<close>.
\<close>

section \<open>PulseGateway\<close>

record pulse_gateway = gateway +
  m_enableAudio :: bool

definition newPulseGateway :: pulse_gateway where
  "newPulseGateway = gateway.extend (newGateway ''pulseaudio'' False) (pulse_gateway.fields False)"

definition pulse_readConfigElement :: "json \<Rightarrow> (pulse_gateway, 'w, bool) meth" where
  "pulse_readConfigElement element =
     (let (ok, configValue) = readBool element ''audio'' False in
      if \<not> ok then ret False
      else seq (updm (\<lambda>g. if \<not> m_enableAudio g then g\<lparr>m_enableAudio := configValue\<rparr> else g)) (ret True))"

definition enablePulseAudio :: "environment \<Rightarrow> 'c container_if \<Rightarrow> ('c, bool) act" where
  "enablePulseAudio E C = (case getenv E ''PULSE_SERVER'' of
      None \<Rightarrow> ret False
    | Some dir \<Rightarrow>
        let pathInContainer = buildPath E ''/gateways/'' ''pulse_socket'' in
        bnd (ci_bindMountInContainer C dir pathInContainer False) (\<lambda>ok.
          if \<not> ok then ret False
          else bnd (ci_setEnvironmentVariable C ''PULSE_SERVER'' (''unix:'' @ pathInContainer)) (\<lambda>_. ret True)))"

definition pulse_activateGateway :: "environment \<Rightarrow> 'c container_if \<Rightarrow> (pulse_gateway, 'c, bool) meth" where
  "pulse_activateGateway E C = bnd (getm m_enableAudio) (\<lambda>enabled.
     if \<not> enabled then ret True else ext (enablePulseAudio E C))"

definition pulse_teardownGateway :: "(pulse_gateway, 'c, bool) meth" where
  "pulse_teardownGateway = ret True"

section \<open>WaylandGateway\<close>

record wayland_gateway = gateway +
  m_enabled :: bool
  w_activatedOnce :: bool

definition newWaylandGateway :: wayland_gateway where
  "newWaylandGateway = gateway.extend (newGateway ''wayland'' True) (wayland_gateway.fields False False)"

definition wayland_readConfigElement :: "json \<Rightarrow> (wayland_gateway, 'w, bool) meth" where
  "wayland_readConfigElement element =
     (let (ok, configValue) = readBool element ''enabled'' False in
      if \<not> ok then ret False
      else seq (updm (\<lambda>g. if \<not> m_enabled g then g\<lparr>m_enabled := configValue\<rparr> else g)) (ret True))"

definition wayland_activateGateway :: "environment \<Rightarrow> 'c container_if \<Rightarrow> (wayland_gateway, 'c, bool) meth" where
  "wayland_activateGateway E C = bnd (getm (\<lambda>g. g)) (\<lambda>g.
     if \<not> m_enabled g then ret True
     else if m_enabled g \<and> w_activatedOnce g then ret True
     else let socketFile = (case getenv E ''WAYLAND_DISPLAY'' of None \<Rightarrow> '''' | Some s \<Rightarrow> s) in
       if socketFile = '''' then ret False
       else (case getenv E ''XDG_RUNTIME_DIR'' of
           None \<Rightarrow> ret False
         | Some dir \<Rightarrow>
             let pathInHost = buildPath E dir socketFile;
                 pathInContainer = buildPath E ''/gateways'' socketFile in
             bnd (ext (ci_bindMountInContainer C pathInHost pathInContainer False)) (\<lambda>ok.
               if \<not> ok then ret False
               else bnd (ext (ci_setEnvironmentVariable C ''XDG_RUNTIME_DIR'' (parentPath pathInContainer))) (\<lambda>_.
                 seq (updm (w_activatedOnce_update (\<lambda>_. True))) (ret True)))))"

definition wayland_teardownGateway :: "(wayland_gateway, 'c, bool) meth" where
  "wayland_teardownGateway = ret True"

section \<open>Lemmas\<close>

interpretation pulse: gateway_virtuals pulse_readConfigElement "pulse_activateGateway E C" pulse_teardownGateway
  unfolding pulse_readConfigElement_def pulse_activateGateway_def pulse_teardownGateway_def
  by unfold_locales
    (auto intro!: keeps_intros keeps_updm keeps_ext simp: base_part_def Let_def split: prod.splits if_splits)

lemma keeps_wayland_activate:
  fixes I :: "wayland_gateway \<times> 'c \<Rightarrow> bool"
  assumes "\<And>g w w'. I (g, w) \<Longrightarrow> I (g, w')" "\<And>g w. I (g, w) \<Longrightarrow> I (g\<lparr>w_activatedOnce := True\<rparr>, w)"
  shows "keeps I (wayland_activateGateway E C)"
proof -
  have ext: "keeps I (ext m)" for m :: "('c, bool) act" by (rule keeps_ext) (rule assms(1))
  have upd: "keeps I (updm (w_activatedOnce_update (\<lambda>_. True)))" by (rule keeps_updm) (rule assms(2))
  show ?thesis unfolding wayland_activateGateway_def Let_def
    by (intro keeps_intros ext upd)
qed

lemma keeps_wayland_read:
  assumes "\<And>g w b. I (g, w) \<Longrightarrow> I (g\<lparr>m_enabled := b\<rparr>, w)"
  shows "keeps I (wayland_readConfigElement e)"
  unfolding wayland_readConfigElement_def Let_def using assms
  by (auto intro!: keeps_intros keeps_updm split: prod.splits)

interpretation wayland: gateway_virtuals wayland_readConfigElement "wayland_activateGateway E C" wayland_teardownGateway
  by unfold_locales
    (auto intro!: keeps_wayland_activate keeps_wayland_read keeps_ret simp: base_part_def wayland_teardownGateway_def)

definition is_mount :: "request \<Rightarrow> bool" where
  "is_mount r \<longleftrightarrow> (case r of Mounted _ _ _ \<Rightarrow> True | _ \<Rightarrow> False)"

lemma wayland_activate_recorder:
  "case wayland_activateGateway E recorder (g, log) of (r, (h, log')) \<Rightarrow>
    (if m_enabled g \<and> \<not> w_activatedOnce g \<and> w_activatedOnce h
     then length (filter is_mount log') = Suc (length (filter is_mount log))
     else filter is_mount log' = filter is_mount log \<and> w_activatedOnce h = w_activatedOnce g)"
  by (auto simp: wayland_activateGateway_def recorder_def act_defs Let_def is_mount_def split: option.splits)

lemma pulse_activate_recorder:
  "pulse_activateGateway E recorder (g, log) =
    (if \<not> m_enableAudio g then (Inr True, (g, log))
     else case getenv E ''PULSE_SERVER'' of
         None \<Rightarrow> (Inr False, (g, log))
       | Some dir \<Rightarrow> (Inr True, (g, log @ [Mounted dir (build_filename E ''/gateways/'' ''pulse_socket'') False,
           EnvSet ''PULSE_SERVER'' (''unix:'' @ build_filename E ''/gateways/'' ''pulse_socket'')])))"
  by (simp add: pulse_activateGateway_def enablePulseAudio_def recorder_def act_defs buildPath_def Let_def
      split: option.splits)

definition audio_element :: "bool \<Rightarrow> json" where
  "audio_element b = JObject [(''audio'', if b then JTrue else JFalse)]"

lemma pulse_read:
  "pulse_readConfigElement (audio_element b) (g, w) = (Inr True, (g\<lparr>m_enableAudio := m_enableAudio g \<or> b\<rparr>, w))"
  by (auto simp: pulse_readConfigElement_def audio_element_def readBool_def act_defs)

lemma pulse_reads:
  "readElements pulse_readConfigElement (map audio_element bs) (g, w) =
    (Inr True, (g\<lparr>m_enableAudio := m_enableAudio g \<or> True \<in> set bs\<rparr>, w))"
proof (induction bs arbitrary: g)
  case Nil
  then show ?case by (simp add: readElements_Nil)
next
  case (Cons b bs)
  have obj: "json_is_object (audio_element b)" by (simp add: audio_element_def)
  show ?case
    using readElements_Cons(1) [where R = pulse_readConfigElement, OF obj pulse_read [of b g w]] Cons by auto
qed

section \<open>Properties\<close>

text \<open>Any element that enables audio enables it, whatever the other elements say, and activation
  exposes the server's socket and its address exactly where it is enabled; without a server on the
  host it fails.\<close>

theorem pulse_most_permissive:
  assumes "bs \<noteq> []"
  shows "bnd (setConfig pulse_readConfigElement (JArray (map audio_element bs)))
      (\<lambda>_. activate (pulse_activateGateway E recorder)) (newPulseGateway, log) =
    (let h = newPulseGateway\<lparr>m_enableAudio := True \<in> set bs, m_state := CONFIGURED\<rparr>;
         socket = build_filename E ''/gateways/'' ''pulse_socket'' in
     if True \<notin> set bs then (Inr True, (h\<lparr>m_state := ACTIVATED\<rparr>, log))
     else case getenv E ''PULSE_SERVER'' of
         None \<Rightarrow> (Inr False, (h, log))
       | Some dir \<Rightarrow> (Inr True, (h\<lparr>m_state := ACTIVATED\<rparr>,
           log @ [Mounted dir socket False, EnvSet ''PULSE_SERVER'' (''unix:'' @ socket)])))"
proof -
  let ?h = "newPulseGateway\<lparr>m_enableAudio := True \<in> set bs\<rparr>"
  have new: "m_state newPulseGateway = CREATED" "\<not> m_enableAudio newPulseGateway"
    by (simp_all add: newPulseGateway_def newGateway_def gateway.defs pulse_gateway.defs)
  have loop: "readElements pulse_readConfigElement (json_elements (JArray (map audio_element bs))) (newPulseGateway, log)
      = (Inr True, (?h, log))"
    using new by (simp add: pulse_reads)
  have conf: "setConfig pulse_readConfigElement (JArray (map audio_element bs)) (newPulseGateway, log)
      = (Inr True, (?h\<lparr>m_state := CONFIGURED\<rparr>, log))"
    using setConfig_run [OF loop] new assms by simp
  show ?thesis
  proof (cases "True \<in> set bs")
    case False
    then show ?thesis by (simp add: conf bnd_run Let_def activate_run pulse_activate_recorder)
  next
    case True
    then show ?thesis
      by (cases "getenv E ''PULSE_SERVER''") (simp_all add: conf bnd_run Let_def activate_run pulse_activate_recorder)
  qed
qed

theorem pulse_most_permissive_witness:
  "\<exists>h. bnd (setConfig pulse_readConfigElement (JArray (map audio_element [True, False])))
      (\<lambda>_. activate (pulse_activateGateway \<lparr>answer = \<lambda>_ _. (0, ''''), build_filename = (\<lambda>a b. a @ b),
         path_get_basename = (\<lambda>p. p), shell_parse_argv = (\<lambda>_. None), getenv = (\<lambda>_. Some ''/run/pulse'')\<rparr> recorder))
      (newPulseGateway, []) =
    (Inr True, (h, [Mounted ''/run/pulse'' ''/gateways/pulse_socket'' False, EnvSet ''PULSE_SERVER'' ''unix:/gateways/pulse_socket'']))"
  by (subst pulse_most_permissive) (simp_all add: Let_def)

text \<open>Through any sequence of configurations, activations and teardowns of a new Wayland gateway the
  socket is mounted at most once, and the gateway never reports that it is activated, not even when
  the socket is mounted: the flag it sets hides the one that \<open>isActivated\<close> asks for.\<close>

theorem wayland_mounts_once_never_activated:
  assumes "(gateway_step wayland_readConfigElement (wayland_activateGateway E recorder) wayland_teardownGateway)\<^sup>*\<^sup>*
      (newWaylandGateway, []) (h, log)"
  shows "length (filter is_mount log) = (if w_activatedOnce h then 1 else 0) \<and> \<not> isActivated h"
proof -
  let ?I = "\<lambda>(h :: wayland_gateway, log). length (filter is_mount log) = (if w_activatedOnce h then 1 else 0)"
  let ?J = "\<lambda>(h :: wayland_gateway, log :: request list). m_isDynamic h \<and> \<not> m_activatedOnce h"
  have new: "\<not> w_activatedOnce newWaylandGateway" "m_isDynamic newWaylandGateway" "\<not> m_activatedOnce newWaylandGateway"
    by (simp_all add: newWaylandGateway_def newGateway_def gateway.defs wayland_gateway.defs)
  have act: "keeps ?I (wayland_activateGateway E recorder)"
  proof (rule keepsI)
    fix s :: "wayland_gateway \<times> request list" assume I: "?I s"
    obtain g l where s: "s = (g, l)" by force
    obtain r h' l' where run: "wayland_activateGateway E recorder (g, l) = (r, (h', l'))" by (rule run_exists)
    show "?I (snd (wayland_activateGateway E recorder s))"
      using I wayland_activate_recorder [where E = E and g = g and log = l] by (auto simp: s run split: if_splits)
  qed
  have "?I (h, log)"
    by (rule gateway_run_invariant [OF assms, where I = ?I])
      (auto simp: new wayland_teardownGateway_def intro!: act keeps_wayland_read keeps_ret)
  moreover have "?J (h, log)"
    by (rule gateway_run_invariant [OF assms, where I = ?J])
      (auto simp: new wayland_teardownGateway_def intro!: keeps_wayland_activate keeps_wayland_read keeps_ret)
  ultimately show ?thesis by (simp add: isActivated_def)
qed

theorem wayland_mounts_once_never_activated_witness:
  "let E = \<lparr>answer = \<lambda>_ _. (0, ''''), build_filename = (\<lambda>a b. a @ b), path_get_basename = (\<lambda>p. p),
        shell_parse_argv = (\<lambda>_. None), getenv = (\<lambda>_. Some ''x'')\<rparr>;
       (r, h, log) = setConfig wayland_readConfigElement (JArray [JObject [(''enabled'', JTrue)]]) (newWaylandGateway, []);
       (r', h', log') = activate (wayland_activateGateway E recorder) (h, log)
   in length (filter is_mount log') \<le> 1 \<and> \<not> isActivated h'"
proof -
  let ?E = "\<lparr>answer = \<lambda>_ _. (0, ''''), build_filename = (\<lambda>a b. a @ b), path_get_basename = (\<lambda>p. p),
        shell_parse_argv = (\<lambda>_. None), getenv = (\<lambda>_. Some ''x'')\<rparr>"
  let ?step = "gateway_step wayland_readConfigElement (wayland_activateGateway ?E recorder) wayland_teardownGateway"
  obtain r h log where run: "setConfig wayland_readConfigElement (JArray [JObject [(''enabled'', JTrue)]]) (newWaylandGateway, [] :: request list)
      = (r, (h, log))" by (rule run_exists)
  obtain r' h' log' where run': "activate (wayland_activateGateway ?E recorder) (h, log) = (r', (h', log'))"
    by (rule run_exists)
  have "?step\<^sup>*\<^sup>* (newWaylandGateway, []) (h, log)"
    by (rule r_into_rtranclp) (rule gateway_step.intros(1) [OF run])
  then have "?step\<^sup>*\<^sup>* (newWaylandGateway, []) (h', log')"
    by (rule rtranclp.rtrancl_into_rtrancl) (rule gateway_step.intros(2) [OF run'])
  from wayland_mounts_once_never_activated [OF this] show ?thesis
    by (simp add: Let_def run run')
qed

end
