(* ===== verification/DBusGateway.thy ===== *)
theory DBusGateway
  imports ContainerInterface
begin

text \<open>
  The D-Bus gateway of \<open>gateway/dbus\<close>: one \<open>DBusGatewayInstance\<close> per bus, each a dynamic gateway
  with a dbus-proxy process of its own, and the gateway that combines the two. Writing a document
  as text is jansson's and is the parameter \<open>json_dumps\<close>. \<open>Spawn\<close> answers the process ID of the
  proxy and \<open>SpawnStdin\<close> the descriptor of its standard input; 0 stands for a \<open>Glib::Error\<close>.
\<close>

datatype ProxyType = SessionProxy | SystemProxy

definition SESSION_CONFIG :: string where "SESSION_CONFIG = ''dbus-gateway-config-session''"
definition SYSTEM_CONFIG :: string where "SYSTEM_CONFIG = ''dbus-gateway-config-system''"

record dbus_instance = gateway +
  m_hasEntireConfig :: bool
  m_busConfig :: "json list"
  m_socket :: string
  m_type :: ProxyType
  m_pid :: int
  m_proxyStdin :: int

definition typeStr :: "ProxyType \<Rightarrow> string" where
  "typeStr t = (case t of SessionProxy \<Rightarrow> SESSION_CONFIG | SystemProxy \<Rightarrow> SYSTEM_CONFIG)"

definition unusedTypeStr :: "ProxyType \<Rightarrow> string" where
  "unusedTypeStr t = (case t of SessionProxy \<Rightarrow> SYSTEM_CONFIG | SystemProxy \<Rightarrow> SESSION_CONFIG)"

definition newDBusGatewayInstance :: "environment \<Rightarrow> ProxyType \<Rightarrow> string \<Rightarrow> string \<Rightarrow> dbus_instance" where
  "newDBusGatewayInstance E type gatewayDir name =
     gateway.extend (newGateway ''dbus-bus-instance'' True)
       (dbus_instance.fields True []
         (buildPath E gatewayDir ((if type = SessionProxy then ''sess_'' else ''sys_'') @ name @ ''.sock''))
         type INVALID_PID INVALID_FD)"

definition m_entireConfig :: "dbus_instance \<Rightarrow> json" where
  "m_entireConfig g = JObject [(typeStr (m_type g), JArray (m_busConfig g)), (unusedTypeStr (m_type g), JArray [])]"

text \<open>The parser appends to the array of the instance, also where it throws later.\<close>

fun appendChildren :: "json list \<Rightarrow> json list \<Rightarrow> (exn + bool) \<times> json list" where
  "appendChildren [] conf = (Inr True, conf)"
| "appendChildren (child # cs) conf =
     (if \<not> json_is_object child then (Inl GatewayParserError, conf) else appendChildren cs (conf @ [child]))"

definition parseDBusConfig :: "json \<Rightarrow> string \<Rightarrow> json list \<Rightarrow> (exn + bool) \<times> json list" where
  "parseDBusConfig element key conf = (case json_object_get element key of
      None \<Rightarrow> (Inr False, conf)
    | Some configExists \<Rightarrow>
        if \<not> json_is_array configExists then (Inl GatewayParserError, conf)
        else appendChildren (json_elements configExists) conf)"

definition dbus_readConfigElement :: "json \<Rightarrow> (dbus_instance, 'w, bool) meth" where
  "dbus_readConfigElement element = (\<lambda>(g, w).
     case parseDBusConfig element (typeStr (m_type g)) (m_busConfig g) of
       (Inl x, conf) \<Rightarrow> (Inl x, (g\<lparr>m_busConfig := conf\<rparr>, w))
     | (Inr ok, conf) \<Rightarrow> (Inr ok, (g\<lparr>m_busConfig := conf\<rparr>, w)))"

definition socketName :: "dbus_instance \<Rightarrow> string" where
  "socketName g = rev (takeWhile (\<lambda>c. c \<noteq> CHR ''/'') (rev (m_socket g)))"

definition startDBusProxy :: "'c container_if \<Rightarrow> string list \<Rightarrow> string list \<Rightarrow> (dbus_instance, 'c, bool) meth" where
  "startDBusProxy C commandVec envVec = bnd (ext (ci_call C (Proc (Spawn commandVec envVec)))) (\<lambda>pid.
     if pid = 0 then ret False
     else bnd (ext (ci_call C (Proc SpawnStdin))) (\<lambda>fd.
       seq (updm (\<lambda>g. g\<lparr>m_pid := pid, m_proxyStdin := fd\<rparr>))
         (seq (updm (m_activatedOnce_update (\<lambda>_. True))) (ret True))))"

text \<open>The loop of \<open>isSocketCreated\<close>, with the number of rounds that are left.\<close>

fun socketLoop :: "'c container_if \<Rightarrow> string \<Rightarrow> nat \<Rightarrow> ('c, bool) act" where
  "socketLoop C socket 0 = ret False"
| "socketLoop C socket (Suc n) =
     bnd (ci_call C (Proc (Usleep 10000))) (\<lambda>_.
       bnd (ci_call C (File (Access socket))) (\<lambda>r.
         if r = -1 then socketLoop C socket n else ret True))"

definition isSocketCreated :: "'c container_if \<Rightarrow> (dbus_instance, 'c, bool) meth" where
  "isSocketCreated C = bnd (getm m_socket) (\<lambda>socket. ext (socketLoop C socket 1000))"

definition testDBusConnection :: "'c container_if \<Rightarrow> string \<Rightarrow> (dbus_instance, 'c, bool) meth" where
  "testDBusConnection C text =
     (let conf = text @ [CHR 0x0A]; count = int (length conf) in
      bnd (getm m_proxyStdin) (\<lambda>fd. bnd (ext (ci_call C (File (WriteFd fd conf)))) (\<lambda>configWrite.
        if configWrite = -1 then ret False
        else if configWrite = count then bnd (isSocketCreated C) (\<lambda>created. ret created)
        else ret False)))"

definition bus_variable :: "ProxyType \<Rightarrow> string" where
  "bus_variable t = ''DBUS_'' @ (if t = SessionProxy then ''SESSION'' else ''SYSTEM'') @ ''_BUS_ADDRESS''"

definition setUpProxy :: "environment \<Rightarrow> 'c container_if \<Rightarrow> (dbus_instance, 'c, bool) meth" where
  "setUpProxy E C = bnd (getm (\<lambda>g. g)) (\<lambda>g.
     let variable = bus_variable (m_type g);
         commandVec = [''dbus-proxy'', m_socket g, if m_type g = SessionProxy then ''session'' else ''system''] in
     bnd (ext (ci_setEnvironmentVariable C variable (''unix:path='' @ buildPath E ''/gateways'' (socketName g)))) (\<lambda>_.
       case getenv E variable of
         None \<Rightarrow> if SessionProxy = m_type g then ret False else startDBusProxy C commandVec []
       | Some envValue \<Rightarrow> startDBusProxy C commandVec [variable @ ''='' @ envValue]))"

definition dbus_activateGateway :: "(json \<Rightarrow> string) \<Rightarrow> environment \<Rightarrow> 'c container_if \<Rightarrow> (dbus_instance, 'c, bool) meth" where
  "dbus_activateGateway json_dumps E C =
     andThen (bnd (getm (\<lambda>g. m_activatedOnce g)) (\<lambda>once. if \<not> once then setUpProxy E C else ret True))
       (bnd (getm (\<lambda>g. g)) (\<lambda>g.
          if \<not> m_hasEntireConfig g then throw UndefinedBehaviour
          else testDBusConnection C (json_dumps (m_entireConfig g))))"

definition SIGKILL :: int where "SIGKILL = 9"

definition dbus_teardownGateway :: "'c container_if \<Rightarrow> (dbus_instance, 'c, bool) meth" where
  "dbus_teardownGateway C = seq (updm (m_hasEntireConfig_update (\<lambda>_. False)))
     (bnd (getm (\<lambda>g. g)) (\<lambda>g.
       seq (if m_pid g \<noteq> INVALID_PID
            then bnd (ext (ci_call C (Proc (Kill (m_pid g) SIGKILL)))) (\<lambda>_.
                 bnd (ext (ci_call C (Proc (WaitPid (m_pid g))))) (\<lambda>_.
                 bnd (ext (ci_call C (Proc (SpawnClosePid (m_pid g))))) (\<lambda>_. ret ())))
            else ret ())
       (bnd (ext (ci_call C (File (Access (m_socket g))))) (\<lambda>r.
         bnd (if r \<noteq> -1 then bnd (ext (ci_call C (File (Unlink (m_socket g))))) (\<lambda>u. ret (u \<noteq> -1))
              else ret True) (\<lambda>success.
           bnd (ext (ci_call C (File (Close (m_proxyStdin g))))) (\<lambda>_. ret success))))))"

text \<open>The destructor.\<close>

definition destroyInstance :: "'c container_if \<Rightarrow> (dbus_instance, 'c, unit) meth" where
  "destroyInstance C = bnd (getm (\<lambda>g. isActivated g)) (\<lambda>active.
     if active then bnd (teardown (dbus_teardownGateway C)) (\<lambda>_. ret ()) else ret ())"

section \<open>DBusGateway\<close>

record dbus_gateway = gateway +
  sessionBus :: dbus_instance
  systemBus :: dbus_instance

definition newDBusGateway :: "environment \<Rightarrow> string \<Rightarrow> string \<Rightarrow> dbus_gateway" where
  "newDBusGateway E gatewayDir name = gateway.extend (newGateway ''dbus'' False)
     (dbus_gateway.fields (newDBusGatewayInstance E SessionProxy gatewayDir name)
        (newDBusGatewayInstance E SystemProxy gatewayDir name))"

definition onSession :: "(dbus_instance, 'w, 'a) meth \<Rightarrow> (dbus_gateway, 'w, 'a) meth" where
  "onSession = on sessionBus (\<lambda>b d. d\<lparr>sessionBus := b\<rparr>)"

definition onSystem :: "(dbus_instance, 'w, 'a) meth \<Rightarrow> (dbus_gateway, 'w, 'a) meth" where
  "onSystem = on systemBus (\<lambda>b d. d\<lparr>systemBus := b\<rparr>)"

definition dbus_setConfig :: "json \<Rightarrow> (dbus_gateway, 'w, bool) meth" where
  "dbus_setConfig conf = catch
     (bnd (onSession (setConfig dbus_readConfigElement conf)) (\<lambda>sessionResult.
       bnd (onSystem (setConfig dbus_readConfigElement conf)) (\<lambda>systemResult.
         if \<not> sessionResult \<and> \<not> systemResult then ret False else ret True)))
     (\<lambda>e. if e = GatewayParserError then Some (ret False) else None)"

text \<open>The result of the system bus is assigned to the variable of the session bus.\<close>

definition dbus_activate :: "(json \<Rightarrow> string) \<Rightarrow> environment \<Rightarrow> 'c container_if \<Rightarrow> (dbus_gateway, 'c, bool) meth" where
  "dbus_activate json_dumps E C = bnd (getm (\<lambda>d. isConfigured (sessionBus d))) (\<lambda>sessionConfigured.
     bnd (if sessionConfigured then onSession (activate (dbus_activateGateway json_dumps E C)) else ret False)
       (\<lambda>sessionBusActivationResult. bnd (getm (\<lambda>d. isConfigured (systemBus d))) (\<lambda>systemConfigured.
         bnd (if systemConfigured then onSystem (activate (dbus_activateGateway json_dumps E C))
              else ret sessionBusActivationResult) (\<lambda>sessionBusActivationResult.
           let systemBusActivationResult = False in
           if \<not> sessionBusActivationResult \<and> \<not> systemBusActivationResult then ret False else ret True))))"

definition dbus_teardown :: "'c container_if \<Rightarrow> (dbus_gateway, 'c, bool) meth" where
  "dbus_teardown C = bnd (getm (\<lambda>d. isActivated (sessionBus d))) (\<lambda>sessionActive.
     bnd (if sessionActive then onSession (teardown (dbus_teardownGateway C)) else ret False)
       (\<lambda>sessionResult. bnd (getm (\<lambda>d. isActivated (systemBus d))) (\<lambda>systemActive.
         bnd (if systemActive then onSystem (teardown (dbus_teardownGateway C)) else ret False)
           (\<lambda>systemResult. if \<not> sessionResult \<and> \<not> systemResult then ret False else ret True))))"

definition dbus_isConfigured :: "dbus_gateway \<Rightarrow> bool" where
  "dbus_isConfigured d \<longleftrightarrow> isConfigured (sessionBus d) \<or> isConfigured (systemBus d)"

definition dbus_isActivated :: "dbus_gateway \<Rightarrow> bool" where
  "dbus_isActivated d \<longleftrightarrow> isActivated (sessionBus d) \<or> isActivated (systemBus d)"

section \<open>Lemmas\<close>

lemma keeps_dbus_read:
  fixes I :: "dbus_instance \<times> 'c \<Rightarrow> bool"
  assumes "\<And>g w c. I (g, w) \<Longrightarrow> I (g\<lparr>m_busConfig := c\<rparr>, w)"
  shows "keeps I (dbus_readConfigElement e)"
  using assms by (auto simp: keeps_def dbus_readConfigElement_def split: prod.splits sum.splits)

lemma keeps_setUpProxy:
  fixes I :: "dbus_instance \<times> 'c \<Rightarrow> bool"
  assumes "\<And>g w w'. I (g, w) \<Longrightarrow> I (g, w')"
    and "\<And>g w p f. I (g, w) \<Longrightarrow> I (g\<lparr>m_pid := p, m_proxyStdin := f\<rparr>, w)"
    and "\<And>g w. I (g, w) \<Longrightarrow> I (g\<lparr>m_activatedOnce := True\<rparr>, w)"
  shows "keeps I (setUpProxy E C)"
proof -
  have ext: "keeps I (ext m)" for m :: "('c, 'b) act" by (rule keeps_ext) (rule assms(1))
  have ext': "keeps I (ext m)" for m :: "('c, int) act" by (rule keeps_ext) (rule assms(1))
  have "keeps I (updm (\<lambda>g. g\<lparr>m_pid := p, m_proxyStdin := f\<rparr>))" for p f
    by (rule keeps_updm) (rule assms(2))
  moreover have "keeps I (updm (m_activatedOnce_update (\<lambda>_. True)))"
    by (rule keeps_updm) (rule assms(3))
  ultimately have start: "keeps I (startDBusProxy C c e)" for c e
    unfolding startDBusProxy_def by (intro keeps_bnd keeps_if keeps_ret keeps_seq ext')
  show ?thesis unfolding setUpProxy_def Let_def
    by (intro keeps_bnd keeps_getm keeps_case_option keeps_if keeps_ret start keeps_ext) (rule assms(1))
qed

lemma keeps_testDBusConnection:
  fixes I :: "dbus_instance \<times> 'c \<Rightarrow> bool"
  assumes "\<And>g w w'. I (g, w) \<Longrightarrow> I (g, w')"
  shows "keeps I (testDBusConnection C conf)"
proof -
  have ext: "keeps I (ext m)" for m :: "('c, int) act" by (rule keeps_ext) (rule assms)
  have ext': "keeps I (ext m)" for m :: "('c, bool) act" by (rule keeps_ext) (rule assms)
  show ?thesis unfolding testDBusConnection_def Let_def isSocketCreated_def
    by (intro keeps_bnd keeps_getm keeps_if keeps_ret ext ext')
qed

lemma keeps_dbus_activate:
  fixes I :: "dbus_instance \<times> 'c \<Rightarrow> bool"
  assumes "\<And>g w w'. I (g, w) \<Longrightarrow> I (g, w')"
    and "\<And>g w p f. I (g, w) \<Longrightarrow> I (g\<lparr>m_pid := p, m_proxyStdin := f\<rparr>, w)"
    and "\<And>g w. I (g, w) \<Longrightarrow> I (g\<lparr>m_activatedOnce := True\<rparr>, w)"
  shows "keeps I (dbus_activateGateway json_dumps E C)"
  unfolding dbus_activateGateway_def
  by (intro keeps_andThen keeps_bnd keeps_getm keeps_if keeps_ret keeps_throw keeps_setUpProxy
      keeps_testDBusConnection) (erule assms)+

lemma keeps_dbus_teardown:
  fixes I :: "dbus_instance \<times> 'c \<Rightarrow> bool"
  assumes "\<And>g w w'. I (g, w) \<Longrightarrow> I (g, w')" and "\<And>g w. I (g, w) \<Longrightarrow> I (g\<lparr>m_hasEntireConfig := False\<rparr>, w)"
  shows "keeps I (dbus_teardownGateway C)"
proof -
  have ext: "keeps I (ext m)" for m :: "('c, int) act" by (rule keeps_ext) (rule assms(1))
  have "keeps I (updm (m_hasEntireConfig_update (\<lambda>_. False)))" by (rule keeps_updm) (rule assms(2))
  then show ?thesis unfolding dbus_teardownGateway_def
    by (intro keeps_seq keeps_bnd keeps_getm keeps_if keeps_ret ext)
qed

interpretation dbus: gateway_virtuals dbus_readConfigElement "dbus_activateGateway json_dumps E C" "dbus_teardownGateway C"
  by unfold_locales
    (auto intro!: keeps_dbus_read keeps_dbus_activate keeps_dbus_teardown simp: base_part_def)

text \<open>An element with rules for one of the buses only.\<close>

definition bus_element :: "ProxyType \<Rightarrow> json list \<Rightarrow> json" where
  "bus_element t rules = JObject [(typeStr t, JArray rules)]"

lemma type_names [simp]: "typeStr SessionProxy \<noteq> typeStr SystemProxy" "typeStr SystemProxy \<noteq> typeStr SessionProxy"
  by (simp_all add: typeStr_def SESSION_CONFIG_def SYSTEM_CONFIG_def)

lemma appendChildren_objects:
  "\<forall>r \<in> set rules. json_is_object r \<Longrightarrow> appendChildren rules conf = (Inr True, conf @ rules)"
  by (induction rules arbitrary: conf) auto

lemma bus_read:
  assumes "\<forall>r \<in> set rules. json_is_object r"
  shows "dbus_readConfigElement (bus_element t rules) (g, w) =
    (if m_type g = t then (Inr True, (g\<lparr>m_busConfig := m_busConfig g @ rules\<rparr>, w)) else (Inr False, (g, w)))"
  using appendChildren_objects [OF assms]
  by (cases t; cases "m_type g")
    (simp_all add: dbus_readConfigElement_def parseDBusConfig_def bus_element_def)

lemma bus_elements_read:
  assumes "\<forall>e \<in> set es. fst e = m_type g \<and> (\<forall>r \<in> set (snd e). json_is_object r)"
  shows "readElements dbus_readConfigElement (map (\<lambda>(t, rules). bus_element t rules) es) (g, w) =
    (Inr True, (g\<lparr>m_busConfig := m_busConfig g @ concat (map snd es)\<rparr>, w))"
  using assms
proof (induction es arbitrary: g)
  case Nil
  then show ?case by (simp add: readElements_Nil)
next
  case (Cons e es)
  obtain t rules where e: "e = (t, rules)" by force
  have obj: "json_is_object (bus_element t rules)" by (simp add: bus_element_def)
  have "dbus_readConfigElement (bus_element t rules) (g, w) =
      (Inr True, (g\<lparr>m_busConfig := m_busConfig g @ rules\<rparr>, w))"
    using Cons.prems e by (subst bus_read) auto
  with Cons readElements_Cons(1) [where R = dbus_readConfigElement, OF obj this] show ?case by (simp add: e)
qed

lemma bus_config:
  assumes "es \<noteq> []" "\<forall>e \<in> set es. \<forall>r \<in> set (snd e). json_is_object r" "m_isDynamic g"
    and "\<forall>e \<in> set es. fst e = t"
  shows "setConfig dbus_readConfigElement (JArray (map (\<lambda>(t, rules). bus_element t rules) es)) (g, w) =
    (if m_type g = t then (Inr True, (g\<lparr>m_busConfig := m_busConfig g @ concat (map snd es), m_state := CONFIGURED\<rparr>, w))
     else (Inr False, (g, w)))"
proof -
  let ?js = "map (\<lambda>(t, rules). bus_element t rules) es"
  obtain t1 r1 es1 where es: "es = (t1, r1) # es1" using assms(1) by (cases es) auto
  have obj: "json_is_object (bus_element t r1)" by (simp add: bus_element_def)
  show ?thesis
  proof (cases "m_type g = t")
    case True
    then have "readElements dbus_readConfigElement (json_elements (JArray ?js)) (g, w) =
        (Inr True, (g\<lparr>m_busConfig := m_busConfig g @ concat (map snd es)\<rparr>, w))"
      using assms(2,4) bus_elements_read [of es g w] by simp
    from setConfig_run [OF this] True assms(1,3) show ?thesis by simp
  next
    case False
    have step: "dbus_readConfigElement (bus_element t r1) (g, w) = (Inr False, (g, w))"
      using assms(2,4) False es by (subst bus_read) auto
    have "t1 = t" using assms(4) es by simp
    then have "readElements dbus_readConfigElement (json_elements (JArray ?js)) (g, w) = (Inr False, (g, w))"
      using readElements_Cons(2) [where R = dbus_readConfigElement, OF obj step] by (simp add: es)
    from setConfig_run [OF this] False assms(1,3) show ?thesis by simp
  qed
qed

section \<open>Properties\<close>

text \<open>A configuration whose elements name one bus each, first the session bus and then the system
  bus, is refused by both instances, since each stops at the first element without its own key; the
  rules for the session bus stay on record all the same.\<close>

theorem dbus_split_configuration_refused:
  assumes "\<forall>r \<in> set ss. json_is_object r" "\<forall>r \<in> set ts. json_is_object r"
    and "m_type (sessionBus d) = SessionProxy" "m_type (systemBus d) = SystemProxy"
    and "m_isDynamic (sessionBus d)" "m_isDynamic (systemBus d)"
  shows "dbus_setConfig (JArray [bus_element SessionProxy ss, bus_element SystemProxy ts]) (d, w) =
    (Inr False, (d\<lparr>sessionBus := (sessionBus d)\<lparr>m_busConfig := m_busConfig (sessionBus d) @ ss\<rparr>\<rparr>, w))"
proof -
  let ?j = "JArray [bus_element SessionProxy ss, bus_element SystemProxy ts]"
  let ?b = "(sessionBus d)\<lparr>m_busConfig := m_busConfig (sessionBus d) @ ss\<rparr>"
  have obj: "json_is_object (bus_element t rules)" for t rules by (simp add: bus_element_def)
  have "readElements dbus_readConfigElement (json_elements ?j) (sessionBus d, w) = (Inr False, (?b, w))"
    using assms by (simp add: readElements_step obj bus_read)
  from setConfig_run [OF this] assms(5)
  have 1: "setConfig dbus_readConfigElement ?j (sessionBus d, w) = (Inr False, (?b, w))" by simp
  have "readElements dbus_readConfigElement (json_elements ?j) (systemBus d, w) = (Inr False, (systemBus d, w))"
    using assms by (simp add: readElements_step obj bus_read)
  from setConfig_run [OF this] assms(6)
  have 2: "setConfig dbus_readConfigElement ?j (systemBus d, w) = (Inr False, (systemBus d, w))" by simp
  show ?thesis by (simp add: dbus_setConfig_def onSession_def onSystem_def act_defs 1 2)
qed

definition example_env :: environment where
  "example_env = \<lparr>answer = \<lambda>_ _. (0, ''''), build_filename = (\<lambda>a b. a @ ''/'' @ b), path_get_basename = (\<lambda>p. p),
     shell_parse_argv = (\<lambda>_. None), getenv = (\<lambda>_. Some ''unix:path=/bus'')\<rparr>"

lemma new_dbus:
  "m_type (sessionBus (newDBusGateway E dir n)) = SessionProxy" "m_type (systemBus (newDBusGateway E dir n)) = SystemProxy"
  "m_isDynamic (sessionBus (newDBusGateway E dir n))" "m_isDynamic (systemBus (newDBusGateway E dir n))"
  "m_busConfig (sessionBus (newDBusGateway E dir n)) = []" "m_busConfig (systemBus (newDBusGateway E dir n)) = []"
  "m_hasEntireConfig (sessionBus (newDBusGateway E dir n))" "m_hasEntireConfig (systemBus (newDBusGateway E dir n))"
  "m_state (sessionBus (newDBusGateway E dir n)) = CREATED" "m_state (systemBus (newDBusGateway E dir n)) = CREATED"
  "\<not> m_activatedOnce (sessionBus (newDBusGateway E dir n))" "\<not> m_activatedOnce (systemBus (newDBusGateway E dir n))"
  by (simp_all add: newDBusGateway_def newDBusGatewayInstance_def newGateway_def gateway.defs dbus_gateway.defs dbus_instance.defs)

theorem dbus_split_configuration_refused_witness:
  "fst (dbus_setConfig (JArray [bus_element SessionProxy [JObject []], bus_element SystemProxy [JObject []]])
     (newDBusGateway example_env ''/gateways'' ''SC-0'', ())) = Inr False"
  by (subst dbus_split_configuration_refused) (simp_all add: new_dbus)

text \<open>Where both buses are active, a new configuration for the session bus alone is accepted, and the
  activation that follows throws: the system bus still counts as configured, and an instance that is
  activated cannot be activated again.\<close>

theorem dbus_one_bus_reconfiguration_throws:
  assumes "es \<noteq> []" "\<forall>e \<in> set es. fst e = SessionProxy \<and> (\<forall>r \<in> set (snd e). json_is_object r)"
    and "m_type (sessionBus d) = SessionProxy" "m_type (systemBus d) = SystemProxy"
    and "m_isDynamic (sessionBus d)" "m_isDynamic (systemBus d)" "m_state (systemBus d) = ACTIVATED"
    and "\<And>g w. m_hasEntireConfig g \<Longrightarrow> \<exists>b. fst (dbus_activateGateway json_dumps E C (g, w)) = Inr b"
    and "m_hasEntireConfig (sessionBus d)"
  shows "\<exists>d'. dbus_setConfig (JArray (map (\<lambda>(t, rules). bus_element t rules) es)) (d, w) = (Inr True, (d', w)) \<and>
    fst (dbus_activate json_dumps E C (d', w)) = Inl GatewayError"
proof -
  let ?j = "JArray (map (\<lambda>(t, rules). bus_element t rules) es)"
  let ?b = "(sessionBus d)\<lparr>m_busConfig := m_busConfig (sessionBus d) @ concat (map snd es), m_state := CONFIGURED\<rparr>"
  let ?d = "d\<lparr>sessionBus := ?b\<rparr>"
  have "setConfig dbus_readConfigElement ?j (sessionBus d, w) = (Inr True, (?b, w))"
    "setConfig dbus_readConfigElement ?j (systemBus d, w) = (Inr False, (systemBus d, w))"
    using assms(1-6) by (subst bus_config [where t = SessionProxy]; simp)+
  then have conf: "dbus_setConfig ?j (d, w) = (Inr True, (?d, w))"
    by (simp add: dbus_setConfig_def onSession_def onSystem_def act_defs)
  obtain q k u where run: "dbus_activateGateway json_dumps E C (?b, w) = (q, (k, u))" by (rule run_exists)
  from assms(8) [of ?b w] assms(9) run obtain b where "q = Inr b" by auto
  with activate_run [where activateGw = "dbus_activateGateway json_dumps E C", OF run]
  obtain k' where ses: "activate (dbus_activateGateway json_dumps E C) (?b, w) = (Inr b, (k', u))" by (cases b) auto
  have sys: "fst (activate (dbus_activateGateway json_dumps E C) (systemBus d, u)) = Inl GatewayError"
    using assms(7) by (simp add: activate_def act_defs)
  have "fst (dbus_activate json_dumps E C (?d, w)) = Inl GatewayError"
    using sys assms(7)
    by (auto simp: dbus_activate_def onSession_def onSystem_def act_defs ses isConfigured_def split: sum.splits prod.splits)
  with conf show ?thesis by blast
qed

lemma dbus_activate_recorder:
  assumes "m_hasEntireConfig g"
  shows "\<exists>b. fst (dbus_activateGateway json_dumps E recorder (g, log)) = Inr b"
proof -
  have proxy: "\<exists>b h log'. setUpProxy E recorder (g, log) = (Inr b, (h, log')) \<and> m_hasEntireConfig h"
    using assms by (auto simp: setUpProxy_def startDBusProxy_def recorder_def act_defs Let_def split: option.splits)
  have test: "fst (testDBusConnection recorder t (h, log')) = Inr False" for t h log'
    by (simp add: testDBusConnection_def recorder_def act_defs Let_def)
  have rest: "\<exists>b. fst (bnd (getm (\<lambda>g. g)) (\<lambda>g. if \<not> m_hasEntireConfig g then throw UndefinedBehaviour
      else testDBusConnection recorder (json_dumps (m_entireConfig g))) (h, log')) = Inr b" if "m_hasEntireConfig h" for h log'
    using that test [of "json_dumps (m_entireConfig h)" h log'] by (auto simp: bnd_def getm_def)
  from proxy obtain b h log' where s: "setUpProxy E recorder (g, log) = (Inr b, (h, log'))" "m_hasEntireConfig h" by blast
  have "bnd (getm (\<lambda>g. m_activatedOnce g)) (\<lambda>once. if \<not> once then setUpProxy E recorder else ret True) (g, log) =
    (if m_activatedOnce g then (Inr True, (g, log)) else (Inr b, (h, log')))"
    by (simp add: bnd_def getm_def ret_def s)
  with rest [of h log'] rest [of g log] s assms show ?thesis
    unfolding dbus_activateGateway_def by (cases "m_activatedOnce g"; cases b) (auto simp: andThen_run)
qed

theorem dbus_one_bus_reconfiguration_throws_witness:
  "let d = newDBusGateway example_env ''/gateways'' ''SC-0'';
       d = d\<lparr>sessionBus := (sessionBus d)\<lparr>m_state := ACTIVATED, m_activatedOnce := True\<rparr>,
             systemBus := (systemBus d)\<lparr>m_state := ACTIVATED, m_activatedOnce := True\<rparr>\<rparr>
   in fst (bnd (dbus_setConfig (JArray [bus_element SessionProxy [JObject []]]))
        (\<lambda>_. dbus_activate (\<lambda>_. ''{}'') example_env recorder) (d, [])) = Inl GatewayError"
proof -
  let ?d = "newDBusGateway example_env ''/gateways'' ''SC-0''"
  let ?e = "?d\<lparr>sessionBus := (sessionBus ?d)\<lparr>m_state := ACTIVATED, m_activatedOnce := True\<rparr>,
             systemBus := (systemBus ?d)\<lparr>m_state := ACTIVATED, m_activatedOnce := True\<rparr>\<rparr>"
  have "\<exists>d'. dbus_setConfig (JArray (map (\<lambda>(t, rules). bus_element t rules) [(SessionProxy, [JObject []])])) (?e, [] :: request list) = (Inr True, (d', [])) \<and>
    fst (dbus_activate (\<lambda>_. ''{}'') example_env recorder (d', [])) = Inl GatewayError"
    by (rule dbus_one_bus_reconfiguration_throws) (auto simp: new_dbus dbus_activate_recorder)
  then show ?thesis by (auto simp: Let_def bnd_def)
qed

text \<open>Where the system bus is configured, the result of the activation is that of the system bus
  alone: a system bus that fails makes the whole gateway fail though the session bus is active.\<close>

theorem dbus_activation_is_system_result:
  assumes "activate (dbus_activateGateway json_dumps E C) (sessionBus d, w) = (Inr True, (s, u))"
    and "activate (dbus_activateGateway json_dumps E C) (systemBus d, u) = (Inr b, (y, v))"
    and "isConfigured (sessionBus d)" "isConfigured (systemBus d)"
  shows "dbus_activate json_dumps E C (d, w) = (Inr b, (d\<lparr>sessionBus := s, systemBus := y\<rparr>, v))"
  using assms by (simp add: dbus_activate_def onSession_def onSystem_def act_defs)

text \<open>A container on which the proxy of the system bus cannot be started.\<close>

definition session_only :: "request list container_if" where
  "session_only = recorder\<lparr>ci_call := (\<lambda>c log. (Inr (case c of
      Proc (Spawn argv envp) \<Rightarrow> if last argv = ''session'' then 7 else 0
    | File (WriteFd fd text) \<Rightarrow> int (length text) | _ \<Rightarrow> 0), log @ [Called c]))\<rparr>"

theorem dbus_activation_is_system_result_witness:
  "let d = newDBusGateway example_env ''/gateways'' ''SC-0'';
       d = d\<lparr>sessionBus := (sessionBus d)\<lparr>m_state := CONFIGURED\<rparr>, systemBus := (systemBus d)\<lparr>m_state := CONFIGURED\<rparr>\<rparr>;
       (r, d', log) = dbus_activate (\<lambda>_. ''{}'') example_env session_only (d, [])
   in r = Inr False \<and> m_state (sessionBus d') = ACTIVATED"
proof -
  let ?d = "newDBusGateway example_env ''/gateways'' ''SC-0''"
  let ?s = "(sessionBus ?d)\<lparr>m_state := CONFIGURED\<rparr>" and ?y = "(systemBus ?d)\<lparr>m_state := CONFIGURED\<rparr>"
  let ?e = "?d\<lparr>sessionBus := ?s, systemBus := ?y\<rparr>"
  let ?act = "activate (dbus_activateGateway (\<lambda>_. ''{}'') example_env session_only)"
  obtain qs ks us where rs: "dbus_activateGateway (\<lambda>_. ''{}'') example_env session_only (?s, []) = (qs, (ks, us))"
    by (rule run_exists)
  have qs: "qs = Inr True"
    using rs by (simp add: dbus_activateGateway_def setUpProxy_def startDBusProxy_def testDBusConnection_def
        isSocketCreated_def session_only_def recorder_def act_defs andThen_def Let_def new_dbus example_env_def
        numeral_eq_Suc)
  obtain qy ky uy where ry: "dbus_activateGateway (\<lambda>_. ''{}'') example_env session_only (?y, us) = (qy, (ky, uy))"
    by (rule run_exists)
  have qy: "qy = Inr False"
    using ry by (simp add: dbus_activateGateway_def setUpProxy_def startDBusProxy_def session_only_def recorder_def
        act_defs andThen_def Let_def new_dbus example_env_def)
  have 1: "?act (sessionBus ?e, []) = (Inr True, (ks\<lparr>m_state := ACTIVATED\<rparr>, us))"
    using activate_run [where activateGw = "dbus_activateGateway (\<lambda>_. ''{}'') example_env session_only", OF rs] qs by simp
  have 2: "?act (systemBus ?e, us) = (Inr False, (ky, uy))"
    using activate_run [where activateGw = "dbus_activateGateway (\<lambda>_. ''{}'') example_env session_only", OF ry] qy by simp
  from dbus_activation_is_system_result [OF 1 2] show ?thesis
    by (simp add: Let_def isConfigured_def)
qed

end
