(* ===== verification/FileToolkit.thy ===== *)
theory FileToolkit
  imports Environ
begin

text \<open>
  \<open>CreateDir\<close>, the cleanup handlers and \<open>FileToolkitWithUndo\<close> of \<open>common/\<close>: what is created or
  mounted is noted and undone in the reverse order when the object goes away. A \<open>CreateDir\<close> is the
  list of the directories it has created. The climb of \<open>createDirectory\<close> to the parents ends at a
  directory that exists; it takes fuel, enough for every path whose root is a directory.
\<close>

section \<open>RecursiveDelete and RecursiveCopy\<close>

definition recursiveDelete :: "environment \<Rightarrow> string \<Rightarrow> (calls, bool) act" where
  "recursiveDelete E dir = bnd (sys E (File (Nftw dir))) (\<lambda>r. ret (r = 0))"

text \<open>Where \<open>copyFile\<close> puts a path: \<open>find\<close> looks for the source root anywhere in the path, \<open>erase\<close>
  takes its length off the front.\<close>

definition copyTarget :: "environment \<Rightarrow> string \<Rightarrow> string \<Rightarrow> string \<Rightarrow> string" where
  "copyTarget E srcRoot dstRoot path =
     (if \<exists>n \<in> {0..length path}. take (length srcRoot) (drop n path) = srcRoot
      then buildPath E dstRoot (drop (length srcRoot) path)
      else buildPath E dstRoot path)"

definition recursiveCopy :: "environment \<Rightarrow> string \<Rightarrow> string \<Rightarrow> (calls, bool) act" where
  "recursiveCopy E src dst = bnd (sys E (File (Ftw src dst))) (\<lambda>r. ret (r = 0))"

section \<open>Cleanup handlers\<close>

datatype cleanup_handler =
    DirectoryCleanUp string | FileCleanUp string | MountCleanUp string | OverlaySyncCleanup string string

fun clean :: "environment \<Rightarrow> cleanup_handler \<Rightarrow> (calls, bool) act" where
  "clean E (DirectoryCleanUp path) = bnd (existsInFileSystem E path) (\<lambda>ex.
     if \<not> ex then ret True
     else bnd (recursiveDelete E path) (\<lambda>ok. if ok then ret True else ret False))"
| "clean E (FileCleanUp path) = bnd (sys E (File (Unlink path))) (\<lambda>r. ret (r = 0))"
| "clean E (MountCleanUp path) = bnd (sys E (Mnt (Umount2 path MNT_DETACH))) (\<lambda>r.
     if r = 0 then ret True
     else bnd (sys E (Mnt (Umount2 path MNT_FORCE))) (\<lambda>r. ret (r = 0)))"
| "clean E (OverlaySyncCleanup src dst) = recursiveCopy E src dst"

fun queryName :: "cleanup_handler \<Rightarrow> string" where
  "queryName (DirectoryCleanUp path) = path"
| "queryName (FileCleanUp path) = path"
| "queryName (MountCleanUp path) = ''''"
| "queryName (OverlaySyncCleanup src dst) = ''''"

text \<open>The loop of the destructors: from the back, every handler, whatever the others return.\<close>

fun cleanAll :: "environment \<Rightarrow> cleanup_handler list \<Rightarrow> (calls, unit) act" where
  "cleanAll E [] = ret ()"
| "cleanAll E (c # cs) = bnd (clean E c) (\<lambda>_. cleanAll E cs)"

section \<open>CreateDir\<close>

type_synonym create_dir = "string list"

definition destroyCreateDir :: "environment \<Rightarrow> create_dir \<Rightarrow> (calls, unit) act" where
  "destroyCreateDir E dirs = cleanAll E (map DirectoryCleanUp (rev dirs))"

fun createDirectoryIn :: "environment \<Rightarrow> nat \<Rightarrow> string \<Rightarrow> (create_dir, calls, bool) meth" where
  "createDirectoryIn E 0 path = throw NoReturn"
| "createDirectoryIn E (Suc fuel) path = bnd (ext (isDirectory E path)) (\<lambda>isDir.
     if isDir then ret True
     else bnd (createDirectoryIn E fuel (parentPath path)) (\<lambda>parent.
       if \<not> parent then ret False
       else bnd (ext (sys E (File (Mkdir path)))) (\<lambda>r.
         if r = -1 then ret False
         else seq (updm (\<lambda>cleaners. if path \<in> set cleaners then cleaners else cleaners @ [path])) (ret True))))"

definition createDirectory :: "environment \<Rightarrow> string \<Rightarrow> (create_dir, calls, bool) meth" where
  "createDirectory E path = createDirectoryIn E (length path + 2) path"

text \<open>\<open>Mkdtemp\<close> answers 0 where it fails and the name of the directory otherwise.\<close>

definition createTempDirectoryFromTemplate :: "environment \<Rightarrow> string \<Rightarrow> (create_dir, calls, string) meth" where
  "createTempDirectoryFromTemplate E templ = bnd (ext (sysText E (File (Mkdtemp templ)))) (\<lambda>(r, dir).
     if r = 0 then throw SoftwareContainerError
     else seq (updm (\<lambda>cleaners. cleaners @ [dir])) (ret dir))"

section \<open>FileToolkitWithUndo\<close>

record toolkit =
  m_cleanupHandlers :: "cleanup_handler list"
  m_createDirList :: "create_dir list"

definition addHandler :: "cleanup_handler \<Rightarrow> 'a toolkit_scheme \<Rightarrow> 'a toolkit_scheme" where
  "addHandler c t = t\<lparr>m_cleanupHandlers := m_cleanupHandlers t @ [c]\<rparr>"

text \<open>A function with a local \<open>CreateDir\<close>: it creates directories first and then does the rest of its
  work. On success the \<open>CreateDir\<close> is moved to the list of the toolkit, and on every other way out
  of the function it is destroyed, which removes what it has created.\<close>

definition scopedCreateDir :: "environment \<Rightarrow> (create_dir, calls, bool) meth \<Rightarrow>
    ('a toolkit_scheme, calls, bool) meth \<Rightarrow> ('a toolkit_scheme \<Rightarrow> 'a toolkit_scheme) \<Rightarrow>
    ('a toolkit_scheme, calls, bool) meth" where
  "scopedCreateDir E create rest commit = (\<lambda>(t, h). case create ([], h) of
      (r, (dirs, h')) \<Rightarrow>
        if r \<noteq> Inr True then (r, (t, snd (destroyCreateDir E dirs h')))
        else (case rest (t, h') of (q, (t', h'')) \<Rightarrow>
          if q \<noteq> Inr True then (q, (t', snd (destroyCreateDir E dirs h'')))
          else (Inr True, (commit (t'\<lparr>m_createDirList := m_createDirList t' @ [dirs]\<rparr>), h''))))"

definition withCreateDir :: "environment \<Rightarrow> (create_dir, calls, bool) meth \<Rightarrow>
    ('a toolkit_scheme \<Rightarrow> 'a toolkit_scheme) \<Rightarrow> ('a toolkit_scheme, calls, bool) meth" where
  "withCreateDir E body commit = scopedCreateDir E body (ret True) commit"

definition mount :: "environment \<Rightarrow> string \<Rightarrow> string \<Rightarrow> string \<Rightarrow> mount_flag list \<Rightarrow> string \<Rightarrow> (calls, int) act" where
  "mount E source target fstype flags data = sys E (Mnt (MountCall source target fstype flags data))"

definition overlayOptions :: "string \<Rightarrow> string \<Rightarrow> string \<Rightarrow> string" where
  "overlayOptions lower upper work = ''lowerdir='' @ lower @ '',upperdir='' @ upper @ '',workdir='' @ work"

definition bindMountDirs :: "environment \<Rightarrow> string \<Rightarrow> (create_dir, calls, string \<times> string) meth" where
  "bindMountDirs E tmpContainerRoot =
     (let base = (if tmpContainerRoot = '''' then ''/tmp/sc-'' else tmpContainerRoot @ ''/'') in
      bnd (createTempDirectoryFromTemplate E (base @ ''bindmount-upper-XXXXXX'')) (\<lambda>upper.
        bnd (createTempDirectoryFromTemplate E (base @ ''bindmount-work-XXXXXX'')) (\<lambda>work. ret (upper, work))))"

definition bindMountBody ::
    "environment \<Rightarrow> string \<Rightarrow> string \<Rightarrow> string \<Rightarrow> bool \<Rightarrow> bool \<Rightarrow> (create_dir, calls, bool) meth" where
  "bindMountBody E src dst tmpContainerRoot readOnly writeBufferEnabled =
     andThen (ext (existsInFileSystem E src))
     (andThen (ext (existsInFileSystem E dst))
     (bnd (if writeBufferEnabled then ext (isDirectory E src) else ret False) (\<lambda>overlay.
       let fstype = (if overlay then ''overlay'' else '''') in
       bnd (if overlay
            then bnd (bindMountDirs E tmpContainerRoot) (\<lambda>(upper, work).
                   ext (mount E ''overlay'' dst fstype [] (overlayOptions src upper work)))
            else ext (mount E src dst fstype [MS_BIND] '''')) (\<lambda>mountRes.
         if mountRes \<noteq> 0 then ret False
         else if readOnly \<and> \<not> writeBufferEnabled
         then bnd (ext (mount E src dst fstype [MS_REMOUNT, MS_RDONLY, MS_BIND] '''')) (\<lambda>r. ret (r = 0))
         else ret True))))"

definition bindMount :: "environment \<Rightarrow> string \<Rightarrow> string \<Rightarrow> string \<Rightarrow> bool \<Rightarrow> bool \<Rightarrow>
    ('a toolkit_scheme, calls, bool) meth" where
  "bindMount E src dst tmpContainerRoot readOnly writeBufferEnabled =
     withCreateDir E (bindMountBody E src dst tmpContainerRoot readOnly writeBufferEnabled) (\<lambda>t. t)"

definition overlayMount :: "environment \<Rightarrow> string \<Rightarrow> string \<Rightarrow> string \<Rightarrow> string \<Rightarrow>
    ('a toolkit_scheme, calls, bool) meth" where
  "overlayMount E lower upper work dst = withCreateDir E
     (andThen (createDirectory E lower) (andThen (createDirectory E upper)
       (andThen (createDirectory E work) (andThen (createDirectory E dst)
         (bnd (ext (mount E ''overlay'' dst ''overlay'' [] (overlayOptions lower upper work))) (\<lambda>r. ret (r = 0)))))))
     (\<lambda>t. addHandler (OverlaySyncCleanup upper lower) (addHandler (MountCleanUp dst) t))"

definition syncOverlayMount :: "environment \<Rightarrow> string \<Rightarrow> string \<Rightarrow> (calls, bool) act" where
  "syncOverlayMount E lower upper = recursiveCopy E upper lower"

definition tmpfsMount :: "environment \<Rightarrow> string \<Rightarrow> int \<Rightarrow> ('a toolkit_scheme, calls, bool) meth" where
  "tmpfsMount E dst maxSize = withCreateDir E
     (andThen (createDirectory E dst)
       (bnd (ext (isDirectoryEmpty E dst)) (\<lambda>_.
         bnd (ext (mount E ''tmpfs'' dst ''tmpfs'' [] (''size='' @ to_string maxSize))) (\<lambda>r. ret (r = 0)))))
     (addHandler (MountCleanUp dst))"

definition createSharedMountPoint :: "environment \<Rightarrow> string \<Rightarrow> ('a toolkit_scheme, calls, bool) meth" where
  "createSharedMountPoint E path =
     bnd (ext (mount E path path '''' [MS_BIND] '''')) (\<lambda>r.
       if r \<noteq> 0 then ret False
       else bnd (ext (mount E path path '''' [MS_UNBINDABLE] '''')) (\<lambda>r.
         if r \<noteq> 0 then ret False
         else bnd (ext (mount E path path '''' [MS_SHARED] '''')) (\<lambda>r.
           if r \<noteq> 0 then ret False
           else seq (updm (addHandler (MountCleanUp path))) (ret True))))"

definition pathInList :: "string \<Rightarrow> 'a toolkit_scheme \<Rightarrow> bool" where
  "pathInList path t \<longleftrightarrow> (\<exists>element \<in> set (m_cleanupHandlers t). queryName element = path)"

definition markFileForDeletion :: "string \<Rightarrow> ('a toolkit_scheme, calls, unit) meth" where
  "markFileForDeletion path = updm (\<lambda>t. if \<not> pathInList path t then addHandler (FileCleanUp path) t else t)"

definition toolkit_writeToFile :: "environment \<Rightarrow> string \<Rightarrow> string \<Rightarrow> ('a toolkit_scheme, calls, bool) meth" where
  "toolkit_writeToFile E path content = bnd (ext (writeToFile E path content)) (\<lambda>ok.
     if \<not> ok then ret False else seq (markFileForDeletion path) (ret True))"

text \<open>The destructor, and after it those of the members: the handlers from the back, then the lists of
  created directories.\<close>

definition destroyToolkit :: "environment \<Rightarrow> 'a toolkit_scheme \<Rightarrow> (calls, unit) act" where
  "destroyToolkit E t = seq (cleanAll E (rev (m_cleanupHandlers t)))
     (for_each (destroyCreateDir E) (m_createDirList t))"

section \<open>Lemmas\<close>

text \<open>The directories a trace has tried to create, first to last.\<close>

definition mkdirs :: "calls \<Rightarrow> string list" where
  "mkdirs h = concat (map (\<lambda>c. case c of File (Mkdir p) \<Rightarrow> [p] | _ \<Rightarrow> []) (rev h))"

definition noted :: "create_dir \<Rightarrow> string list \<Rightarrow> create_dir" where
  "noted cl ds = fold (\<lambda>p c. if p \<in> set c then c else c @ [p]) ds cl"

lemma isDirectory_run:
  "isDirectory E path h = (Inr (fst (answer E h (File (Stat path))) = S_IFDIR), File (Stat path) # h)"
  by (auto simp: isDirectory_def getStat_def sys_def act_defs S_IFDIR_def)

lemma mkdirs_Cons: "mkdirs (c # h) = mkdirs h @ (case c of File (Mkdir p) \<Rightarrow> [p] | _ \<Rightarrow> [])"
  by (simp add: mkdirs_def)

lemma createDirectoryIn_chain:
  assumes "createDirectoryIn E fuel path (cl, h) = (r, (cl', h'))"
  shows "\<exists>ds. mkdirs h' = mkdirs h @ ds \<and> successively (\<lambda>p q. p = parentPath q) ds \<and>
    (if r = Inr True then cl' = noted cl ds \<and> (ds = [] \<or> last ds = path)
     else cl' = noted cl ds \<or> cl' = noted cl (butlast ds))"
  using assms
proof (induction fuel arbitrary: path h r cl' h')
  case 0
  then show ?case by (auto simp: throw_def noted_def)
next
  case (Suc fuel)
  let ?h1 = "File (Stat path) # h"
  show ?case
  proof (cases "fst (answer E h (File (Stat path))) = S_IFDIR")
    case True
    with Suc.prems have "r = Inr True" "cl' = cl" "h' = ?h1"
      by (simp_all add: act_defs isDirectory_run)
    then show ?thesis by (intro exI [of _ "[]"]) (simp add: mkdirs_Cons noted_def)
  next
    case False
    obtain rp clp hp where par: "createDirectoryIn E fuel (parentPath path) (cl, ?h1) = (rp, (clp, hp))"
      by (rule run_exists)
    have "mkdirs ?h1 = mkdirs h" by (simp add: mkdirs_Cons)
    with Suc.IH [OF par]
    obtain ds where ds: "mkdirs hp = mkdirs h @ ds" "successively (\<lambda>p q. p = parentPath q) ds"
      "if rp = Inr True then clp = noted cl ds \<and> (ds = [] \<or> last ds = parentPath path)
       else clp = noted cl ds \<or> clp = noted cl (butlast ds)" by auto
    show ?thesis
    proof (cases "rp = Inr True")
      case False
      with Suc.prems par \<open>fst _ \<noteq> _\<close> have "r = rp" "cl' = clp" "h' = hp"
        by (auto simp: act_defs isDirectory_run split: sum.splits if_splits)
      with ds False show ?thesis by auto
    next
      case True
      let ?ok = "fst (answer E hp (File (Mkdir path))) \<noteq> -1"
      from Suc.prems par True \<open>fst _ \<noteq> _\<close> have
        h': "h' = File (Mkdir path) # hp" and r: "r = Inr ?ok" and
        cl': "cl' = (if ?ok then noted clp [path] else clp)"
        by (auto simp: act_defs isDirectory_run sys_def noted_def split: if_splits)
      have "successively (\<lambda>p q. p = parentPath q) (ds @ [path])"
        using ds True by (auto simp: successively_append_iff)
      moreover have "noted clp [path] = noted cl (ds @ [path])" "clp = noted cl ds"
        using ds True by (simp_all add: noted_def)
      moreover have "mkdirs h' = mkdirs h @ (ds @ [path])" using ds(1) by (simp add: h' mkdirs_Cons)
      ultimately show ?thesis using r cl' by (intro exI [of _ "ds @ [path]"]) auto
    qed
  qed
qed

lemma createDirectoryIn_returns:
  assumes "\<And>h. fst (answer E h (File (Stat ''/''))) = S_IFDIR" "\<And>h. fst (answer E h (File (Stat ''.''))) = S_IFDIR"
  shows "length path + 2 \<le> fuel \<or> path \<in> {''/'', ''.''} \<and> 0 < fuel \<Longrightarrow>
    \<exists>b. fst (createDirectoryIn E fuel path (cl, h)) = Inr b"
proof (induction fuel arbitrary: path h)
  case (Suc fuel)
  let ?h1 = "File (Stat path) # h"
  show ?case
  proof (cases "fst (answer E h (File (Stat path))) = S_IFDIR")
    case True
    then show ?thesis by (auto simp: act_defs isDirectory_run)
  next
    case False
    with assms have "path \<notin> {''/'', ''.''}" by auto
    with Suc.prems have len: "length path + 1 \<le> fuel" by simp
    have "length (parentPath path) + 2 \<le> fuel \<or> parentPath path \<in> {''/'', ''.''} \<and> 0 < fuel"
    proof (cases "parentPath path \<in> {''/'', ''.''}")
      case False
      then have "length (parentPath path) < length path" by (intro parentPath_shorter) auto
      with len show ?thesis by simp
    qed (use len in auto)
    from Suc.IH [OF this, of ?h1] obtain b where b: "fst (createDirectoryIn E fuel (parentPath path) (cl, ?h1)) = Inr b"
      by blast
    obtain clp hp where "createDirectoryIn E fuel (parentPath path) (cl, ?h1) = (Inr b, (clp, hp))"
      using b by (metis prod.collapse)
    with False show ?thesis by (auto simp: act_defs isDirectory_run sys_def split: prod.splits)
  qed
qed simp

text \<open>The calls that undo what a handler stands for, where they succeed.\<close>

fun undone :: "cleanup_handler \<Rightarrow> calls" where
  "undone (DirectoryCleanUp path) = [File (Stat path), File (Nftw path)]"
| "undone (FileCleanUp path) = [File (Unlink path)]"
| "undone (MountCleanUp path) = [Mnt (Umount2 path MNT_DETACH)]"
| "undone (OverlaySyncCleanup src dst) = [File (Ftw src dst)]"

lemma clean_run:
  assumes "\<And>h c. fst (answer E h c) = 0"
  shows "clean E c h = (Inr True, rev (undone c) @ h)"
  using assms
  by (cases c) (simp_all add: existsInFileSystem_def getStat_def recursiveDelete_def recursiveCopy_def act_defs sys_def)

lemma cleanAll_run:
  assumes "\<And>h c. fst (answer E h c) = 0"
  shows "cleanAll E cs h = (Inr (), rev (concat (map undone cs)) @ h)"
  by (induction cs arbitrary: h) (simp_all add: clean_run [OF assms] act_defs)

lemma for_each_run:
  assumes "\<And>x h. f x h = (Inr (), rev (g x) @ h)"
  shows "for_each f xs h = (Inr (), rev (concat (map g xs)) @ h)"
  by (induction xs arbitrary: h) (simp_all add: assms act_defs)

section \<open>Properties\<close>

text \<open>C26: Creating a directory always returns where the root and the current directory exist, however
  long the path is: every step of the climb to the parents shortens it.\<close>

theorem create_directory_returns:
  assumes "\<And>h. fst (answer E h (File (Stat ''/''))) = S_IFDIR" "\<And>h. fst (answer E h (File (Stat ''.''))) = S_IFDIR"
  shows "\<exists>b. fst (createDirectory E path (dirs, h)) = Inr b"
  unfolding createDirectory_def by (rule createDirectoryIn_returns [OF assms]) simp_all

text \<open>An environment in which the root, the current directory and what has been created are directories
  and every call succeeds.\<close>

definition plain_env :: environment where
  "plain_env = \<lparr>answer = (\<lambda>h c. (case c of
       File (Stat p) \<Rightarrow> if p \<in> {''/'', ''.''} \<or> File (Mkdir p) \<in> set h then S_IFDIR else -1 | _ \<Rightarrow> 0, '''')),
     build_filename = (\<lambda>a b. a @ ''/'' @ b), path_get_basename = (\<lambda>p. p),
     shell_parse_argv = (\<lambda>_. None), getenv = (\<lambda>_. None)\<rparr>"

theorem create_directory_returns_witness:
  "\<exists>b. fst (createDirectory plain_env ''/a/b'' ([], [])) = Inr b"
  by (rule create_directory_returns) (simp_all add: plain_env_def)

text \<open>However creating a directory ends, the directories it has tried to create form a chain, each
  the parent of the next; on success the chain ends with the directory itself and all of it is noted
  for removal, and otherwise what is noted leaves out at most the last one.\<close>

theorem create_directory_chain:
  assumes "createDirectory E path (dirs, h) = (r, (dirs', h'))"
  shows "\<exists>ds. mkdirs h' = mkdirs h @ ds \<and> successively (\<lambda>p q. p = parentPath q) ds \<and>
    (if r = Inr True then dirs' = noted dirs ds \<and> (ds = [] \<or> last ds = path)
     else dirs' = noted dirs ds \<or> dirs' = noted dirs (butlast ds))"
  using createDirectoryIn_chain assms unfolding createDirectory_def by blast

theorem create_directory_chain_witness:
  "\<exists>r dirs' h' ds. createDirectory plain_env ''/a/b'' ([], []) = (r, (dirs', h')) \<and> mkdirs h' = ds \<and>
    successively (\<lambda>p q. p = parentPath q) ds"
proof -
  obtain r dirs' h' where run: "createDirectory plain_env ''/a/b'' ([], []) = (r, (dirs', h'))" by (rule run_exists)
  from create_directory_chain [OF run] run show ?thesis by (auto simp: mkdirs_def)
qed



section \<open>What the toolkit leaves alone\<close>

text \<open>A property of the object alone that its list of created directories has no part in.\<close>

definition stable :: "('a toolkit_scheme \<times> calls \<Rightarrow> bool) \<Rightarrow> bool" where
  "stable I \<longleftrightarrow> (\<forall>c h h'. I (c, h) \<longrightarrow> I (c, h')) \<and> (\<forall>c h ds. I (c, h) \<longrightarrow> I (c\<lparr>m_createDirList := ds\<rparr>, h))"

lemma stable_ext: "stable I \<Longrightarrow> keeps I (ext m)"
  unfolding stable_def by (intro keeps_ext) blast

lemma keeps_scoped:
  assumes "stable I" "keeps I rest" "\<And>c h. I (c, h) \<Longrightarrow> I (commit c, h)"
  shows "keeps I (scopedCreateDir E create rest commit)"
proof (rule keepsI)
  fix s assume I: "I s"
  obtain c h where s: "s = (c, h)" by (rule prod.exhaust)
  obtain q dirs h1 where cr: "create ([], h) = (q, (dirs, h1))" by (rule run_exists)
  obtain p c2 h2 where re: "rest (c, h1) = (p, (c2, h2))" by (rule run_exists)
  have c: "I (c, k)" for k using I assms(1) by (auto simp: s stable_def)
  then have "I (c2, h2)" using keepsD [OF assms(2) _ re] by blast
  with assms(1) have "I (c2, k)" "I (c2\<lparr>m_createDirList := ds\<rparr>, k)" for k ds unfolding stable_def by blast+
  with c assms(3) show "I (snd (scopedCreateDir E create rest commit s))"
    by (cases q; cases p) (auto simp: scopedCreateDir_def s cr re)
qed

end
