(* ===== verification/LxcContainer.thy ===== *)
theory LxcContainer
  imports FileToolkit ContainerInterface
begin

text \<open>
  The class \<open>Container\<close> of \<open>libsoftwarecontainer/src/container.cpp\<close> over LXC, with the jobs of
  \<open>src/jobs\<close> that run in it. \<open>m_container\<close> is the handle of LXC, of which the model keeps whether it
  is there; using it where it is not is \<open>UndefinedBehaviour\<close>. A function that is executed in the
  container makes its calls between \<open>LxcAttach\<close> and \<open>WaitPid\<close>. The queries that are made only to
  write a log message are left out.
\<close>

section \<open>State\<close>

datatype ContainerState = DEFAULT | PREPARED | DESTROYED | CONTAINER_CREATED | STARTED | FROZEN

instantiation ContainerState :: linorder
begin

fun container_state_number :: "ContainerState \<Rightarrow> nat" where
  "container_state_number DEFAULT = 0"
| "container_state_number PREPARED = 1"
| "container_state_number DESTROYED = 2"
| "container_state_number CONTAINER_CREATED = 3"
| "container_state_number STARTED = 4"
| "container_state_number FROZEN = 5"

definition less_eq_ContainerState :: "ContainerState \<Rightarrow> ContainerState \<Rightarrow> bool" where
  "less_eq_ContainerState a b \<longleftrightarrow> container_state_number a \<le> container_state_number b"

definition less_ContainerState :: "ContainerState \<Rightarrow> ContainerState \<Rightarrow> bool" where
  "less_ContainerState a b \<longleftrightarrow> container_state_number a < container_state_number b"

instance
proof
  fix a b :: ContainerState
  show "a \<le> b \<Longrightarrow> b \<le> a \<Longrightarrow> a = b"
    by (cases a; cases b) (simp_all add: less_eq_ContainerState_def)
qed (auto simp: less_eq_ContainerState_def less_ContainerState_def)

end

record container = toolkit +
  c_configFile :: string
  c_id :: string
  c_rootFSPath :: string
  c_hasContainer :: bool
  c_containerRoot :: string
  c_writeBufferEnabled :: bool
  c_gatewayEnvironmentVariables :: "(string, string) std_map"
  c_shutdownTimeout :: int
  c_state :: ContainerState

definition newContainer :: "string \<Rightarrow> string \<Rightarrow> string \<Rightarrow> bool \<Rightarrow> int \<Rightarrow> container" where
  "newContainer cid configFile containerRoot writeBufferEnabled shutdownTimeout =
     toolkit.extend \<lparr>m_cleanupHandlers = [], m_createDirList = []\<rparr>
       (container.fields configFile cid '''' False containerRoot writeBufferEnabled [] shutdownTimeout DEFAULT)"

type_synonym 'a container_meth = "(container, calls, 'a) meth"

definition GATEWAYS_PATH :: string where "GATEWAYS_PATH = ''/gateways''"

definition gatewaysDir :: "environment \<Rightarrow> container \<Rightarrow> string" where
  "gatewaysDir E c = buildPath E (c_containerRoot c) GATEWAYS_PATH"

definition gatewaysDirInContainer :: string where
  "gatewaysDirInContainer = GATEWAYS_PATH"

definition setState :: "ContainerState \<Rightarrow> unit container_meth" where
  "setState st = updm (c_state_update (\<lambda>_. st))"

text \<open>A call through the handle, and one whose answer is a string.\<close>

definition lxc :: "environment \<Rightarrow> lxc_call \<Rightarrow> int container_meth" where
  "lxc E call = bnd (getm c_hasContainer) (\<lambda>present.
     if \<not> present then throw UndefinedBehaviour else ext (sys E (Lxc call)))"

definition lxcText :: "environment \<Rightarrow> lxc_call \<Rightarrow> string container_meth" where
  "lxcText E call = bnd (getm c_hasContainer) (\<lambda>present.
     if \<not> present then throw UndefinedBehaviour else bnd (ext (sysText E (Lxc call))) (\<lambda>(_, s). ret s))"

section \<open>Creating and starting\<close>

definition container_initialize :: "environment \<Rightarrow> bool container_meth" where
  "container_initialize E = bnd (getm (\<lambda>c. c)) (\<lambda>c.
     if c_state c < PREPARED
     then scopedCreateDir E (createDirectory E (gatewaysDir E c)) (createSharedMountPoint E (gatewaysDir E c))
            (c_state_update (\<lambda>_. PREPARED))
     else ret True)"

definition rollbackCreate :: "environment \<Rightarrow> bool container_meth" where
  "rollbackCreate E = bnd (getm c_hasContainer) (\<lambda>present.
     if present then bnd (lxc E LxcPut) (\<lambda>_. seq (updm (c_hasContainer_update (\<lambda>_. False))) (ret False))
     else ret False)"

definition mountRootFS :: "environment \<Rightarrow> unit container_meth" where
  "mountRootFS E = bnd (getm (\<lambda>c. c)) (\<lambda>c.
     if c_writeBufferEnabled c
     then bnd (overlayMount E (c_containerRoot c @ ''/rootfs-lower'') (c_containerRoot c @ ''/rootfs-upper'')
                 (c_containerRoot c @ ''/rootfs-work'') (c_rootFSPath c)) (\<lambda>_. ret ())
     else ret ())"

definition container_create :: "environment \<Rightarrow> string \<Rightarrow> string \<Rightarrow> bool container_meth" where
  "container_create E s_LXCRoot lxcTemplate = bnd (getm (\<lambda>c. c)) (\<lambda>c.
     if c_state c \<ge> CONTAINER_CREATED then ret False
     else if c_id c = '''' then ret False
     else bnd (ext (sys E (Proc (Setenv ''GATEWAY_DIR'' (gatewaysDir E c))))) (\<lambda>_.
       bnd (ext (sys E (Lxc (LxcNew (c_id c))))) (\<lambda>r.
       seq (updm (c_hasContainer_update (\<lambda>_. r \<noteq> 0)))
      (if r = 0 then rollbackCreate E
       else bnd (lxc E LxcIsDefined) (\<lambda>defined.
       if defined \<noteq> 0 then rollbackCreate E
       else bnd (lxc E (LxcLoadConfig (c_configFile c))) (\<lambda>loaded.
       if loaded = 0 then rollbackCreate E
       else seq (updm (c_rootFSPath_update (\<lambda>_. buildPath3 E s_LXCRoot (c_id c) ''rootfs'')))
           (seq (mountRootFS E)
           (bnd (lxc E (LxcCreate lxcTemplate)) (\<lambda>created.
            if created = 0 then seq (updm (c_rootFSPath_update (\<lambda>_. ''''))) (rollbackCreate E)
            else seq (setState CONTAINER_CREATED) (ret True))))))))))"

text \<open>The names LXC gives to the states the code waits for, and the default timeout.\<close>

definition RUNNING :: string where "RUNNING = ''RUNNING''"
definition STOPPED :: string where "STOPPED = ''STOPPED''"
definition default_timeout :: int where "default_timeout = 20"

text \<open>\<open>LxcWait\<close> answers what the function \<open>wait\<close> of LXC returns; the code takes it for whether the
  timeout has expired.\<close>

definition waitForState :: "environment \<Rightarrow> string \<Rightarrow> int \<Rightarrow> bool container_meth" where
  "waitForState E state timeout = bnd (lxcText E LxcState) (\<lambda>currentState.
     if currentState \<noteq> state
     then bnd (lxc E (LxcWait state timeout)) (\<lambda>expired. if expired \<noteq> 0 then ret False else ret True)
     else ret True)"

definition ensureContainerRunning :: "environment \<Rightarrow> bool container_meth" where
  "ensureContainerRunning E = bnd (getm c_state) (\<lambda>state.
     if FROZEN = state then ret False
     else if state < STARTED then ret False
     else bnd (lxc E LxcIsRunning) (\<lambda>running.
       if running = 0 then waitForState E RUNNING default_timeout else ret True))"

definition container_start :: "environment \<Rightarrow> (bool \<times> int) container_meth" where
  "container_start E = bnd (getm c_state) (\<lambda>state.
     if state < CONTAINER_CREATED then ret (False, INVALID_PID)
     else bnd (lxc E (LxcStart [''env'', ''/bin/sleep'', ''100000000''])) (\<lambda>started.
       if started = 0 then ret (False, INVALID_PID)
       else bnd (lxc E LxcInitPid) (\<lambda>pid.
         seq (setState STARTED) (bnd (ensureContainerRunning E) (\<lambda>ok. ret (ok, pid))))))"

section \<open>Executing\<close>

text \<open>The process that runs in the container: \<open>Some v\<close> where the function returns \<open>v\<close>, which becomes
  the exit value, and \<open>None\<close> where the process image has been replaced.\<close>

type_synonym exec_function = "(calls, int option) act"

definition function_job :: "(calls, int) act \<Rightarrow> exec_function" where
  "function_job f = bnd f (\<lambda>v. ret (Some v))"

text \<open>\<open>Getrlimit\<close> and \<open>Setrlimit\<close> answer 0 or the number of the error.\<close>

definition unlimitCoreDump :: "environment \<Rightarrow> (calls, int) act" where
  "unlimitCoreDump E = bnd (sys E (Proc Getrlimit)) (\<lambda>r. if r \<noteq> 0 then ret r else sys E (Proc Setrlimit))"

definition executeInContainerEntryFunction :: "environment \<Rightarrow> exec_function \<Rightarrow> exec_function" where
  "executeInContainerEntryFunction E f = bnd (unlimitCoreDump E) (\<lambda>canCoreDump.
     if canCoreDump \<noteq> 0 then ret (Some canCoreDump) else f)"

definition actualVariables ::
    "(string, string) std_map \<Rightarrow> (string, string) std_map \<Rightarrow> (string, string) std_map" where
  "actualVariables gatewayVariables variables = foldl (\<lambda>acc (n, v).
     (case map_of variables n of Some v' \<Rightarrow> put n v' acc | None \<Rightarrow> put n v acc)) variables gatewayVariables"

definition env_strings :: "(string, string) std_map \<Rightarrow> string list" where
  "env_strings vars = map (\<lambda>(n, v). n @ ''='' @ v) vars"

text \<open>\<open>LxcAttach\<close> answers the ID of the attached process and a number below 1 where it fails. The
  result is whether the attach succeeded, the process ID, which otherwise is the one given, and how
  the function ended.\<close>

definition executeFunction :: "environment \<Rightarrow> exec_function \<Rightarrow> int \<Rightarrow> (string, string) std_map \<Rightarrow>
    int \<Rightarrow> int \<Rightarrow> int \<Rightarrow> (bool \<times> int \<times> int option) container_meth" where
  "executeFunction E f pid variables sin sout serr = bnd (ensureContainerRunning E) (\<lambda>running.
     if \<not> running then ret (False, pid, None)
     else bnd (getm c_gatewayEnvironmentVariables) (\<lambda>gw.
       bnd (lxc E (LxcAttach (env_strings (actualVariables gw variables)) sin sout serr)) (\<lambda>newPid.
         if newPid < 1 then ret (False, pid, None)
         else bnd (ext (executeInContainerEntryFunction E f)) (\<lambda>v. ret (True, newPid, v)))))"

text \<open>Waiting for the process: one that has returned from its function and is not killed has its value
  for exit status.\<close>

definition waitForFunction :: "environment \<Rightarrow> int \<Rightarrow> int option \<Rightarrow> int container_meth" where
  "waitForFunction E pid v = bnd (ext (sys E (Proc (WaitPid pid)))) (\<lambda>status.
     ret (WEXITSTATUS (case v of Some x \<Rightarrow> if status = 0 then exit_status x else status | None \<Rightarrow> status)))"

definition executeSync :: "environment \<Rightarrow> (calls, int) act \<Rightarrow> int \<Rightarrow> (bool \<times> int) container_meth" where
  "executeSync E f pid = bnd (executeFunction E (function_job f) pid [] (-1) 1 2) (\<lambda>(execResult, pid', v).
     bnd (waitForFunction E pid' v) (\<lambda>status. ret (execResult \<and> status = 0, pid')))"

definition command_function :: "environment \<Rightarrow> string list \<Rightarrow> string \<Rightarrow> exec_function" where
  "command_function E args workingDirectory =
     bnd (if workingDirectory \<noteq> '''' then bnd (sys E (File (Chdir workingDirectory))) (\<lambda>_. ret ()) else ret ())
       (\<lambda>_. bnd (sys E (Proc (Execvp args))) (\<lambda>r. if r = 0 then ret None else ret (Some 1)))"

definition executeCommand :: "environment \<Rightarrow> string \<Rightarrow> int \<Rightarrow> (string, string) std_map \<Rightarrow> string \<Rightarrow>
    int \<Rightarrow> int \<Rightarrow> int \<Rightarrow> (bool \<times> int \<times> int option) container_meth" where
  "executeCommand E commandLine pid variables workingDirectory sin sout serr =
     bnd (ensureContainerRunning E) (\<lambda>running.
       if \<not> running then ret (False, pid, None)
       else (case shell_parse_argv E commandLine of
           None \<Rightarrow> throw GlibError
         | Some args \<Rightarrow> executeFunction E (command_function E args workingDirectory) pid variables sin sout serr))"

section \<open>Stopping\<close>

definition container_stop :: "environment \<Rightarrow> bool container_meth" where
  "container_stop E = bnd (getm c_state) (\<lambda>state.
     if state \<ge> STARTED
     then bnd (lxc E LxcStop) (\<lambda>stopped.
       if stopped \<noteq> 0 then bnd (waitForState E STOPPED default_timeout) (\<lambda>_. ret True) else ret False)
     else ret False)"

definition SIGTERM :: int where "SIGTERM = 15"

definition container_shutdown :: "environment \<Rightarrow> int \<Rightarrow> bool container_meth" where
  "container_shutdown E timeout = bnd (getm c_state) (\<lambda>state.
     if state < STARTED then ret False
     else bnd (lxc E LxcInitPid) (\<lambda>pid.
       seq (if pid \<noteq> INVALID_PID
            then bnd (lxc E LxcInitPid) (\<lambda>pid. bnd (ext (sys E (Proc (Kill pid SIGTERM)))) (\<lambda>_. ret ()))
            else ret ())
      (bnd (lxc E (LxcShutdown timeout)) (\<lambda>success.
       andThen (if success = 0 then container_stop E else ret True)
         (seq (setState CONTAINER_CREATED) (ret True))))))"

definition container_destroy :: "environment \<Rightarrow> int \<Rightarrow> bool container_meth" where
  "container_destroy E timeout = bnd (getm c_state) (\<lambda>state.
     if state < CONTAINER_CREATED then ret False
     else andThen (if state \<ge> STARTED then container_shutdown E timeout else ret True)
      (bnd (getm (\<lambda>c. c)) (\<lambda>c.
       andThen (if c_writeBufferEnabled c
                then bnd (ext (sys E (Mnt (Umount (c_rootFSPath c))))) (\<lambda>r. ret (r \<noteq> -1)) else ret True)
         (bnd (lxc E LxcDestroy) (\<lambda>success.
           if success = 0 then ret False else seq (setState DESTROYED) (ret True))))))"

definition container_suspend :: "environment \<Rightarrow> bool container_meth" where
  "container_suspend E = bnd (getm c_state) (\<lambda>state.
     if state < STARTED then ret False
     else if state = FROZEN then ret False
     else bnd (lxc E LxcFreeze) (\<lambda>retval.
       if retval = 0 then throw SoftwareContainerError else seq (setState FROZEN) (ret True)))"

definition container_resume :: "environment \<Rightarrow> bool container_meth" where
  "container_resume E = bnd (getm c_state) (\<lambda>state.
     if state < FROZEN then ret False
     else bnd (lxc E LxcUnfreeze) (\<lambda>retval.
       if retval = 0 then throw SoftwareContainerError else seq (setState STARTED) (ret True)))"

text \<open>The destructor of \<open>Container\<close> and then that of the toolkit.\<close>

definition destroyContainer :: "environment \<Rightarrow> unit container_meth" where
  "destroyContainer E = bnd (getm (\<lambda>c. c)) (\<lambda>c.
     seq (if c_hasContainer c
          then bnd (if c_state c \<ge> STARTED then container_shutdown E (c_shutdownTimeout c) else ret True) (\<lambda>_.
               bnd (getm c_state) (\<lambda>state.
               bnd (if state \<ge> CONTAINER_CREATED then container_destroy E (c_shutdownTimeout c) else ret True) (\<lambda>_.
               bnd (lxc E LxcPut) (\<lambda>_. updm (c_hasContainer_update (\<lambda>_. False))))))
          else ret ())
      (bnd (getm (\<lambda>c. c)) (\<lambda>c. ext (destroyToolkit E c))))"

section \<open>What the gateways ask for\<close>

definition container_setCgroupItem :: "environment \<Rightarrow> string \<Rightarrow> string \<Rightarrow> bool container_meth" where
  "container_setCgroupItem E subsys val = bnd (lxc E (LxcSetCgroupItem subsys val)) (\<lambda>r. ret (r \<noteq> 0))"

definition container_mountDevice :: "environment \<Rightarrow> string \<Rightarrow> bool container_meth" where
  "container_mountDevice E pathInHost = bnd (ensureContainerRunning E) (\<lambda>running.
     if \<not> running then ret False else bnd (lxc E (LxcAddDeviceNode pathInHost)) (\<lambda>r. ret (r \<noteq> 0)))"

definition exports :: "(string, string) std_map \<Rightarrow> string" where
  "exports vars = concat (map (\<lambda>(n, v). ''export '' @ n @ ''='' @ [CHR 0x27] @ v @ [CHR 0x27, CHR 0x0A]) vars)"

definition container_setEnvironmentVariable :: "environment \<Rightarrow> string \<Rightarrow> string \<Rightarrow> bool container_meth" where
  "container_setEnvironmentVariable E var val = bnd (getm c_state) (\<lambda>state.
     if state < CONTAINER_CREATED then ret False
     else seq (updm (c_gatewayEnvironmentVariables_update (put var val)))
      (bnd (getm (\<lambda>c. c)) (\<lambda>c.
       bnd (toolkit_writeToFile E (buildPath E (gatewaysDir E c) ''env'') (exports (c_gatewayEnvironmentVariables c)))
         (\<lambda>_. ret True))))"

text \<open>The functions that run in the container: the walk over its mounts, which takes fuel, and the
  creation of directories, for which the length of the path is fuel enough.\<close>

fun mountedLoop :: "environment \<Rightarrow> nat \<Rightarrow> string \<Rightarrow> (calls, int) act" where
  "mountedLoop E 0 path = throw NoReturn"
| "mountedLoop E (Suc fuel) path = bnd (sysText E (Mnt GetMntent)) (\<lambda>(r, dir).
     if r = 0 then ret 0 else if dir = path then ret (-1) else mountedLoop E fuel path)"

definition checkMounted :: "environment \<Rightarrow> nat \<Rightarrow> string \<Rightarrow> (calls, int) act" where
  "checkMounted E fuel path = bnd (sys E (Mnt (SetMntent ''/proc/mounts''))) (\<lambda>_. mountedLoop E fuel path)"

fun missingPaths :: "environment \<Rightarrow> nat \<Rightarrow> string \<Rightarrow> string list \<Rightarrow> (calls, string list) act" where
  "missingPaths E 0 path paths = throw NoReturn"
| "missingPaths E (Suc fuel) path paths = bnd (isDirectory E path) (\<lambda>isDir.
     if isDir then ret paths else missingPaths E fuel (parentPath path) (path # paths))"

fun makePaths :: "environment \<Rightarrow> string list \<Rightarrow> (calls, int) act" where
  "makePaths E [] = ret 0"
| "makePaths E (p # ps) = bnd (sys E (File (Mkdir p))) (\<lambda>r. if r = -1 then ret 1 else makePaths E ps)"

definition createParentDirectories :: "environment \<Rightarrow> string \<Rightarrow> (calls, int) act" where
  "createParentDirectories E path = bnd (missingPaths E (length path + 2) path []) (makePaths E)"

definition remountReadOnlyInContainer :: "environment \<Rightarrow> string \<Rightarrow> bool container_meth" where
  "remountReadOnlyInContainer E path =
     bnd (executeSync E (mount E path path '''' [MS_REMOUNT, MS_RDONLY, MS_BIND] '''') INVALID_PID)
       (\<lambda>(ok, _). ret ok)"

text \<open>Moving the mount to the path in the container; the process ID is handed from job to job.\<close>

definition moveMount :: "environment \<Rightarrow> string \<Rightarrow> string \<Rightarrow> string \<Rightarrow> bool container_meth" where
  "moveMount E pathInContainer tempOnHost tempInContainer =
     bnd (executeSync E (createParentDirectories E (parentPath pathInContainer)) INVALID_PID) (\<lambda>(ok, pid).
     if \<not> ok then ret False
     else bnd (ext (isDirectory E tempOnHost)) (\<lambda>isDir.
       bnd (if isDir then executeSync E (createParentDirectories E pathInContainer) pid
            else executeSync E (bnd (touch E pathInContainer) (\<lambda>ok. ret (if ok then 0 else 1))) pid) (\<lambda>(ok, pid).
       if \<not> ok then ret False
       else bnd (executeSync E (mount E tempInContainer pathInContainer '''' [MS_MOVE] '''') pid) (\<lambda>(ok, _). ret ok))))"

definition bindMountCore :: "environment \<Rightarrow> string \<Rightarrow> string \<Rightarrow> string \<Rightarrow> bool \<Rightarrow> bool container_meth" where
  "bindMountCore E pathInHost pathInContainer tempOnHost readonly =
     andThen (ensureContainerRunning E)
      (if pathInContainer = '''' then throw UndefinedBehaviour
       else if hd pathInContainer \<noteq> CHR ''/'' then ret False
       else bnd (getm (\<lambda>c. c)) (\<lambda>c.
         andThen (bindMount E pathInHost tempOnHost (c_containerRoot c) readonly (c_writeBufferEnabled c))
          (let tempInContainer = buildPath E gatewaysDirInContainer (baseName E pathInContainer) in
           andThen (if tempInContainer \<noteq> pathInContainer
                    then moveMount E pathInContainer tempOnHost tempInContainer else ret True)
             (if readonly then remountReadOnlyInContainer E pathInContainer else ret True))))"

text \<open>The directory or the file to mount to, the mount, and what is done where it fails.\<close>

definition prepareTarget :: "environment \<Rightarrow> bool \<Rightarrow> string \<Rightarrow> bool \<Rightarrow> (create_dir, calls, bool) meth" where
  "prepareTarget E isDir tempPath known =
     (if isDir then createDirectory E tempPath
      else if \<not> known then ext (touch E tempPath) else ret True)"

definition mountOrRollback :: "environment \<Rightarrow> string \<Rightarrow> string \<Rightarrow> string \<Rightarrow> bool \<Rightarrow> bool container_meth" where
  "mountOrRollback E pathInHost pathInContainer tempPath readOnly =
     bnd (bindMountCore E pathInHost pathInContainer tempPath readOnly) (\<lambda>ok.
       if ok then ret True else bnd (ext (clean E (MountCleanUp tempPath))) (\<lambda>_. ret False))"

definition container_bindMountInContainer ::
    "environment \<Rightarrow> nat \<Rightarrow> string \<Rightarrow> string \<Rightarrow> bool \<Rightarrow> bool container_meth" where
  "container_bindMountInContainer E fuel pathInHost pathInContainer readOnly =
     andThen (ext (existsInFileSystem E pathInHost))
     (andThen (bnd (executeSync E (checkMounted E fuel pathInContainer) INVALID_PID) (\<lambda>(ok, _). ret ok))
       (bnd (getm (\<lambda>c. c)) (\<lambda>c.
         let tempPath = buildPath E (gatewaysDir E c) (baseName E pathInContainer) in
         bnd (ext (isDirectory E pathInHost)) (\<lambda>isDir.
           scopedCreateDir E (prepareTarget E isDir tempPath (pathInList tempPath c))
             (mountOrRollback E pathInHost pathInContainer tempPath readOnly)
             (\<lambda>c. addHandler (MountCleanUp tempPath) (if isDir then c else addHandler (FileCleanUp tempPath) c))))))"

section \<open>Jobs\<close>

text \<open>\<open>FunctionJob\<close> and \<open>CommandJob\<close>: the process ID is 0 until a start succeeds, and \<open>wait\<close> waits for
  it in any case.\<close>

record job =
  j_env :: "(string, string) std_map"
  j_exitStatus :: int
  j_pid :: int
  j_stdin :: int
  j_stdout :: int
  j_stderr :: int
  j_value :: "int option"

definition newJob :: job where
  "newJob = \<lparr>j_env = [], j_exitStatus = -1, j_pid = 0, j_stdin = -1, j_stdout = -1, j_stderr = -1, j_value = None\<rparr>"

definition startFunctionJob :: "environment \<Rightarrow> exec_function \<Rightarrow> job \<Rightarrow> (bool \<times> job) container_meth" where
  "startFunctionJob E f j =
     bnd (executeFunction E f (j_pid j) (j_env j) (j_stdin j) (j_stdout j) (j_stderr j)) (\<lambda>(ok, pid, v).
       ret (ok, j\<lparr>j_pid := pid, j_value := v\<rparr>))"

definition startCommandJob :: "environment \<Rightarrow> string \<Rightarrow> string \<Rightarrow> job \<Rightarrow> (bool \<times> job) container_meth" where
  "startCommandJob E command workingDirectory j =
     bnd (executeCommand E command (j_pid j) (j_env j) workingDirectory (j_stdin j) (j_stdout j) (j_stderr j))
       (\<lambda>(ok, pid, v). ret (ok, j\<lparr>j_pid := pid, j_value := v\<rparr>))"

definition waitJob :: "environment \<Rightarrow> job \<Rightarrow> (int \<times> job) container_meth" where
  "waitJob E j = bnd (waitForFunction E (j_pid j) (j_value j)) (\<lambda>status.
     ret (status, j\<lparr>j_exitStatus := status\<rparr>))"

definition isSuccess :: "job \<Rightarrow> bool" where
  "isSuccess j \<longleftrightarrow> j_exitStatus j = 0"

definition isError :: "job \<Rightarrow> bool" where
  "isError j \<longleftrightarrow> \<not> isSuccess j"

definition isRunning :: "job \<Rightarrow> bool" where
  "isRunning j \<longleftrightarrow> j_pid j \<noteq> 0"

definition job_setEnvironmentVariable :: "string \<Rightarrow> string \<Rightarrow> job \<Rightarrow> job" where
  "job_setEnvironmentVariable k v j = j\<lparr>j_env := put k v (j_env j)\<rparr>"

definition job_setEnvironmentVariables :: "(string, string) std_map \<Rightarrow> job \<Rightarrow> job" where
  "job_setEnvironmentVariables vars j = j\<lparr>j_env := vars\<rparr>"

text \<open>What the gateways do with a job: construct, start, wait, look at the exit status.\<close>

definition runFunctionJob :: "environment \<Rightarrow> (calls, int) act \<Rightarrow> int container_meth" where
  "runFunctionJob E f = bnd (startFunctionJob E (function_job f) newJob) (\<lambda>(_, j).
     bnd (waitJob E j) (\<lambda>(status, _). ret status))"

text \<open>The container as the gateways see it.\<close>

definition lxc_container_if :: "environment \<Rightarrow> nat \<Rightarrow> (container \<times> calls) container_if" where
  "lxc_container_if E fuel = \<lparr>ci_id = (\<lambda>(c, _). c_id c),
     ci_bindMountInContainer = container_bindMountInContainer E fuel,
     ci_setEnvironmentVariable = container_setEnvironmentVariable E,
     ci_setCgroupItem = container_setCgroupItem E,
     ci_mountDevice = container_mountDevice E,
     ci_runJob = (\<lambda>f (c, h). runFunctionJob E (\<lambda>h. case f (c, h) of (r, (_, h')) \<Rightarrow> (r, h')) (c, h)),
     ci_call = (\<lambda>call. ext (sys E call))\<rparr>"

section \<open>Frames\<close>

text \<open>What decides whether an operation is defined: the state and the presence of the handle.\<close>

definition part :: "container \<Rightarrow> ContainerState \<times> bool" where
  "part c = (c_state c, c_hasContainer c)"

lemma part_toolkit [simp]:
  "part (c\<lparr>m_createDirList := x\<rparr>) = part c" "part (c\<lparr>m_cleanupHandlers := y\<rparr>) = part c"
  "part (addHandler k c) = part c" "part (c\<lparr>c_gatewayEnvironmentVariables := vars\<rparr>) = part c"
  "part (c\<lparr>c_rootFSPath := path\<rparr>) = part c"
  by (simp_all add: part_def addHandler_def)

definition at :: "ContainerState \<times> bool \<Rightarrow> container \<times> calls \<Rightarrow> bool" where
  "at p s \<longleftrightarrow> part (fst s) = p"

definition framed :: "ContainerState \<times> bool \<Rightarrow> 'a container_meth \<Rightarrow> bool" where
  "framed p m \<longleftrightarrow> triple (at p) m (\<lambda>_. at p) (\<lambda>e s. at p s \<and> e \<noteq> UndefinedBehaviour)"

definition defined :: "('s, 'a) act \<Rightarrow> bool" where
  "defined m \<longleftrightarrow> (\<forall>s. fst (m s) \<noteq> Inl UndefinedBehaviour)"

lemma defined_simps [simp]: "defined (ret a)" "defined (throw e) \<longleftrightarrow> e \<noteq> UndefinedBehaviour" "defined (getm f)"
  "defined (updm u)" "defined (sys E c)" "defined (sysText E c)"
  by (simp_all add: defined_def act_defs sys_def sysText_def)

lemma defined_bnd: "defined m \<Longrightarrow> (\<And>a. defined (f a)) \<Longrightarrow> defined (bnd m f)"
  unfolding defined_def bnd_def by (auto split: sum.splits prod.splits) (metis fst_conv)+

lemma defined_seq: "defined m \<Longrightarrow> defined n \<Longrightarrow> defined (seq m n)"
  by (simp add: seq_def defined_bnd)

lemma defined_andThen: "defined m \<Longrightarrow> defined n \<Longrightarrow> defined (andThen m n)"
  by (simp add: andThen_def defined_bnd)

lemma defined_ext: "defined m \<Longrightarrow> defined (ext m)"
  by (auto simp: defined_def ext_def split: prod.splits) (metis fst_conv)

lemma defined_if: "(b \<Longrightarrow> defined m) \<Longrightarrow> (\<not> b \<Longrightarrow> defined n) \<Longrightarrow> defined (if b then m else n)"
  by simp

lemma defined_case: "(\<And>a b. defined (f a b)) \<Longrightarrow> defined (case x of (a, b) \<Rightarrow> f a b)"
  by (cases x) simp

lemmas defined_rules = defined_bnd defined_seq defined_andThen defined_ext defined_if defined_case

lemma defined_stat: "defined (getStat E p)" "defined (isDirectory E p)" "defined (existsInFileSystem E p)"
  "defined (touch E p)" "defined (writeToFile E p c)" "defined (mount E a b d fl o')"
proof -
  show st: "defined (getStat E p)" by (simp add: getStat_def defined_bnd)
  show "defined (isDirectory E p)" "defined (existsInFileSystem E p)"
    by (auto simp: isDirectory_def existsInFileSystem_def intro!: defined_bnd st split: option.splits)
  show "defined (touch E p)" "defined (writeToFile E p c)" "defined (mount E a b d fl o')"
    by (auto simp: touch_def writeToFile_def mount_def intro!: defined_rules)
qed

lemma defined_createDirectory: "defined (createDirectory E p)"
proof -
  have "defined (createDirectoryIn E fuel p)" for fuel p
    by (induction fuel arbitrary: p) (auto intro!: defined_rules defined_stat)
  then show ?thesis unfolding createDirectory_def .
qed

lemma framedI:
  assumes "keeps (at p) m" "defined m"
  shows "framed p m"
  unfolding framed_def triple_def
proof (intro allI impI)
  fix s assume "at p s"
  obtain r t where run: "m s = (r, t)" by (cases "m s") auto
  have "at p t" using keepsD [OF assms(1) \<open>at p s\<close> run] .
  moreover have "r \<noteq> Inl UndefinedBehaviour" using assms(2) run by (metis defined_def fst_conv)
  ultimately show "case m s of (Inl e, t) \<Rightarrow> at p t \<and> e \<noteq> UndefinedBehaviour | (Inr a, t) \<Rightarrow> at p t"
    by (cases r) (simp_all add: run)
qed

lemma framed_ret: "framed p (ret a)"
  by (simp add: framed_def triple_ret)

lemma framed_throw: "e \<noteq> UndefinedBehaviour \<Longrightarrow> framed p (throw e)"
  by (simp add: framed_def triple_throw)

lemma framed_bnd: "framed p m \<Longrightarrow> (\<And>a. framed p (f a)) \<Longrightarrow> framed p (bnd m f)"
  unfolding framed_def by (rule triple_bnd)

lemma framed_seq: "framed p m \<Longrightarrow> framed p n \<Longrightarrow> framed p (seq m n)"
  by (simp add: seq_def framed_bnd)

lemma framed_andThen: "framed p m \<Longrightarrow> framed p n \<Longrightarrow> framed p (andThen m n)"
  by (simp add: andThen_def framed_bnd framed_ret)

lemma framed_getm: "framed p (getm f)"
  by (simp add: framed_def triple_getm)

lemma framed_if: "(b \<Longrightarrow> framed p m) \<Longrightarrow> (\<not> b \<Longrightarrow> framed p n) \<Longrightarrow> framed p (if b then m else n)"
  by simp

lemma framed_case: "(\<And>a b. framed p (f a b)) \<Longrightarrow> framed p (case x of (a, b) \<Rightarrow> f a b)"
  by (cases x) simp

lemma framed_ext: "defined m \<Longrightarrow> framed p (ext m)"
  by (rule framedI) (auto simp: at_def intro!: keeps_ext defined_ext)

lemma framed_updm: "(\<And>c. part (f c) = part c) \<Longrightarrow> framed p (updm f)"
  by (rule framedI) (auto simp: at_def intro!: keeps_updm)

lemmas framed_rules = framed_bnd framed_seq framed_andThen framed_getm framed_ret framed_if framed_case framed_ext

lemma framed_get: "(\<And>c. part c = p \<Longrightarrow> framed p (k (f c))) \<Longrightarrow> framed p (bnd (getm f) k)"
  unfolding framed_def triple_def at_def bnd_def getm_def by auto

lemma framed_lxc: "framed (st, True) (lxc E call)"
  unfolding lxc_def by (rule framed_get) (auto simp: part_def intro!: framed_ext)

lemma framed_lxcText: "framed (st, True) (lxcText E call)"
  unfolding lxcText_def
  by (rule framed_get) (auto simp: part_def intro!: framed_rules)

lemma triple_scoped:
  assumes "defined create" "framed p rest" "\<And>c. part c = p \<Longrightarrow> part (commit c) = p'"
  shows "triple (at p) (scopedCreateDir E create rest commit) (\<lambda>ok. at (if ok then p' else p))
    (\<lambda>e s. at p s \<and> e \<noteq> UndefinedBehaviour)"
  unfolding triple_def
proof (intro allI impI)
  fix s assume at: "at p s"
  obtain c h where s: "s = (c, h)" by force
  obtain r dirs h1 where cr: "create ([], h) = (r, (dirs, h1))" by (rule run_exists)
  obtain q c2 h2 where re: "rest (c, h1) = (q, (c2, h2))" by (rule run_exists)
  have 1: "r \<noteq> Inl UndefinedBehaviour" using assms(1) cr by (auto simp: defined_def) (metis fst_conv)
  have "at p (c, h1)" using at by (simp add: at_def s)
  from tripleD [OF assms(2) [unfolded framed_def] this re]
  have 2: "part c2 = p" "q \<noteq> Inl UndefinedBehaviour" by (auto simp: at_def split: sum.splits)
  then have 3: "part (commit (c2\<lparr>m_createDirList := m_createDirList c2 @ [dirs]\<rparr>)) = p'" by (simp add: assms(3))
  show "case scopedCreateDir E create rest commit s of (Inl e, t) \<Rightarrow> at p t \<and> e \<noteq> UndefinedBehaviour
      | (Inr ok, t) \<Rightarrow> at (if ok then p' else p) t"
    using 1 2 3 at by (cases r; cases q) (auto simp: scopedCreateDir_def s cr re at_def)
qed

lemma framed_scoped:
  assumes "defined create" "framed p rest" "\<And>c. part (commit c) = part c"
  shows "framed p (scopedCreateDir E create rest commit)"
  using triple_scoped [of create p rest commit p E] assms by (simp add: framed_def)

subsection \<open>Operations that keep the state\<close>

lemma framed_waitForState: "framed (st, True) (waitForState E state timeout)"
  unfolding waitForState_def by (intro framed_rules framed_lxc framed_lxcText)

lemma framed_ensureContainerRunning:
  assumes "STARTED \<le> st \<longrightarrow> b"
  shows "framed (st, b) (ensureContainerRunning E)"
  unfolding ensureContainerRunning_def
proof (rule framed_get)
  fix c assume "part c = (st, b)"
  then have st: "c_state c = st" by (simp add: part_def)
  show "framed (st, b) (if FROZEN = c_state c then ret False else if c_state c < STARTED then ret False
      else bnd (lxc E LxcIsRunning) (\<lambda>running. if running = 0 then waitForState E RUNNING default_timeout else ret True))"
  proof (cases "STARTED \<le> st")
    case True
    with assms have b: "b = True" by simp
    show ?thesis unfolding b by (intro framed_rules framed_lxc framed_waitForState)
  next
    case False
    then show ?thesis by (simp add: st not_le framed_ret)
  qed
qed

text \<open>What runs where the container is known to be running.\<close>

definition started :: "ContainerState \<times> bool \<Rightarrow> bool" where
  "started p \<longleftrightarrow> (CONTAINER_CREATED \<le> fst p \<longrightarrow> snd p)"

lemma state_order [simp]:
  "STARTED \<le> st \<longleftrightarrow> st = STARTED \<or> st = FROZEN" "CONTAINER_CREATED \<le> st \<longleftrightarrow> st \<in> {CONTAINER_CREATED, STARTED, FROZEN}"
  "st < STARTED \<longleftrightarrow> \<not> (st = STARTED \<or> st = FROZEN)" "st < FROZEN \<longleftrightarrow> st \<noteq> FROZEN"
  "st < CONTAINER_CREATED \<longleftrightarrow> st \<notin> {CONTAINER_CREATED, STARTED, FROZEN}" "st < PREPARED \<longleftrightarrow> st = DEFAULT"
  by (cases st; simp add: less_eq_ContainerState_def less_ContainerState_def)+

lemma ensureContainerRunning_true:
  "triple (at p) (ensureContainerRunning E) (\<lambda>ok s. ok \<longrightarrow> fst p = STARTED) (\<lambda>_ _. True)"
  by (auto simp: triple_def at_def part_def ensureContainerRunning_def act_defs split: sum.splits prod.splits)

lemma framed_running:
  assumes "started p" and "\<And>st. p = (st, True) \<Longrightarrow> framed p m" and "framed p n"
  shows "framed p (bnd (ensureContainerRunning E) (\<lambda>running. if \<not> running then n else m))"
proof (cases "snd p")
  case True
  then obtain st where p: "p = (st, True)" by (cases p) auto
  show ?thesis unfolding p
    by (intro framed_bnd framed_ensureContainerRunning framed_if) (use assms p in auto)
next
  case False
  with assms(1) have "fst p \<noteq> STARTED" "\<not> STARTED \<le> fst p" by (auto simp: started_def)
  then have "framed p (ensureContainerRunning E)"
    using framed_ensureContainerRunning [of "fst p" "snd p" E] by simp
  with ensureContainerRunning_true [of p E] \<open>fst p \<noteq> STARTED\<close>
  have "triple (at p) (ensureContainerRunning E) (\<lambda>ok s. at p s \<and> \<not> ok) (\<lambda>e s. at p s \<and> e \<noteq> UndefinedBehaviour)"
    unfolding framed_def triple_def by (fastforce split: sum.splits prod.splits)
  moreover have "triple (\<lambda>s. at p s \<and> \<not> ok) (if \<not> ok then n else m) (\<lambda>_. at p) (\<lambda>e s. at p s \<and> e \<noteq> UndefinedBehaviour)" for ok
    using assms(3) unfolding framed_def triple_def by simp
  ultimately show ?thesis unfolding framed_def by (rule triple_bnd)
qed

lemma framed_executeFunction:
  assumes "started p" "defined f"
  shows "framed p (executeFunction E f pid vars a b c)"
proof -
  have "defined (executeInContainerEntryFunction E f)"
    unfolding executeInContainerEntryFunction_def unlimitCoreDump_def by (intro defined_rules assms(2)) simp_all
  then show ?thesis unfolding executeFunction_def
    by (intro framed_running assms(1) framed_ret) (auto intro!: framed_rules framed_lxc)
qed

lemma defined_command: "defined (command_function E args dir)"
  unfolding command_function_def by (intro defined_rules) simp_all

lemma framed_executeCommand: "started p \<Longrightarrow> framed p (executeCommand E cmd pid vars dir a b c)"
  unfolding executeCommand_def
  by (intro framed_running framed_ret)
    (auto intro!: framed_executeFunction defined_command framed_throw split: option.splits)

lemma framed_wait: "framed p (waitForFunction E pid v)"
  unfolding waitForFunction_def by (intro framed_rules) simp

lemma defined_job: "defined f \<Longrightarrow> defined (function_job f)"
  unfolding function_job_def by (intro defined_bnd) simp_all

lemma framed_executeSync: "started p \<Longrightarrow> defined f \<Longrightarrow> framed p (executeSync E f pid)"
  unfolding executeSync_def
  by (intro framed_rules framed_executeFunction defined_job framed_wait)

lemma framed_runFunctionJob: "started p \<Longrightarrow> defined f \<Longrightarrow> framed p (runFunctionJob E f)"
  unfolding runFunctionJob_def startFunctionJob_def waitJob_def
  by (intro framed_rules framed_executeFunction defined_job framed_wait)

lemma framed_mountDevice: "started p \<Longrightarrow> framed p (container_mountDevice E path)"
  unfolding container_mountDevice_def
  by (intro framed_running framed_ret) (auto intro!: framed_rules framed_lxc)

lemma framed_setCgroupItem: "framed (st, True) (container_setCgroupItem E k v)"
  unfolding container_setCgroupItem_def by (intro framed_rules framed_lxc)

lemma framed_setEnvironmentVariable: "framed p (container_setEnvironmentVariable E k v)"
proof -
  have "framed p (markFileForDeletion path)" for path
    unfolding markFileForDeletion_def by (rule framed_updm) simp
  then have "framed p (toolkit_writeToFile E path text')" for path text'
    unfolding toolkit_writeToFile_def by (intro framed_rules defined_stat)
  then show ?thesis unfolding container_setEnvironmentVariable_def
    by (intro framed_rules framed_updm) (auto simp: part_def)
qed

subsection \<open>Mounting\<close>

lemma framed_bindMount: "framed p (bindMount E src dst root ro wb)"
proof -
  have temp: "defined (createTempDirectoryFromTemplate E t)" for t
    unfolding createTempDirectoryFromTemplate_def by (intro defined_rules) simp_all
  have dirs: "defined (bindMountDirs E root)"
    unfolding bindMountDirs_def Let_def by (intro defined_rules temp) simp
  have "defined (bindMountBody E src dst root ro wb)"
    unfolding bindMountBody_def Let_def by (intro defined_rules defined_stat dirs) simp_all
  then show ?thesis unfolding bindMount_def withCreateDir_def
    by (intro framed_scoped framed_ret) simp_all
qed

lemma framed_overlayMount:
  "framed p (overlayMount E lower upper work dst)"
proof -
  have "defined (andThen (createDirectory E lower) (andThen (createDirectory E upper)
       (andThen (createDirectory E work) (andThen (createDirectory E dst)
         (bnd (ext (mount E ''overlay'' dst ''overlay'' [] (overlayOptions lower upper work))) (\<lambda>r. ret (r = 0)))))))"
    by (intro defined_rules defined_createDirectory defined_stat) simp
  then show ?thesis unfolding overlayMount_def withCreateDir_def
    by (intro framed_scoped framed_ret) simp_all
qed

lemma framed_createSharedMountPoint: "framed p (createSharedMountPoint E path)"
  unfolding createSharedMountPoint_def by (intro framed_rules defined_stat framed_updm) simp

lemma defined_checkMounted: "defined (checkMounted E fuel path)"
proof -
  have "defined (mountedLoop E fuel path)" by (induction fuel) (auto intro!: defined_rules)
  then show ?thesis unfolding checkMounted_def by (intro defined_bnd) simp_all
qed

lemma defined_createParentDirectories: "defined (createParentDirectories E path)"
proof -
  have "defined (missingPaths E fuel path paths)" for fuel path paths
    by (induction fuel arbitrary: path paths) (auto intro!: defined_rules defined_stat)
  moreover have "defined (makePaths E ps)" for ps
    by (induction ps) (auto intro!: defined_rules)
  ultimately show ?thesis unfolding createParentDirectories_def by (intro defined_bnd)
qed

lemma framed_moveMount: "started p \<Longrightarrow> framed p (moveMount E path tempOnHost tempIn)"
  unfolding moveMount_def
  by (intro framed_rules framed_executeSync defined_createParentDirectories defined_stat defined_bnd) simp_all

lemma framed_remount: "started p \<Longrightarrow> framed p (remountReadOnlyInContainer E path)"
  unfolding remountReadOnlyInContainer_def by (intro framed_rules framed_executeSync defined_stat)

lemma framed_ensureRunning: "started p \<Longrightarrow> framed p (ensureContainerRunning E)"
  using framed_ensureContainerRunning [of "fst p" "snd p" E] by (auto simp: started_def)

lemma framed_bindMountCore:
  assumes "started p" "pathInContainer \<noteq> ''''"
  shows "framed p (bindMountCore E pathInHost pathInContainer temp ro)"
  unfolding bindMountCore_def Let_def using assms
  by (auto intro!: framed_rules framed_ensureRunning framed_bindMount framed_moveMount framed_remount)

lemma defined_clean: "defined (clean E (MountCleanUp path))"
  by (auto intro!: defined_rules)

lemma framed_bindMountInContainer:
  assumes "started p" "pathInContainer \<noteq> ''''"
  shows "framed p (container_bindMountInContainer E fuel pathInHost pathInContainer ro)"
proof -
  have roll: "framed p (mountOrRollback E pathInHost pathInContainer temp ro)" for temp
    unfolding mountOrRollback_def
    by (intro framed_rules framed_bindMountCore assms defined_clean)
  have prep: "defined (prepareTarget E isDir temp known)" for isDir temp known
    unfolding prepareTarget_def by (intro defined_rules defined_createDirectory defined_stat) simp
  show ?thesis unfolding container_bindMountInContainer_def Let_def
    by (intro framed_rules framed_scoped framed_executeSync assms defined_stat defined_checkMounted prep roll) simp
qed

subsection \<open>Operations that change the state\<close>

definition fine :: "ContainerState \<times> bool \<Rightarrow> exn \<Rightarrow> container \<times> calls \<Rightarrow> bool" where
  "fine p e s \<longleftrightarrow> at p s \<and> e \<noteq> UndefinedBehaviour"

lemma framed_triple: "framed p m \<longleftrightarrow> triple (at p) m (\<lambda>_. at p) (fine p)"
  by (simp add: framed_def fine_def [abs_def])

lemma triple_setState: "triple (at (st, b)) (setState st') (\<lambda>_. at (st', b)) X"
  unfolding setState_def by (rule triple_updm) (simp add: at_def part_def)

lemma triple_initialize:
  "triple (at (st, b)) (container_initialize E)
     (\<lambda>ok. at (if ok \<and> st = DEFAULT then PREPARED else st, b)) (fine (st, b))"
  unfolding container_initialize_def
proof (rule triple_get)
  fix c :: container
  have create: "triple (at (st, b)) (scopedCreateDir E (createDirectory E (gatewaysDir E c))
      (createSharedMountPoint E (gatewaysDir E c)) (c_state_update (\<lambda>_. PREPARED)))
    (\<lambda>ok. at (if ok then (PREPARED, b) else (st, b))) (fine (st, b))"
    unfolding fine_def [abs_def]
    by (rule triple_scoped) (auto simp: part_def intro!: defined_createDirectory framed_createSharedMountPoint)
  show "triple (\<lambda>s. at (st, b) s \<and> fst s = c)
     (if c_state c < PREPARED
      then scopedCreateDir E (createDirectory E (gatewaysDir E c)) (createSharedMountPoint E (gatewaysDir E c))
            (c_state_update (\<lambda>_. PREPARED))
      else ret True) (\<lambda>ok. at (if ok \<and> st = DEFAULT then PREPARED else st, b)) (fine (st, b))"
  proof (rule triple_if)
    assume init: "c_state c < PREPARED"
    show "triple (\<lambda>s. at (st, b) s \<and> fst s = c) (scopedCreateDir E (createDirectory E (gatewaysDir E c))
        (createSharedMountPoint E (gatewaysDir E c)) (c_state_update (\<lambda>_. PREPARED)))
      (\<lambda>ok. at (if ok \<and> st = DEFAULT then PREPARED else st, b)) (fine (st, b))"
    proof (cases "st = DEFAULT")
      case True
      then show ?thesis by (intro triple_post [OF triple_pre [OF create]]) (auto split: if_splits)
    next
      case False
      with init show ?thesis by (auto simp: triple_def at_def part_def)
    qed
  next
    assume "\<not> c_state c < PREPARED"
    then show "triple (\<lambda>s. at (st, b) s \<and> fst s = c) (ret True)
        (\<lambda>ok. at (if ok \<and> st = DEFAULT then PREPARED else st, b)) (fine (st, b))"
      by (intro triple_ret) (auto simp: at_def part_def)
  qed
qed

lemma triple_rollback: "triple (at (st, b)) (rollbackCreate E) (\<lambda>ok s. at (st, False) s \<and> \<not> ok) X"
  by (cases b) (auto simp: triple_def rollbackCreate_def lxc_def at_def part_def act_defs sys_def)

lemma lxc_triple: "triple (at (st, True)) (lxc E call) (\<lambda>_. at (st, True)) (fine (st, True))"
  using framed_lxc [of st E call] by (simp add: framed_triple)

definition okay :: "ContainerState set \<Rightarrow> container \<times> calls \<Rightarrow> bool" where
  "okay S s \<longleftrightarrow> c_state (fst s) \<in> S \<and> started (part (fst s))"

definition safe :: "ContainerState set \<Rightarrow> exn \<Rightarrow> container \<times> calls \<Rightarrow> bool" where
  "safe S e s \<longleftrightarrow> okay S s \<and> e \<noteq> UndefinedBehaviour"

lemma okay_at: "at (st, b) s \<Longrightarrow> st \<in> S \<Longrightarrow> started (st, b) \<Longrightarrow> okay S s"
  by (auto simp: okay_def at_def part_def)

lemma framed_safe:
  assumes "framed (st, b) m" "st \<in> S" "started (st, b)"
  shows "triple (at (st, b)) m (\<lambda>_. at (st, b)) (safe S)"
  using assms(1) unfolding framed_def
  by (rule triple_post) (use assms(2,3) in \<open>auto simp: safe_def intro: okay_at\<close>)

lemma rollback_safe:
  assumes "\<not> CONTAINER_CREATED \<le> st" "st \<in> S"
  shows "triple (at (st, b)) (rollbackCreate E) (\<lambda>_. okay S) X"
  by (rule triple_post [OF triple_rollback]) (use assms in \<open>auto simp: started_def intro: okay_at\<close>)

lemma safe_mono: "triple P m Q (safe S) \<Longrightarrow> S \<subseteq> S' \<Longrightarrow> triple P m Q (safe S')"
  by (erule triple_post) (auto simp: safe_def okay_def)

lemma set_state_safe: "st' \<in> S \<Longrightarrow> triple (at (st, True)) (seq (setState st') (ret a)) (\<lambda>_. okay S) X"
  by (rule triple_seq [OF triple_setState]) (auto intro!: triple_ret okay_at simp: started_def)

lemma ret_safe: "st \<in> S \<Longrightarrow> started (st, b) \<Longrightarrow> triple (at (st, b)) (ret a) (\<lambda>_. okay S) X"
  by (rule triple_ret) (rule okay_at)


lemma get_at: "(\<And>c. part c = p \<Longrightarrow> triple (at p) (k (f c)) Q X) \<Longrightarrow> triple (at p) (bnd (getm f) k) Q X"
  by (auto simp: triple_def bnd_def getm_def at_def)

lemma get_state: "triple (at (st, b)) (k st) Q X \<Longrightarrow> triple (at (st, b)) (bnd (getm c_state) k) Q X"
  by (rule get_at) (auto simp: part_def)

lemma framed_bnd_safe:
  assumes "framed (st, b) m" "st \<in> S" "started (st, b)" "\<And>r. triple (at (st, b)) (k r) Q (safe S)"
  shows "triple (at (st, b)) (bnd m k) Q (safe S)"
  using framed_safe [OF assms(1,2,3)] assms(4) by (rule triple_bnd)

lemma lxc_bnd:
  assumes "st \<in> S" "\<And>r. triple (at (st, True)) (k r) Q (safe S)"
  shows "triple (at (st, True)) (bnd (lxc E call) k) Q (safe S)"
  by (rule framed_bnd_safe [OF framed_lxc assms(1) _ assms(2)]) (simp add: started_def)

lemma create_rest:
  assumes "\<not> CONTAINER_CREATED \<le> st" "{st, CONTAINER_CREATED} \<subseteq> S"
  shows "triple (at (st, True)) (bnd (lxc E LxcIsDefined) (\<lambda>defined.
     if defined \<noteq> 0 then rollbackCreate E
     else bnd (lxc E (LxcLoadConfig conf)) (\<lambda>loaded.
     if loaded = 0 then rollbackCreate E
     else seq (updm (c_rootFSPath_update (\<lambda>_. root)))
         (seq (mountRootFS E)
         (bnd (lxc E (LxcCreate templ)) (\<lambda>created.
          if created = 0 then seq (updm (c_rootFSPath_update (\<lambda>_. ''''))) (rollbackCreate E)
          else seq (setState CONTAINER_CREATED) (ret True)))))))
     (\<lambda>_. okay S) (safe S)"
proof -
  have S: "st \<in> S" "CONTAINER_CREATED \<in> S" "started (st, True)" using assms by (auto simp: started_def)
  have root: "framed (st, True) (updm (c_rootFSPath_update (\<lambda>_. path)))" for path
    by (rule framed_updm) simp
  have mount: "framed (st, True) (mountRootFS E)"
    unfolding mountRootFS_def by (intro framed_rules framed_overlayMount)
  have roll: "triple (at (st, True)) (rollbackCreate E) (\<lambda>_. okay S) (safe S)"
    using assms S by (intro rollback_safe) auto
  have last: "triple (at (st, True)) (bnd (lxc E (LxcCreate templ)) (\<lambda>created.
          if created = 0 then seq (updm (c_rootFSPath_update (\<lambda>_. ''''))) (rollbackCreate E)
          else seq (setState CONTAINER_CREATED) (ret True))) (\<lambda>_. okay S) (safe S)"
    by (intro lxc_bnd S triple_if set_state_safe triple_seq [OF framed_safe [OF root S(1,3)]] roll)
  show ?thesis
    by (intro lxc_bnd S triple_if roll triple_seq [OF framed_safe [OF root S(1,3)]]
      triple_seq [OF framed_safe [OF mount S(1,3)]] last)
qed

lemma triple_create:
  assumes "\<not> CONTAINER_CREATED \<le> st" "{st, CONTAINER_CREATED} \<subseteq> S"
  shows "triple (at (st, b)) (container_create E s_LXCRoot templ) (\<lambda>_. okay S) (safe S)"
  unfolding container_create_def
proof (rule get_at)
  fix c assume c: "part c = (st, b)"
  have S: "st \<in> S" "started (st, b')" for b' using assms by (auto simp: started_def)
  have handle: "triple (at (st, b)) (updm (c_hasContainer_update (\<lambda>_. d))) (\<lambda>_. at (st, d)) X" for d X
    by (rule triple_updm) (simp add: at_def part_def)
  have step: "triple (at (st, b)) (seq (updm (c_hasContainer_update (\<lambda>_. r \<noteq> 0)))
      (if r = 0 then rollbackCreate E else m)) (\<lambda>_. okay S) (safe S)"
    if "triple (at (st, True)) m (\<lambda>_. okay S) (safe S)" for r and m :: "bool container_meth"
    using that assms S by (cases "r = 0") (auto intro!: triple_seq [OF handle] rollback_safe)
  show "triple (at (st, b)) (if CONTAINER_CREATED \<le> c_state c then ret False
     else if c_id c = '''' then ret False
     else bnd (ext (sys E (Proc (Setenv ''GATEWAY_DIR'' (gatewaysDir E c))))) (\<lambda>_.
       bnd (ext (sys E (Lxc (LxcNew (c_id c))))) (\<lambda>r.
       seq (updm (c_hasContainer_update (\<lambda>_. r \<noteq> 0)))
      (if r = 0 then rollbackCreate E
       else bnd (lxc E LxcIsDefined) (\<lambda>defined.
       if defined \<noteq> 0 then rollbackCreate E
       else bnd (lxc E (LxcLoadConfig (c_configFile c))) (\<lambda>loaded.
       if loaded = 0 then rollbackCreate E
       else seq (updm (c_rootFSPath_update (\<lambda>_. buildPath3 E s_LXCRoot (c_id c) ''rootfs'')))
           (seq (mountRootFS E)
           (bnd (lxc E (LxcCreate templ)) (\<lambda>created.
            if created = 0 then seq (updm (c_rootFSPath_update (\<lambda>_. ''''))) (rollbackCreate E)
            else seq (setState CONTAINER_CREATED) (ret True)))))))))) (\<lambda>_. okay S) (safe S)"
    by (intro triple_if ret_safe S framed_bnd_safe [OF framed_ext] step create_rest assms) simp_all
qed

lemma triple_start:
  assumes "{st, STARTED} \<subseteq> S" "started (st, b)"
  shows "triple (at (st, b)) (container_start E) (\<lambda>_. okay S) (safe S)"
  unfolding container_start_def
proof (rule get_state, rule triple_if)
  show "triple (at (st, b)) (ret (False, INVALID_PID)) (\<lambda>_. okay S) (safe S)"
    using assms by (intro ret_safe) auto
  have S: "st \<in> S" "STARTED \<in> S" "started (STARTED, True)" using assms by (auto simp: started_def)
  assume "\<not> st < CONTAINER_CREATED"
  with assms have b: "b = True" by (auto simp: started_def)
  show "triple (at (st, b)) (bnd (lxc E (LxcStart [''env'', ''/bin/sleep'', ''100000000''])) (\<lambda>started.
       if started = 0 then ret (False, INVALID_PID)
       else bnd (lxc E LxcInitPid) (\<lambda>pid.
         seq (setState STARTED) (bnd (ensureContainerRunning E) (\<lambda>ok. ret (ok, pid)))))) (\<lambda>_. okay S) (safe S)"
    unfolding b
    by (intro lxc_bnd S triple_if ret_safe triple_seq [OF triple_setState] framed_bnd_safe [OF framed_ensureRunning])
      (simp_all add: started_def)
qed

lemma framed_stop: "started p \<Longrightarrow> framed p (container_stop E)"
  unfolding container_stop_def
  by (rule framed_get) (auto simp: part_def started_def intro!: framed_rules framed_lxc framed_waitForState)

lemma triple_shutdown:
  assumes "{st, CONTAINER_CREATED} \<subseteq> S" "STARTED \<le> st"
  shows "triple (at (st, True)) (container_shutdown E timeout)
    (\<lambda>ok s. at (if ok then CONTAINER_CREATED else st, True) s) (safe S)"
  unfolding container_shutdown_def
proof (rule get_state, rule triple_if)
  have S: "st \<in> S" "started (st, True)" using assms by (auto simp: started_def)
  assume "\<not> st < STARTED"
  show "triple (at (st, True)) (bnd (lxc E LxcInitPid) (\<lambda>pid.
       seq (if pid \<noteq> INVALID_PID
            then bnd (lxc E LxcInitPid) (\<lambda>pid. bnd (ext (sys E (Proc (Kill pid SIGTERM)))) (\<lambda>_. ret ()))
            else ret ())
      (bnd (lxc E (LxcShutdown timeout)) (\<lambda>success.
       andThen (if success = 0 then container_stop E else ret True)
         (seq (setState CONTAINER_CREATED) (ret True))))))
     (\<lambda>ok. at (if ok then CONTAINER_CREATED else st, True)) (safe S)"
    by (intro lxc_bnd S triple_seq [OF framed_safe [OF _ S]] triple_andThen [where R = "at (st, True)"]
        triple_post [OF framed_safe [OF _ S]] framed_rules framed_lxc framed_stop triple_seq [OF triple_setState] triple_ret)
      (simp_all add: S)
qed (use assms in auto)

lemma destroy_rest:
  assumes "st \<in> {st', CONTAINER_CREATED}" "{st', CONTAINER_CREATED, DESTROYED} \<subseteq> S"
  shows "triple (at (st, True)) (bnd (getm (\<lambda>c. c)) (\<lambda>c.
       andThen (if c_writeBufferEnabled c
                then bnd (ext (sys E (Mnt (Umount (c_rootFSPath c))))) (\<lambda>r. ret (r \<noteq> -1)) else ret True)
         (bnd (lxc E LxcDestroy) (\<lambda>success.
           if success = 0 then ret False else seq (setState DESTROYED) (ret True))))) (\<lambda>_. okay S) (safe S)"
proof (rule get_at)
  fix c :: container
  have S: "st \<in> S" "started (st, True)" "DESTROYED \<in> S" using assms by (auto simp: started_def)
  show "triple (at (st, True)) (andThen (if c_writeBufferEnabled c
                then bnd (ext (sys E (Mnt (Umount (c_rootFSPath c))))) (\<lambda>r. ret (r \<noteq> -1)) else ret True)
         (bnd (lxc E LxcDestroy) (\<lambda>success.
           if success = 0 then ret False else seq (setState DESTROYED) (ret True)))) (\<lambda>_. okay S) (safe S)"
    unfolding andThen_def
    by (intro framed_bnd_safe framed_rules S triple_if ret_safe lxc_bnd set_state_safe) simp_all
qed

lemma triple_destroy:
  assumes "started (st, b)" "CONTAINER_CREATED \<le> st \<longrightarrow> {CONTAINER_CREATED, DESTROYED} \<subseteq> S" "st \<in> S"
  shows "triple (at (st, b)) (container_destroy E timeout) (\<lambda>_. okay S) (safe S)"
  unfolding container_destroy_def
proof (rule get_state, rule triple_if)
  assume "\<not> st < CONTAINER_CREATED"
  then have b: "b = True" and S: "{st, CONTAINER_CREATED, DESTROYED} \<subseteq> S" "started (st, True)"
    using assms by (auto simp: started_def)
  have down: "triple (at (st, True)) (if STARTED \<le> st then container_shutdown E timeout else ret True)
      (\<lambda>ok s. if ok then \<exists>st' \<in> {st, CONTAINER_CREATED}. at (st', True) s else okay S s) (safe S)"
  proof (rule triple_if)
    assume "STARTED \<le> st"
    with S show "triple (at (st, True)) (container_shutdown E timeout)
      (\<lambda>ok s. if ok then \<exists>st' \<in> {st, CONTAINER_CREATED}. at (st', True) s else okay S s) (safe S)"
      by (intro triple_post [OF triple_shutdown [of st S]]) (auto split: if_splits intro!: okay_at)
  qed (rule triple_ret, simp)
  show "triple (at (st, b)) (andThen (if STARTED \<le> st then container_shutdown E timeout else ret True)
      (bnd (getm (\<lambda>c. c)) (\<lambda>c.
       andThen (if c_writeBufferEnabled c
                then bnd (ext (sys E (Mnt (Umount (c_rootFSPath c))))) (\<lambda>r. ret (r \<noteq> -1)) else ret True)
         (bnd (lxc E LxcDestroy) (\<lambda>success.
           if success = 0 then ret False else seq (setState DESTROYED) (ret True)))))) (\<lambda>_. okay S) (safe S)"
    unfolding b
  proof (rule triple_andThen [OF down])
    show "triple (\<lambda>s. \<exists>st' \<in> {st, CONTAINER_CREATED}. at (st', True) s) (bnd (getm (\<lambda>c. c)) (\<lambda>c.
       andThen (if c_writeBufferEnabled c
                then bnd (ext (sys E (Mnt (Umount (c_rootFSPath c))))) (\<lambda>r. ret (r \<noteq> -1)) else ret True)
         (bnd (lxc E LxcDestroy) (\<lambda>success.
           if success = 0 then ret False else seq (setState DESTROYED) (ret True))))) (\<lambda>_. okay S) (safe S)"
      using destroy_rest [of st st S E] destroy_rest [of CONTAINER_CREATED st S E] S
      by (auto simp: triple_def)
  qed
qed (use assms in \<open>auto intro: ret_safe\<close>)

lemma triple_suspend:
  assumes "started (st, b)" "st = STARTED \<longrightarrow> FROZEN \<in> S" "st \<in> S"
  shows "triple (at (st, b)) (container_suspend E) (\<lambda>_. okay S) (safe S)"
  unfolding container_suspend_def
proof (intro get_state triple_if ret_safe assms)
  assume "\<not> st < STARTED" "st \<noteq> FROZEN"
  with assms have st: "st = STARTED" "b" "FROZEN \<in> S" by (auto simp: started_def)
  show "triple (at (st, b)) (bnd (lxc E LxcFreeze) (\<lambda>retval.
       if retval = 0 then throw SoftwareContainerError else seq (setState FROZEN) (ret True))) (\<lambda>_. okay S) (safe S)"
    using st assms by (auto intro!: lxc_bnd triple_if triple_throw set_state_safe simp: safe_def intro: okay_at)
qed

lemma triple_resume:
  assumes "started (st, b)" "st = FROZEN \<longrightarrow> STARTED \<in> S" "st \<in> S"
  shows "triple (at (st, b)) (container_resume E) (\<lambda>_. okay S) (safe S)"
  unfolding container_resume_def
proof (intro get_state triple_if ret_safe assms)
  assume "\<not> st < FROZEN"
  with assms have st: "st = FROZEN" "b" "STARTED \<in> S" by (auto simp: started_def)
  show "triple (at (st, b)) (bnd (lxc E LxcUnfreeze) (\<lambda>retval.
       if retval = 0 then throw SoftwareContainerError else seq (setState STARTED) (ret True))) (\<lambda>_. okay S) (safe S)"
    using st assms by (auto intro!: lxc_bnd triple_if triple_throw set_state_safe simp: safe_def intro: okay_at)
qed

section \<open>Refinement of the life cycle\<close>

text \<open>The public operations of \<open>Container\<close>, and the states each may lead to.\<close>

datatype container_op =
    OpInitialize | OpCreate string string | OpStart | OpStop | OpShutdown int | OpDestroy int | OpSuspend | OpResume
  | OpSetCgroupItem string string | OpMountDevice string | OpSetEnvironmentVariable string string
  | OpBindMount nat string string bool
  | OpExecuteFunction "(calls, int) act" "(string, string) std_map"
  | OpExecuteCommand string "(string, string) std_map" string

definition done_with :: "('s, 'a) act \<Rightarrow> ('s, unit) act" where
  "done_with m = bnd m (\<lambda>_. ret ())"

fun perform :: "environment \<Rightarrow> container_op \<Rightarrow> unit container_meth" where
  "perform E OpInitialize = done_with (container_initialize E)"
| "perform E (OpCreate root templ) = done_with (container_create E root templ)"
| "perform E OpStart = done_with (container_start E)"
| "perform E OpStop = done_with (container_stop E)"
| "perform E (OpShutdown timeout) = done_with (container_shutdown E timeout)"
| "perform E (OpDestroy timeout) = done_with (container_destroy E timeout)"
| "perform E OpSuspend = done_with (container_suspend E)"
| "perform E OpResume = done_with (container_resume E)"
| "perform E (OpSetCgroupItem k v) = done_with (container_setCgroupItem E k v)"
| "perform E (OpMountDevice path) = done_with (container_mountDevice E path)"
| "perform E (OpSetEnvironmentVariable k v) = done_with (container_setEnvironmentVariable E k v)"
| "perform E (OpBindMount fuel src dst ro) = done_with (container_bindMountInContainer E fuel src dst ro)"
| "perform E (OpExecuteFunction f vars) = done_with (executeFunction E (function_job f) INVALID_PID vars (-1) 1 2)"
| "perform E (OpExecuteCommand command vars dir) = done_with (executeCommand E command INVALID_PID vars dir (-1) 1 2)"

text \<open>What the caller has to see to: no cgroup item without a created container, a non-empty path to
  mount to, functions that are themselves defined.\<close>

fun allowed :: "container_op \<Rightarrow> ContainerState \<Rightarrow> bool" where
  "allowed (OpSetCgroupItem k v) st \<longleftrightarrow> CONTAINER_CREATED \<le> st"
| "allowed (OpBindMount fuel src dst ro) st \<longleftrightarrow> dst \<noteq> ''''"
| "allowed (OpExecuteFunction f vars) st \<longleftrightarrow> defined f"
| "allowed _ st \<longleftrightarrow> True"

fun moves :: "container_op \<Rightarrow> ContainerState \<Rightarrow> ContainerState set" where
  "moves OpInitialize st = (if st = DEFAULT then {DEFAULT, PREPARED} else {st})"
| "moves (OpCreate root templ) st = (if st < CONTAINER_CREATED then {st, CONTAINER_CREATED} else {st})"
| "moves OpStart st = (if st < CONTAINER_CREATED then {st} else {st, STARTED})"
| "moves (OpShutdown timeout) st = (if st < STARTED then {st} else {st, CONTAINER_CREATED})"
| "moves (OpDestroy timeout) st = (if st < CONTAINER_CREATED then {st} else {st, CONTAINER_CREATED, DESTROYED})"
| "moves OpSuspend st = (if st = STARTED then {STARTED, FROZEN} else {st})"
| "moves OpResume st = (if st = FROZEN then {FROZEN, STARTED} else {st})"
| "moves _ st = {st}"

lemma triple_done: "triple P m (\<lambda>_. okay S) (safe S) \<Longrightarrow> triple P (done_with m) (\<lambda>_. okay S) (safe S)"
  unfolding done_with_def by (erule triple_bnd) (rule triple_ret)

lemma framed_okay:
  "framed (st, b) m \<Longrightarrow> started (st, b) \<Longrightarrow> st \<in> S \<Longrightarrow> triple (at (st, b)) m (\<lambda>_. okay S) (safe S)"
  by (rule triple_post [OF framed_safe]) (auto intro: okay_at)

lemma triple_perform:
  assumes "started (st, b)" "allowed op st"
  shows "triple (at (st, b)) (perform E op) (\<lambda>_. okay (moves op st)) (safe (moves op st))"
proof (cases op)
  case OpInitialize
  then show ?thesis using assms
    by (auto simp: fine_def safe_def started_def intro!: triple_done triple_post [OF triple_initialize] okay_at split: if_splits)
next
  case (OpCreate root templ)
  show ?thesis
  proof (cases "CONTAINER_CREATED \<le> st")
    case True
    have "triple (at (st, b)) (container_create E root templ) (\<lambda>_. okay {st}) (safe {st})"
      unfolding container_create_def by (rule get_at) (use True assms in \<open>simp add: part_def ret_safe\<close>)
    with True OpCreate show ?thesis by (auto intro!: triple_done)
  next
    case False
    with OpCreate have "moves op st = {st, CONTAINER_CREATED}" by simp
    with triple_done [OF triple_create [OF False, of "moves op st" b E root templ]] OpCreate show ?thesis by simp
  qed
next
  case OpStart
  have "triple (at (st, b)) (container_start E) (\<lambda>_. okay (moves OpStart st)) (safe (moves OpStart st))"
  proof (cases "CONTAINER_CREATED \<le> st")
    case True
    then show ?thesis using assms by (intro triple_start) auto
  next
    case False
    with assms show ?thesis unfolding container_start_def by (intro get_state) (auto intro: ret_safe)
  qed
  with OpStart show ?thesis by (simp add: triple_done)
next
  case (OpShutdown timeout)
  show ?thesis
  proof (cases "STARTED \<le> st")
    case True
    with assms have b: "b = True" by (auto simp: started_def)
    have "triple (at (st, True)) (container_shutdown E timeout) (\<lambda>_. okay {st, CONTAINER_CREATED}) (safe {st, CONTAINER_CREATED})"
      by (rule triple_post [OF triple_shutdown])
        (use True in \<open>auto intro!: okay_at simp: started_def split: if_splits\<close>)
    with True b OpShutdown show ?thesis by (auto intro: triple_done)
  next
    case False
    with OpShutdown assms show ?thesis
      by (auto intro!: triple_done simp: container_shutdown_def intro!: get_state ret_safe)
  qed
next
  case (OpDestroy timeout)
  then show ?thesis using assms by (auto intro!: triple_done triple_destroy)
next
  case OpSuspend
  then show ?thesis using assms by (auto intro!: triple_done triple_suspend)
next
  case OpResume
  then show ?thesis using assms by (auto intro!: triple_done triple_resume)
next
  case (OpSetCgroupItem k v)
  then have "b = True" using assms by (auto simp: started_def)
  with OpSetCgroupItem show ?thesis
    by (auto intro!: triple_done framed_okay framed_setCgroupItem simp: started_def)
qed (use assms in \<open>auto intro!: triple_done framed_okay framed_stop framed_mountDevice framed_setEnvironmentVariable
  framed_bindMountInContainer framed_executeFunction framed_executeCommand defined_job\<close>)

inductive container_step :: "environment \<Rightarrow> container \<times> calls \<Rightarrow> container \<times> calls \<Rightarrow> bool" for E where
  "allowed op (c_state (fst s)) \<Longrightarrow> perform E op s = (r, t) \<Longrightarrow> container_step E s t"

inductive_cases container_stepE: "container_step E s t"

lemma perform_moves:
  assumes "perform E op s = (r, t)" "started (part (fst s))" "allowed op (c_state (fst s))"
  shows "okay (moves op (c_state (fst s))) t \<and> r \<noteq> Inl UndefinedBehaviour"
proof -
  have "at (c_state (fst s), c_hasContainer (fst s)) s" by (simp add: at_def part_def)
  from tripleD [OF triple_perform this assms(1)] assms(2,3) show ?thesis
    by (auto simp: part_def safe_def split: sum.splits)
qed

lemma run_started:
  assumes "(container_step E)\<^sup>*\<^sup>* s t" "started (part (fst s))"
  shows "started (part (fst t))"
  using assms by (induction rule: rtranclp_induct)
    (auto elim!: container_stepE dest: perform_moves simp: okay_def)

text \<open>An LXC in which a created container runs; waiting for a state answers \<open>waited\<close>, and a process
  waited for by its ID has the status \<open>status\<close>.\<close>

definition lxc_env :: "int \<Rightarrow> int \<Rightarrow> environment" where
  "lxc_env waited status = plain_env\<lparr>answer := (\<lambda>h c. (case c of
       Lxc LxcIsDefined \<Rightarrow> (0, '''') | Lxc LxcState \<Rightarrow> (1, ''STARTING'') | Lxc (LxcWait s n) \<Rightarrow> (waited, '''')
     | Lxc LxcIsRunning \<Rightarrow> (if waited = 0 then 1 else 0, '''') | Lxc (LxcAttach vs a b d) \<Rightarrow> (77, '''') | Lxc _ \<Rightarrow> (1, '''')
     | Proc (WaitPid p) \<Rightarrow> (if p = 0 then 0 else status, '''')
     | _ \<Rightarrow> answer plain_env h c))\<rparr>"


definition created_container :: "container \<times> calls" where
  "created_container = snd (perform (lxc_env 0 0) (OpCreate ''/lxc'' ''t'') (newContainer ''SC-0'' '''' '''' False 1, []))"

lemmas container_defs = container_create_def container_start_def ensureContainerRunning_def waitForState_def lxc_def
  lxcText_def setState_def mountRootFS_def newContainer_def toolkit.defs container.defs sys_def sysText_def act_defs

lemma created_state: "c_state (fst created_container) = CONTAINER_CREATED"
  by (simp add: created_container_def done_with_def lxc_env_def container_defs plain_env_def)


section \<open>Starting\<close>

text \<open>C40: LXC has started the container and it does not run yet: whatever comes of the wait for it, the
  container counts as started, and the result is success exactly where the wait of LXC has
  failed, since the code reads its answer as an expired timeout.\<close>

theorem start_result_inverted:
  assumes "CONTAINER_CREATED \<le> c_state c" "c_hasContainer c"
    and "\<And>h cmd. fst (answer E h (Lxc (LxcStart cmd))) \<noteq> 0" "\<And>h. fst (answer E h (Lxc LxcIsRunning)) = 0"
    and "\<And>h. snd (answer E h (Lxc LxcState)) \<noteq> RUNNING" "\<And>h. fst (answer E h (Lxc (LxcWait RUNNING default_timeout))) = w"
  shows "\<exists>pid c' h'. container_start E (c, h) = (Inr (w = 0, pid), (c', h')) \<and> c_state c' = STARTED"
  using assms by (simp add: container_start_def ensureContainerRunning_def waitForState_def lxc_def lxcText_def
      setState_def sys_def sysText_def act_defs split: prod.split) (metis snd_conv)

theorem start_result_inverted_witness:
  "\<exists>pid c' h'. container_start (lxc_env 1 0) (fst created_container\<lparr>c_hasContainer := True\<rparr>, []) = (Inr (False, pid), (c', h'))
     \<and> c_state c' = STARTED"
  using start_result_inverted [of "fst created_container\<lparr>c_hasContainer := True\<rparr>" "lxc_env 1 0" 1 "[]"]
  by (simp add: created_state lxc_env_def RUNNING_def)

section \<open>Executing in the container\<close>

lemma map_of_actualVariables:
  assumes "distinct (map fst gw)"
  shows "map_of (foldl (\<lambda>acc (n, v). (case map_of vars n of Some v' \<Rightarrow> put n v' acc | None \<Rightarrow> put n v acc)) acc gw) k =
    (case map_of gw k of None \<Rightarrow> map_of acc k | Some v \<Rightarrow> Some (case map_of vars k of Some v' \<Rightarrow> v' | None \<Rightarrow> v))"
  using assms
proof (induction gw arbitrary: acc)
  case (Cons p gw)
  obtain n v where p: "p = (n, v)" by force
  have "map_of gw n = None" using Cons.prems by (simp add: p map_of_eq_None_iff)
  with Cons show ?case by (auto simp: p split: option.splits)
qed simp

lemma executeFunction_idle:
  assumes "c_state c \<noteq> STARTED"
  shows "executeFunction E f pid vars a b d (c, h) = (Inr (False, pid, None), (c, h))"
  using assms by (cases "c_state c") (simp_all add: executeFunction_def ensureContainerRunning_def act_defs)

text \<open>A function runs in a container that is started and not frozen only, and in no other case does
  anything happen; where it runs, every variable has the value the caller gives it, and otherwise the
  one a gateway has set, in the environment handed to LXC.\<close>

theorem execute_environment:
  assumes "ordered (c_gatewayEnvironmentVariables c)"
    and "executeFunction E f pid vars sin sout serr (c, h) = (Inr (ok, pid', v), (c', h'))"
  shows "(c_state c \<noteq> STARTED \<longrightarrow> \<not> ok \<and> c' = c \<and> h' = h) \<and>
    (ok \<longrightarrow> (\<exists>actual h1. (\<forall>k. map_of actual k = (map_of (c_gatewayEnvironmentVariables c) ++ map_of vars) k) \<and>
       executeInContainerEntryFunction E f (Lxc (LxcAttach (env_strings actual) sin sout serr) # h1) = (Inr v, h')))"
proof (cases "c_state c = STARTED")
  case False
  with executeFunction_idle [OF False, of E f pid vars sin sout serr h] assms(2) show ?thesis by simp
next
  case True
  let ?gw = "c_gatewayEnvironmentVariables c"
  have keep: "keeps (\<lambda>s. c_gatewayEnvironmentVariables (fst s) = ?gw) (ensureContainerRunning E)"
    unfolding ensureContainerRunning_def waitForState_def lxc_def lxcText_def
    by (intro keeps_intros keeps_ext) simp_all
  obtain q c1 h1 where run: "ensureContainerRunning E (c, h) = (q, (c1, h1))" by (rule run_exists)
  have gw: "c_gatewayEnvironmentVariables c1 = ?gw" using keepsD [OF keep _ run] by simp
  have vars: "map_of (actualVariables ?gw vars) k = (map_of ?gw ++ map_of vars) k" for k
    unfolding actualVariables_def map_of_actualVariables [OF ordered_distinct [OF assms(1)]]
    by (auto simp: map_add_def split: option.splits)
  from assms(2) run gw show ?thesis
    unfolding executeFunction_def
    by (auto simp: True bnd_def getm_def ret_def throw_def lxc_def ext_def sys_def
      split: sum.splits prod.splits if_splits intro!: exI [of _ "actualVariables ?gw vars"] vars)
qed

definition running_container :: container where
  "running_container = (newContainer ''SC-0'' '''' ''/sc'' False 1)\<lparr>c_state := STARTED, c_hasContainer := True,
     c_gatewayEnvironmentVariables := [(''A'', ''gateway''), (''B'', ''gateway'')]\<rparr>"

lemma running_simps [simp]: "c_state running_container = STARTED" "c_hasContainer running_container"
  "c_gatewayEnvironmentVariables running_container = [(''A'', ''gateway''), (''B'', ''gateway'')]"
  by (simp_all add: running_container_def)

theorem execute_environment_witness:
  "\<exists>h' actual h1. snd (snd (executeFunction (lxc_env 0 0) (ret (Some 0)) 0 [(''A'', ''caller'')] 0 1 2 (running_container, []))) = h' \<and>
     map_of actual ''A'' = Some ''caller'' \<and> map_of actual ''B'' = Some ''gateway'' \<and>
     executeInContainerEntryFunction (lxc_env 0 0) (ret (Some 0)) (Lxc (LxcAttach (env_strings actual) 0 1 2) # h1) = (Inr (Some 0), h')"
proof -
  obtain h' where run: "executeFunction (lxc_env 0 0) (ret (Some 0)) 0 [(''A'', ''caller'')] 0 1 2 (running_container, []) =
      (Inr (True, 77, Some 0), (running_container, h'))"
    by (simp add: executeFunction_def executeInContainerEntryFunction_def unlimitCoreDump_def lxc_env_def plain_env_def ensureContainerRunning_def
        lxc_def sys_def act_defs)
  have "ordered (c_gatewayEnvironmentVariables running_container)" by (simp add: ordered_def keys_def)
  from execute_environment [OF this run] show ?thesis by (fastforce simp: run)
qed

section \<open>The exit status of a function\<close>

text \<open>A function whose process ends by a signal, so that its wait status is below 256, counts as
  successful; so does a job that could not be started at all: it waits for the process ID 0, and where
  that wait fails the status is the 0 it was initialised with.\<close>

theorem lost_process_counts_as_success:
  assumes "executeFunction E (function_job f) pid [] (-1) 1 2 (c, h) = (Inr (True, pid', v), (c', h'))"
    and "0 < fst (answer E h' (Proc (WaitPid pid')))" "fst (answer E h' (Proc (WaitPid pid'))) < 256"
    and "c_state d \<noteq> STARTED" "fst (answer E k (Proc (WaitPid 0))) = 0"
  shows "executeSync E f pid (c, h) = (Inr (True, pid'), (c', Proc (WaitPid pid') # h')) \<and>
    runFunctionJob E f (d, k) = (Inr 0, (d, Proc (WaitPid 0) # k))"
proof
  show "executeSync E f pid (c, h) = (Inr (True, pid'), (c', Proc (WaitPid pid') # h'))"
    using assms(2,3) unfolding executeSync_def bnd_run(1) [where m = "executeFunction E (function_job f) pid [] (-1) 1 2", OF assms(1)]
    by (simp add: waitForFunction_def act_defs sys_def WEXITSTATUS_def split: option.split)
  show "runFunctionJob E f (d, k) = (Inr 0, (d, Proc (WaitPid 0) # k))"
    using assms(5) executeFunction_idle [OF assms(4), of E "function_job f" 0 "[]" "-1" "-1" "-1" k]
    by (simp add: runFunctionJob_def startFunctionJob_def waitJob_def newJob_def waitForFunction_def act_defs sys_def
        WEXITSTATUS_def)
qed

theorem lost_process_counts_as_success_witness:
  "fst (executeSync (lxc_env 0 9) (ret 1) 0 (running_container, [])) = Inr (True, 77) \<and>
   fst (runFunctionJob (lxc_env 0 9) (ret 1) (running_container\<lparr>c_state := FROZEN\<rparr>, [])) = Inr 0"
proof -
  obtain h' where run: "executeFunction (lxc_env 0 9) (function_job (ret 1)) 0 [] (-1) 1 2 (running_container, []) =
      (Inr (True, 77, Some 1), (running_container, h'))"
    by (simp add: executeFunction_def executeInContainerEntryFunction_def unlimitCoreDump_def lxc_env_def plain_env_def ensureContainerRunning_def
        lxc_def sys_def act_defs function_job_def)
  show ?thesis
    using lost_process_counts_as_success [OF run, of "running_container\<lparr>c_state := FROZEN\<rparr>" "[]"]
    by (simp add: lxc_env_def)
qed

section \<open>What a bind mount leaves to undo\<close>

lemma keeps_lxc: "stable I \<Longrightarrow> keeps I (lxc E call)"
  unfolding lxc_def by (intro keeps_intros stable_ext)

lemma keeps_ensure: "stable I \<Longrightarrow> keeps I (ensureContainerRunning E)"
  unfolding ensureContainerRunning_def waitForState_def lxcText_def
  by (intro keeps_intros keeps_lxc stable_ext)

lemma keeps_executeFunction: "stable I \<Longrightarrow> keeps I (executeFunction E f pid vars a b c)"
  unfolding executeFunction_def by (intro keeps_intros keeps_ensure keeps_lxc stable_ext)

lemma keeps_wait: "stable I \<Longrightarrow> keeps I (waitForFunction E pid v)"
  unfolding waitForFunction_def by (intro keeps_intros stable_ext)

lemma keeps_executeSync: "stable I \<Longrightarrow> keeps I (executeSync E f pid)"
  unfolding executeSync_def by (intro keeps_intros keeps_executeFunction keeps_wait)

lemma keeps_runFunctionJob: "stable I \<Longrightarrow> keeps I (runFunctionJob E f)"
  unfolding runFunctionJob_def startFunctionJob_def waitJob_def
  by (intro keeps_intros keeps_executeFunction keeps_wait)

lemma keeps_bindMount: "stable I \<Longrightarrow> keeps I (bindMount E src dst root ro wb)"
  unfolding bindMount_def withCreateDir_def by (intro keeps_scoped keeps_intros)

lemma keeps_mountOrRollback:
  assumes "stable I"
  shows "keeps I (mountOrRollback E src dst temp ro)"
proof -
  have "keeps I (bindMountCore E src dst temp ro)"
    unfolding bindMountCore_def moveMount_def remountReadOnlyInContainer_def Let_def using assms
    by (intro keeps_intros keeps_ensure keeps_executeSync keeps_bindMount stable_ext)
  then show ?thesis unfolding mountOrRollback_def using assms by (intro keeps_intros stable_ext)
qed

abbreviation (input) handlers_are :: "container \<Rightarrow> container \<times> calls \<Rightarrow> bool" where
  "handlers_are d s \<equiv> m_cleanupHandlers (fst s) = m_cleanupHandlers d \<and> c_containerRoot (fst s) = c_containerRoot d"

lemma stable_handlers: "stable (handlers_are d)"
  by (simp add: stable_def)

definition registered :: "container \<Rightarrow> string \<Rightarrow> container \<times> calls \<Rightarrow> bool" where
  "registered d temp s \<longleftrightarrow> (\<exists>file_handler \<in> {[], [FileCleanUp temp]}.
     m_cleanupHandlers (fst s) = m_cleanupHandlers d @ file_handler @ [MountCleanUp temp])"

lemma scoped_handlers:
  assumes "keeps (handlers_are d) rest"
  shows "triple (handlers_are d) (scopedCreateDir E create rest
      (\<lambda>c. addHandler (MountCleanUp temp) (if isDir then c else addHandler (FileCleanUp temp) c)))
    (\<lambda>ok s. if ok then registered d temp s else m_cleanupHandlers (fst s) = m_cleanupHandlers d)
    (\<lambda>_ s. m_cleanupHandlers (fst s) = m_cleanupHandlers d)"
  unfolding triple_def
proof (intro allI impI)
  fix s :: "container \<times> calls" assume I: "handlers_are d s"
  obtain c h where s: "s = (c, h)" by force
  obtain q dirs h1 where cr: "create ([], h) = (q, (dirs, h1))" by (rule run_exists)
  obtain p c2 h2 where re: "rest (c, h1) = (p, (c2, h2))" by (rule run_exists)
  have "m_cleanupHandlers c2 = m_cleanupHandlers d" using keepsD [OF assms _ re] I by (simp add: s)
  then show "case scopedCreateDir E create rest
      (\<lambda>c. addHandler (MountCleanUp temp) (if isDir then c else addHandler (FileCleanUp temp) c)) s of
      (Inl e, t) \<Rightarrow> m_cleanupHandlers (fst t) = m_cleanupHandlers d
    | (Inr ok, t) \<Rightarrow> if ok then registered d temp t else m_cleanupHandlers (fst t) = m_cleanupHandlers d"
    using I by (cases q; cases p) (auto simp: scopedCreateDir_def s cr re registered_def addHandler_def)
qed

definition mounted_or_same :: "container \<Rightarrow> string \<Rightarrow> bool \<Rightarrow> container \<times> calls \<Rightarrow> bool" where
  "mounted_or_same d temp ok s \<longleftrightarrow> (if ok then registered d temp s else m_cleanupHandlers (fst s) = m_cleanupHandlers d)"

lemma handlers_bnd:
  assumes "keeps (handlers_are d) m"
    and "\<And>a. triple (handlers_are d) (k a) Q (\<lambda>_ s. m_cleanupHandlers (fst s) = m_cleanupHandlers d)"
  shows "triple (handlers_are d) (bnd m k) Q (\<lambda>_ s. m_cleanupHandlers (fst s) = m_cleanupHandlers d)"
  by (rule triple_bnd [OF triple_post [OF triple_keeps [OF assms(1)]] assms(2)]) simp_all

lemma handlers_andThen:
  assumes "keeps (handlers_are d) m"
    and "triple (handlers_are d) n (mounted_or_same d temp) (\<lambda>_ s. m_cleanupHandlers (fst s) = m_cleanupHandlers d)"
  shows "triple (handlers_are d) (andThen m n) (mounted_or_same d temp) (\<lambda>_ s. m_cleanupHandlers (fst s) = m_cleanupHandlers d)"
  unfolding andThen_def
  by (rule handlers_bnd [OF assms(1)]) (auto simp: assms(2) mounted_or_same_def intro: triple_ret)

lemma handlers_get:
  assumes "\<And>c. gatewaysDir E c = gatewaysDir E d \<Longrightarrow> triple (handlers_are d) (k c) Q X"
  shows "triple (handlers_are d) (bnd (getm (\<lambda>c. c)) k) Q X"
  using assms by (auto simp: triple_def bnd_def getm_def gatewaysDir_def)

lemma bind_mount_triple:
  "triple (handlers_are d) (container_bindMountInContainer E fuel src dst ro)
    (mounted_or_same d (buildPath E (gatewaysDir E d) (baseName E dst))) (\<lambda>_ s. m_cleanupHandlers (fst s) = m_cleanupHandlers d)"
  unfolding container_bindMountInContainer_def Let_def
proof (intro handlers_andThen handlers_get handlers_bnd)
  show "keeps (handlers_are d) (bnd (executeSync E (checkMounted E fuel dst) INVALID_PID) (\<lambda>(ok, _). ret ok))"
    by (intro keeps_intros keeps_executeSync stable_handlers)
  show "keeps (handlers_are d) (ext (existsInFileSystem E src))" "keeps (handlers_are d) (ext (isDirectory E src))"
    by (auto intro: keeps_ext)
  fix c :: container and isDir
  assume same: "gatewaysDir E c = gatewaysDir E d"
  show "triple (handlers_are d) (scopedCreateDir E
      (prepareTarget E isDir (buildPath E (gatewaysDir E c) (baseName E dst))
        (pathInList (buildPath E (gatewaysDir E c) (baseName E dst)) c))
      (mountOrRollback E src dst (buildPath E (gatewaysDir E c) (baseName E dst)) ro)
      (\<lambda>ca. addHandler (MountCleanUp (buildPath E (gatewaysDir E c) (baseName E dst)))
         (if isDir then ca else addHandler (FileCleanUp (buildPath E (gatewaysDir E c) (baseName E dst))) ca)))
    (mounted_or_same d (buildPath E (gatewaysDir E d) (baseName E dst))) (\<lambda>_ s. m_cleanupHandlers (fst s) = m_cleanupHandlers d)"
    unfolding same mounted_or_same_def [abs_def] by (rule scoped_handlers [OF keeps_mountOrRollback [OF stable_handlers]])
qed

text \<open>A bind mount into the container that succeeds adds exactly the handlers that undo it: one that
  unmounts the path under the directory of the gateways, last and therefore undone first, and before it
  one that removes the file there where the mounted path is no directory. One that fails or throws
  leaves the handlers as they were.\<close>

theorem bind_mount_handlers:
  assumes "container_bindMountInContainer E fuel src dst ro (c, h) = (r, (c', h'))"
    and "temp = buildPath E (gatewaysDir E c) (baseName E dst)"
  shows "if r = Inr True
    then \<exists>file_handler \<in> {[], [FileCleanUp temp]}. m_cleanupHandlers c' = m_cleanupHandlers c @ file_handler @ [MountCleanUp temp]
    else m_cleanupHandlers c' = m_cleanupHandlers c"
  using tripleD [OF bind_mount_triple [of c] _ assms(1)] unfolding registered_def mounted_or_same_def assms(2)
  by (auto split: sum.splits)

definition mount_run :: "(exn + bool) \<times> container \<times> calls" where
  "mount_run = container_bindMountInContainer (lxc_env 0 0) 2 ''/'' ''/m'' False (running_container, [])"

lemma mount_run_result: "fst mount_run = Inr True"
  by code_simp

theorem bind_mount_handlers_witness:
  "fst mount_run = Inr True \<and> (\<exists>file_handler \<in> {[], [FileCleanUp ''/sc//gateways//m'']}.
     m_cleanupHandlers (fst (snd mount_run)) = file_handler @ [MountCleanUp ''/sc//gateways//m''])"
proof -
  obtain r c h where run: "mount_run = (r, (c, h))" by (cases mount_run) auto
  have r: "r = Inr True" using mount_run_result run by (metis fst_conv)
  have temp: "''/sc//gateways//m'' = buildPath (lxc_env 0 0) (gatewaysDir (lxc_env 0 0) running_container) (baseName (lxc_env 0 0) ''/m'')"
    by code_simp
  have none: "m_cleanupHandlers running_container = []" by code_simp
  from bind_mount_handlers [OF run [unfolded mount_run_def] temp] show ?thesis by (simp add: run r none)
qed

section \<open>The promise to the gateways\<close>

text \<open>No request of a gateway changes the state of the container or drops the handle.\<close>

lemma stable_at: "stable (at p)"
  by (simp add: stable_def at_def)

lemma at_bindMount: "keeps (at p) (container_bindMountInContainer E fuel src dst ro)"
  unfolding container_bindMountInContainer_def Let_def
  by (intro keeps_intros stable_ext [OF stable_at] keeps_executeSync [OF stable_at] keeps_scoped
      stable_at keeps_mountOrRollback) (simp add: at_def)

lemma framed_keeps: "framed p m \<Longrightarrow> keeps (at p) m"
proof (rule keepsI)
  fix s :: "container \<times> calls" assume m: "framed p m" "at p s"
  obtain r t where run: "m s = (r, t)" by (cases "m s") auto
  from tripleD [OF m(1) [unfolded framed_def] m(2) run] show "at p (snd (m s))"
    by (cases r) (simp_all add: run)
qed

lemma at_job: "keeps (at p) (\<lambda>(c, h). runFunctionJob E (g c) (c, h))"
proof (rule keepsI)
  fix s :: "container \<times> calls" assume "at p s"
  then show "at p (snd (case s of (c, h) \<Rightarrow> runFunctionJob E (g c) (c, h)))"
    using keepsD2 [OF keeps_runFunctionJob [OF stable_at]] by (cases s) simp
qed

interpretation lxcif: container_frame "lxc_container_if E fuel" "at p"
proof unfold_locales
  show "keeps (at p) (ci_bindMountInContainer (lxc_container_if E fuel) src dst ro)" for src dst ro
    by (simp add: lxc_container_if_def at_bindMount)
  show "keeps (at p) (ci_setEnvironmentVariable (lxc_container_if E fuel) k v)" for k v
    by (simp add: lxc_container_if_def framed_keeps framed_setEnvironmentVariable)
  show "keeps (at p) (ci_setCgroupItem (lxc_container_if E fuel) k v)" for k v
    by (simp add: lxc_container_if_def container_setCgroupItem_def keeps_bnd keeps_lxc keeps_ret stable_at)
  show "keeps (at p) (ci_mountDevice (lxc_container_if E fuel) path)" for path
    unfolding lxc_container_if_def container_mountDevice_def container_if.simps
    by (intro keeps_intros keeps_ensure keeps_lxc stable_at)
  show "keeps (at p) (ci_runJob (lxc_container_if E fuel) f)" for f
    by (simp add: lxc_container_if_def at_job)
  show "keeps (at p) (ci_call (lxc_container_if E fuel) c)" for c
    by (simp add: lxc_container_if_def stable_ext stable_at)
qed

lemma start_succeeds:
  assumes "container_start E (c, h) = (Inr (True, pid), (c', h'))" "started (part c)"
  shows "part c' = (STARTED, True)"
proof -
  have "CONTAINER_CREATED \<le> c_state c"
    using assms(1) by (auto simp: container_start_def act_defs split: if_splits)
  with assms(2) have c: "c_hasContainer c" by (auto simp: started_def part_def)
  obtain q d k where run: "ensureContainerRunning E (c\<lparr>c_state := STARTED\<rparr>, Lxc LxcInitPid # Lxc (LxcStart [''env'', ''/bin/sleep'', ''100000000'']) # h)
      = (q, (d, k))" by (rule run_exists)
  have "at (STARTED, True) (d, k)"
    using keepsD [OF keeps_ensure [OF stable_at] _ run] c by (simp add: at_def part_def)
  moreover have "c' = d" using assms(1) c run
    by (auto simp: container_start_def setState_def lxc_def sys_def bnd_def seq_def ret_def getm_def updm_def ext_def
        split: if_splits sum.splits)
  ultimately show ?thesis by (simp add: at_def)
qed

text \<open>Shutting down and destroying throw nothing of their own.\<close>

definition quiet :: "('s, 'a) act \<Rightarrow> bool" where
  "quiet m \<longleftrightarrow> (\<forall>s e. fst (m s) = Inl e \<longrightarrow> e = UndefinedBehaviour)"

lemma quiet_basic: "quiet (ret a)" "quiet (throw UndefinedBehaviour)" "quiet (getm f)" "quiet (updm g)" "quiet (sys E c)"
  "quiet (sysText E c)"
  by (simp_all add: quiet_def act_defs sys_def sysText_def)

lemma quiet_bnd: "quiet m \<Longrightarrow> (\<And>a. quiet (f a)) \<Longrightarrow> quiet (bnd m f)"
  unfolding quiet_def bnd_def by (auto split: sum.splits prod.splits) (metis fst_conv)+

lemma quiet_seq: "quiet m \<Longrightarrow> quiet n \<Longrightarrow> quiet (seq m n)"
  by (simp add: seq_def quiet_bnd)

lemma quiet_andThen: "quiet m \<Longrightarrow> quiet n \<Longrightarrow> quiet (andThen m n)"
  by (simp add: andThen_def quiet_bnd quiet_basic)

lemma quiet_ext: "quiet m \<Longrightarrow> quiet (ext m)"
  by (auto simp: quiet_def ext_def split: prod.splits) (metis fst_conv)

lemma quiet_if: "quiet m \<Longrightarrow> quiet n \<Longrightarrow> quiet (if b then m else n)"
  by simp

lemma quiet_case: "(\<And>a b. quiet (f a b)) \<Longrightarrow> quiet (case x of (a, b) \<Rightarrow> f a b)"
  by (cases x) simp

lemmas quiet_rules = quiet_bnd quiet_seq quiet_andThen quiet_if quiet_case quiet_ext quiet_basic

lemma quiet_destroy: "quiet (container_destroy E timeout)"
  unfolding container_destroy_def container_shutdown_def container_stop_def waitForState_def lxc_def lxcText_def setState_def
  by (intro quiet_rules)

lemma any_triple: "triple P m (\<lambda>_ _. True) (\<lambda>_ _. True)"
  by (simp add: triple_def split: sum.split prod.split)

lemma triple_destroyed:
  "triple (\<lambda>_. True) (container_destroy E timeout) (\<lambda>ok s. ok \<longrightarrow> c_state (fst s) = DESTROYED) (\<lambda>_ _. True)"
  unfolding container_destroy_def andThen_def setState_def
  by (intro triple_bnd [OF any_triple] triple_if triple_seq [OF triple_updm] triple_ret) simp_all

lemma destroy_succeeds:
  "container_destroy E timeout s = (Inr True, t) \<Longrightarrow> c_state (fst t) = DESTROYED"
  by (drule tripleD [OF triple_destroyed, rotated]) simp_all

lemma destroy_returns:
  assumes "started (part c)" "container_destroy E timeout (c, h) = (r, t)"
  shows "\<exists>ok. r = Inr ok \<and> started (part (fst t))"
proof -
  obtain q where run: "perform E (OpDestroy timeout) (c, h) = (q, t)" and q: "\<And>e. r = Inl e \<Longrightarrow> q = Inl e"
    using assms(2) by (cases r) (auto simp: done_with_def bnd_def ret_def)
  from perform_moves [OF run] assms(1) have "started (part (fst t))" "q \<noteq> Inl UndefinedBehaviour" by (auto simp: okay_def)
  moreover have "r = Inl e \<Longrightarrow> e = UndefinedBehaviour" for e
    using quiet_destroy assms(2) unfolding quiet_def by (metis fst_conv)
  ultimately show ?thesis using q by (cases r) auto
qed


section \<open>The loops in the container return\<close>

text \<open>The climb to the parents that are missing ends where the root and the current directory exist; the
  fuel it is given is enough.\<close>

lemma missingPaths_returns:
  assumes "\<And>h. fst (answer E h (File (Stat ''/''))) = S_IFDIR" "\<And>h. fst (answer E h (File (Stat ''.''))) = S_IFDIR"
  shows "length path + 2 \<le> fuel \<or> path \<in> {''/'', ''.''} \<and> 0 < fuel \<Longrightarrow>
    \<exists>ps. fst (missingPaths E fuel path paths h) = Inr ps"
proof (induction fuel arbitrary: path paths h)
  case (Suc fuel)
  show ?case
  proof (cases "fst (answer E h (File (Stat path))) = S_IFDIR")
    case False
    with assms have "path \<notin> {''/'', ''.''}" by auto
    with Suc.prems have len: "length path + 1 \<le> fuel" by simp
    have "length (parentPath path) + 2 \<le> fuel \<or> parentPath path \<in> {''/'', ''.''} \<and> 0 < fuel"
    proof (cases "parentPath path \<in> {''/'', ''.''}")
      case False
      then have "length (parentPath path) < length path" by (intro parentPath_shorter) auto
      with len show ?thesis by simp
    qed (use len in auto)
    from Suc.IH [OF this] False show ?thesis by (simp add: bnd_def isDirectory_run)
  qed (simp add: act_defs isDirectory_run)
qed simp

lemma makePaths_returns: "\<exists>n. fst (makePaths E ps h) = Inr n"
  by (induction ps arbitrary: h) (simp_all add: act_defs sys_def)

lemma createParentDirectories_returns:
  assumes "\<And>h. fst (answer E h (File (Stat ''/''))) = S_IFDIR" "\<And>h. fst (answer E h (File (Stat ''.''))) = S_IFDIR"
  shows "\<exists>n. fst (createParentDirectories E path h) = Inr n"
proof -
  obtain ps k where "missingPaths E (length path + 2) path [] h = (Inr ps, k)"
    using missingPaths_returns [OF assms, of path "length path + 2" "[]" h] by (metis order_refl prod.collapse)
  then show ?thesis using makePaths_returns [of E ps k] by (simp add: createParentDirectories_def bnd_def)
qed

text \<open>The walk over the mounts ends with as much fuel as there are entries and one more: \<open>n\<close> entries are
  left where the \<open>n\<close> + 1st answer is 0.\<close>

fun mounts_left :: "environment \<Rightarrow> nat \<Rightarrow> calls \<Rightarrow> bool" where
  "mounts_left E 0 h \<longleftrightarrow> fst (answer E h (Mnt GetMntent)) = 0"
| "mounts_left E (Suc n) h \<longleftrightarrow> fst (answer E h (Mnt GetMntent)) = 0 \<or> mounts_left E n (Mnt GetMntent # h)"

lemma mountedLoop_returns: "mounts_left E n h \<Longrightarrow> n < fuel \<Longrightarrow> \<exists>r. fst (mountedLoop E fuel path h) = Inr r"
proof (induction n arbitrary: fuel h)
  case 0
  then obtain f where "fuel = Suc f" by (cases fuel) auto
  then show ?case using 0 by (auto simp: act_defs sysText_def split: prod.split)
next
  case (Suc n)
  then obtain f where f: "fuel = Suc f" "n < f" by (cases fuel) auto
  obtain r d where a: "answer E h (Mnt GetMntent) = (r, d)" by force
  show ?case
  proof (cases "r = 0 \<or> d = path")
    case False
    then have "mounts_left E n (Mnt GetMntent # h)" using Suc.prems(1) a by simp
    from Suc.IH [OF this f(2)] show ?thesis using False a by (simp add: f act_defs sysText_def)
  qed (auto simp: f a act_defs sysText_def)
qed

end
