(* ===== verification/ContainerClient.thy ===== *)
theory ContainerClient
  imports EnvGateway FileGateway CgroupsGateway DeviceNodeGateway NetworkGateway PulseWayland DBusGateway
begin

text \<open>
  What the gateways do to the container they work on. A gateway reaches the container through
  \<open>container_if\<close> only, so that a property of the container which no operation of the interface
  breaks survives every public operation of every gateway; the network gateway needs the same of the
  kernels it talks to.
\<close>

section \<open>Public operations over virtual functions\<close>

lemma through_setConfig:
  assumes "\<And>e. keeps (through I) (R e)"
  shows "keeps (through I) (setConfig R j)"
  by (rule keeps_setConfig [OF assms]) simp

lemma through_activate: "keeps (through I) A \<Longrightarrow> keeps (through I) (activate A)"
  by (rule keeps_activate) simp_all

lemma through_teardown: "keeps (through I) D \<Longrightarrow> keeps (through I) (teardown D)"
  by (rule keeps_teardown) simp_all

section \<open>Reading a configuration does not reach the container\<close>

lemma through_env_read: "keeps (through I) (env_readConfigElement e)"
  unfolding env_readConfigElement_def by (auto simp: Let_def split: prod.splits intro!: keeps_through)

lemma through_file_read: "keeps (through I) (file_readConfigElement garbage e)"
  unfolding file_readConfigElement_def by (auto simp: Let_def split: prod.splits intro!: keeps_through)

lemma through_cg_read: "keeps (through I) (cg_readConfigElement stale e)"
  by (rule keeps_cg_step) simp

lemma through_dev_read: "keeps (through I) (dev_readConfigElement e)"
  unfolding dev_readConfigElement_def by (auto simp: Let_def split: prod.splits intro!: keeps_through)

lemma through_net_read: "keeps (through I) (net_readConfigElement e)"
  unfolding net_readConfigElement_def by (auto split: sum.splits prod.splits intro!: keeps_through)

lemma through_pulse_read: "keeps (through I) (pulse_readConfigElement e)"
  unfolding pulse_readConfigElement_def by (auto simp: Let_def split: prod.splits intro!: keeps_through)

lemma through_wayland_read: "keeps (through I) (wayland_readConfigElement e)"
  unfolding wayland_readConfigElement_def by (auto simp: Let_def split: prod.splits intro!: keeps_through)

lemma through_dbus_read: "keeps (through I) (dbus_readConfigElement e)"
  unfolding dbus_readConfigElement_def by (auto simp: keeps_def split: prod.splits sum.splits)

lemma through_dbus_setConfig: "keeps (through I) (dbus_setConfig j)"
proof -
  have bus: "keeps (through I) (onSession (setConfig dbus_readConfigElement j))"
    "keeps (through I) (onSystem (setConfig dbus_readConfigElement j))"
    unfolding onSession_def onSystem_def
    by (intro keeps_through_on through_setConfig through_dbus_read)+
  show ?thesis unfolding dbus_setConfig_def
    by (rule keeps_catch) (intro keeps_bnd bus keeps_if keeps_ret, auto intro: keeps_ret split: if_splits)
qed

section \<open>Activation and teardown\<close>

context container_frame
begin

lemma env_activation: "keeps (through I) (env_activateGateway C)"
  unfolding env_activateGateway_def by (intro keeps_through requests)

lemma file_activation: "keeps (through I) (file_activateGateway C)"
  unfolding file_activateGateway_def file_bindMount_def by (intro keeps_through requests)

lemma cg_apply: "keeps (through I) (cg_applySettings C b settings)"
proof (induction settings arbitrary: b)
  case (Cons p settings)
  obtain k v where p: "p = (k, v)" by force
  show ?case unfolding p cg_applySettings.simps by (intro keeps_through requests Cons.IH)
qed (simp add: keeps_ret)

lemma cg_activation: "keeps (through I) (cg_activateGateway C)"
  unfolding cg_activateGateway_def by (intro keeps_through cg_apply)

lemma one_device: "keeps (through I) (activateDevice C)"
  unfolding activateDevice_def by (intro keeps_through requests run_job)

lemma each_device: "I c \<Longrightarrow> activateDevices C devs c = (r, devs', c') \<Longrightarrow> I c'"
proof (induction devs arbitrary: c r devs')
  case (Cons dev devs)
  obtain q dev1 c1 where run: "activateDevice C (dev, c) = (q, (dev1, c1))" by (rule run_exists)
  have "I c1" using keepsD [OF one_device _ run] Cons.prems(1) by simp
  with Cons.IH [of c1] Cons.prems(2) show ?case
    by (auto simp: run split: sum.splits if_splits prod.splits)
qed simp

lemma dev_activation: "keeps (through I) (dev_activateGateway C)"
proof -
  have "keeps (through I) (\<lambda>(ds, c). activateDevices C ds c)"
  proof (rule keepsI)
    fix s :: "device list \<times> 'c" assume I: "through I s"
    obtain ds c where s: "s = (ds, c)" by force
    obtain r ds' c' where run: "activateDevices C ds c = (r, ds', c')" by (rule run_exists)
    show "through I (snd (case s of (ds, c) \<Rightarrow> activateDevices C ds c))"
      using each_device [OF _ run] I by (simp add: s run)
  qed
  then show ?thesis unfolding dev_activateGateway_def by (intro keeps_through)
qed

lemma pulse_activation: "keeps (through I) (pulse_activateGateway E C)"
proof -
  have "keeps I (enablePulseAudio E C)"
    unfolding enablePulseAudio_def Let_def by (intro keeps_intros requests)
  then show ?thesis unfolding pulse_activateGateway_def by (intro keeps_through)
qed

lemma wayland_activation: "keeps (through I) (wayland_activateGateway E C)"
  unfolding wayland_activateGateway_def Let_def by (intro keeps_through requests)

lemma proxy_activation: "keeps (through I) (dbus_activateGateway json_dumps E C)"
proof -
  have loop: "keeps I (socketLoop C socket n)" for socket n
    by (induction n) (simp_all add: keeps_ret keeps_bnd keeps_if requests)
  have start: "keeps (through I) (startDBusProxy C cmd env)" for cmd env
    unfolding startDBusProxy_def by (intro keeps_through requests)
  show ?thesis
    unfolding dbus_activateGateway_def setUpProxy_def testDBusConnection_def isSocketCreated_def Let_def
    by (intro keeps_through requests loop start)
qed

lemma proxy_teardown: "keeps (through I) (dbus_teardownGateway C)"
  unfolding dbus_teardownGateway_def by (intro keeps_through requests)

lemma proxy_destruction: "keeps (through I) (destroyInstance C)"
  unfolding destroyInstance_def by (intro keeps_through through_teardown proxy_teardown)

lemma dbus_activation: "keeps (through I) (dbus_activate json_dumps E C)"
  unfolding dbus_activate_def onSession_def onSystem_def Let_def
  by (intro keeps_through through_activate proxy_activation)

lemma dbus_tear: "keeps (through I) (dbus_teardown C)"
  unfolding dbus_teardown_def onSession_def onSystem_def
  by (intro keeps_through through_teardown proxy_teardown)

lemma iptables: "keeps I (applyRules C e)"
  unfolding applyRules_def applyRule_def insertCommand_def by (intro keeps_intros requests)

end

section \<open>The network gateway\<close>

text \<open>A kernel whose calls leave the property alone.\<close>

locale kernel_frame =
  fixes K :: "'c kernel_if" and I :: "'c \<Rightarrow> bool"
  assumes k_socket: "keeps I (k_socket K)"
    and k_bind: "keeps I (k_bind K)"
    and k_sendmsg: "keeps I (k_sendmsg K request)"
    and k_recvmsg: "keeps I (k_recvmsg K)"
begin

lemma netlink_setup: "keeps (through I) (setupNetlink K)"
  unfolding setupNetlink_def by (intro keeps_through k_socket k_bind)

lemma netlink_loop: "keeps (through I) (readLoop K fuel)"
proof (induction fuel)
  case (Suc fuel)
  have "keeps (through I) (\<lambda>(n, c). case handleMessages ms b n of
       (Inl e, n') \<Rightarrow> (Inr e, (n', c))
     | (Inr end, n') \<Rightarrow> if end then (Inr 0, (n', c)) else readLoop K fuel (n', c))" for ms b
  proof (rule keepsI)
    fix s :: "netlink \<times> 'c" assume I: "through I s"
    obtain n c where s: "s = (n, c)" by force
    obtain r n' where run: "handleMessages ms b n = (r, n')" by force
    have "through I (snd (readLoop K fuel (n', c)))" using keepsD2 [OF Suc.IH, of "(n', c)"] I by (simp add: s)
    then show "through I (snd ((\<lambda>(n, c). case handleMessages ms b n of
       (Inl e, n') \<Rightarrow> (Inr e, (n', c))
     | (Inr end, n') \<Rightarrow> if end then (Inr 0, (n', c)) else readLoop K fuel (n', c)) s))"
      using I by (auto simp: s run split: sum.split)
  qed
  then show ?case unfolding readLoop.simps by (intro keeps_through k_recvmsg)
qed (simp add: keeps_throw)

lemma netlink_send: "keeps (through I) (sendMessage K fuel request)"
  unfolding sendMessage_def readMessage_def by (intro keeps_through netlink_setup netlink_loop k_sendmsg)

lemma netlink_create: "keeps (through I) (createMessage type flags payload)"
  unfolding createMessage_def by (intro keeps_through)

lemma netlink_dump: "keeps (through I) (getKernelDump K fuel)" "keeps (through I) (checkKernelDump K fuel)"
  unfolding checkKernelDump_def getKernelDump_def
  by (intro keeps_through netlink_send netlink_create)+

lemma netlink_construct: "keeps (through I) (constructNetlink K fuel)"
  unfolding constructNetlink_def by (intro keeps_through netlink_setup netlink_dump)

lemma netlink_requests:
  "keeps (through I) (setDefaultGateway K fuel gateway)" "keeps (through I) (linkUp K fuel i)"
  "keeps (through I) (setIP K fuel i ip netmask)" "keeps (through I) (linkDown K fuel i)"
  "keeps (through I) (findLink K fuel name)" "keeps (through I) (findAddresses K fuel index)"
  unfolding setDefaultGateway_def linkUp_def setIP_def linkDown_def findLink_def findAddresses_def Let_def
  by (intro keeps_through netlink_send netlink_create netlink_dump)+

lemma netlink_job:
  assumes "keeps (through I) body"
  shows "keeps I (withNetlink K fuel body)"
proof (rule keepsI)
  fix c assume "I c"
  have seq: "keeps (through I) (seq (constructNetlink K fuel) body)"
    by (intro keeps_through netlink_construct assms)
  obtain r n c' where run: "seq (constructNetlink K fuel) body (emptyNetlink, c) = (r, (n, c'))" by (rule run_exists)
  from keepsD [OF seq _ run] \<open>I c\<close> show "I (snd (withNetlink K fuel body c))"
    by (simp add: withNetlink_def run)
qed

end

locale network_frame = container_frame C I + host: kernel_frame Kh I + inner: kernel_frame Kc I
  for C :: "'c container_if" and I :: "'c \<Rightarrow> bool" and Kh Kc :: "'c kernel_if"
begin

lemma net_bridge: "keeps (through I) (isBridgeAvailable Kh fuel)"
  unfolding isBridgeAvailable_def Let_def by (intro keeps_through host.netlink_requests)

lemma net_up: "keeps (through I) (network_up C Kc fuel)"
  unfolding network_up_def setDefaultGatewayJob_def bringUpEthernet_def
  by (intro keeps_through run_job inner.netlink_job inner.netlink_requests)

lemma net_activation: "keeps (through I) (net_activateGateway C Kh Kc fuel)"
  unfolding net_activateGateway_def
  by (intro keeps_through net_bridge net_up run_job iptables) (auto split: sum.splits intro!: keeps_through net_up run_job iptables)

end

end
