(* ===== verification/SoftwareContainer.thy ===== *)
theory SoftwareContainer
  imports LxcContainer ContainerClient
begin

text \<open>
  The class \<open>SoftwareContainer\<close> of \<open>softwarecontainer.cpp\<close>, the workspace of one application: a
  container, the gateways that open it to the outside, and a state of its own that decides which
  operations are allowed. \<open>SoftwareContainerConfig\<close> is the record \<open>sc_config\<close>. All the gateways
  are enabled, as by default in the build. The listeners of the observable state are not modelled;
  no code of the program adds one.
\<close>

section \<open>SoftwareContainerConfig\<close>

record sc_config =
  shouldCreateBridge :: bool
  bridgeDevice :: string
  bridgeIPAddress :: string
  bridgeNetmask :: string
  bridgeNetmaskBitLength :: int
  bridgeNetAddr :: string
  containerConfigPath :: string
  sharedMountsDir :: string
  containerShutdownTimeout :: int
  writeBufferEnabled :: bool
  temporaryFileSystemWriteBufferEnableds :: bool
  temporaryFileSystemSize :: int

text \<open>The constructor leaves the members that have setters as they are in memory: \<open>uninit\<close>.\<close>

definition newSoftwareContainerConfig ::
    "bool \<times> bool \<times> int \<Rightarrow> bool \<Rightarrow> string \<Rightarrow> string \<Rightarrow> string \<Rightarrow> int \<Rightarrow> string \<Rightarrow> string \<Rightarrow> string \<Rightarrow> int \<Rightarrow> sc_config" where
  "newSoftwareContainerConfig uninit create device ip netmask bits netAddr configPath mountsDir timeout =
     \<lparr>shouldCreateBridge = create, bridgeDevice = device, bridgeIPAddress = ip, bridgeNetmask = netmask,
      bridgeNetmaskBitLength = bits, bridgeNetAddr = netAddr, containerConfigPath = configPath,
      sharedMountsDir = mountsDir, containerShutdownTimeout = timeout, writeBufferEnabled = fst uninit,
      temporaryFileSystemWriteBufferEnableds = fst (snd uninit), temporaryFileSystemSize = snd (snd uninit)\<rparr>"

definition setEnableWriteBuffer :: "bool \<Rightarrow> sc_config \<Rightarrow> sc_config" where
  "setEnableWriteBuffer flag cfg = cfg\<lparr>writeBufferEnabled := flag\<rparr>"

definition setEnableTemporaryFileSystemWriteBuffers :: "bool \<Rightarrow> sc_config \<Rightarrow> sc_config" where
  "setEnableTemporaryFileSystemWriteBuffers flag cfg = cfg\<lparr>temporaryFileSystemWriteBufferEnableds := flag\<rparr>"

definition setTemporaryFileSystemSize :: "int \<Rightarrow> sc_config \<Rightarrow> sc_config" where
  "setTemporaryFileSystemSize n cfg = cfg\<lparr>temporaryFileSystemSize := n\<rparr>"

section \<open>What surrounds a workspace\<close>

text \<open>The system calls, the kernels the network gateway talks to on the host and in the container, how
  many rounds loops without a bound may take, the values of the uninitialised variable of the file
  gateway and of the stale \<open>errno\<close> of the cgroups gateway, and the constants of the build.\<close>

record platform =
  p_env :: environment
  p_host_kernel :: "calls kernel_if"
  p_inner_kernel :: "calls kernel_if"
  p_fuel :: nat
  p_garbage :: bool
  p_stale_errno :: bool
  p_json_dumps :: "json \<Rightarrow> string"
  p_lxc_root :: string
  p_lxc_template :: string
  p_install_bindir :: string

text \<open>The kernels leave the data of the library alone.\<close>

definition lift_kernel :: "calls kernel_if \<Rightarrow> (container \<times> calls) kernel_if" where
  "lift_kernel K = \<lparr>k_socket = ext (k_socket K), k_bind = ext (k_bind K), k_sendmsg = (\<lambda>q. ext (k_sendmsg K q)),
     k_recvmsg = ext (k_recvmsg K), inet_aton = inet_aton K, inet_pton = inet_pton K, inet_ntop = inet_ntop K\<rparr>"

definition p_host :: "platform \<Rightarrow> (container \<times> calls) kernel_if" where
  "p_host P = lift_kernel (p_host_kernel P)"

definition p_inner :: "platform \<Rightarrow> (container \<times> calls) kernel_if" where
  "p_inner P = lift_kernel (p_inner_kernel P)"

definition p_container :: "platform \<Rightarrow> (container \<times> calls) container_if" where
  "p_container P = lxc_container_if (p_env P) (p_fuel P)"

section \<open>Gateways of any class\<close>

datatype any_gateway =
    FileGw file_gateway | NetworkGw network_gateway | PulseGw pulse_gateway | DeviceGw device_gateway
  | DBusGw dbus_gateway | CgroupsGw cgroups_gateway | WaylandGw wayland_gateway | EnvGw env_gateway

type_synonym gw_meth = "(any_gateway, container \<times> calls, bool) meth"

definition wrap :: "('g \<Rightarrow> any_gateway) \<Rightarrow> ('g, container \<times> calls, 'a) meth \<Rightarrow> 'g \<Rightarrow> container \<times> calls \<Rightarrow>
    (exn + 'a) \<times> any_gateway \<times> container \<times> calls" where
  "wrap K m g c = (case m (g, c) of (r, (g', c')) \<Rightarrow> (r, (K g', c')))"

fun gw_id :: "any_gateway \<Rightarrow> string" where
  "gw_id (FileGw g) = m_id g" | "gw_id (NetworkGw g) = m_id g" | "gw_id (PulseGw g) = m_id g"
| "gw_id (DeviceGw g) = m_id g" | "gw_id (DBusGw g) = m_id g" | "gw_id (CgroupsGw g) = m_id g"
| "gw_id (WaylandGw g) = m_id g" | "gw_id (EnvGw g) = m_id g"

fun gw_setConfig :: "platform \<Rightarrow> json \<Rightarrow> gw_meth" where
  "gw_setConfig P j (FileGw g, c) = wrap FileGw (setConfig (file_readConfigElement (p_garbage P)) j) g c"
| "gw_setConfig P j (NetworkGw g, c) = wrap NetworkGw (setConfig net_readConfigElement j) g c"
| "gw_setConfig P j (PulseGw g, c) = wrap PulseGw (setConfig pulse_readConfigElement j) g c"
| "gw_setConfig P j (DeviceGw g, c) = wrap DeviceGw (setConfig dev_readConfigElement j) g c"
| "gw_setConfig P j (DBusGw g, c) = wrap DBusGw (dbus_setConfig j) g c"
| "gw_setConfig P j (CgroupsGw g, c) = wrap CgroupsGw (setConfig (cg_readConfigElement (p_stale_errno P)) j) g c"
| "gw_setConfig P j (WaylandGw g, c) = wrap WaylandGw (setConfig wayland_readConfigElement j) g c"
| "gw_setConfig P j (EnvGw g, c) = wrap EnvGw (setConfig env_readConfigElement j) g c"

fun gw_isConfigured :: "any_gateway \<Rightarrow> bool" where
  "gw_isConfigured (FileGw g) = isConfigured g" | "gw_isConfigured (NetworkGw g) = isConfigured g"
| "gw_isConfigured (PulseGw g) = isConfigured g" | "gw_isConfigured (DeviceGw g) = isConfigured g"
| "gw_isConfigured (DBusGw g) = dbus_isConfigured g" | "gw_isConfigured (CgroupsGw g) = isConfigured g"
| "gw_isConfigured (WaylandGw g) = isConfigured g" | "gw_isConfigured (EnvGw g) = isConfigured g"

fun gw_isActivated :: "any_gateway \<Rightarrow> bool" where
  "gw_isActivated (FileGw g) = isActivated g" | "gw_isActivated (NetworkGw g) = isActivated g"
| "gw_isActivated (PulseGw g) = isActivated g" | "gw_isActivated (DeviceGw g) = isActivated g"
| "gw_isActivated (DBusGw g) = dbus_isActivated g" | "gw_isActivated (CgroupsGw g) = isActivated g"
| "gw_isActivated (WaylandGw g) = isActivated g" | "gw_isActivated (EnvGw g) = isActivated g"

fun gw_activate :: "platform \<Rightarrow> gw_meth" where
  "gw_activate P (FileGw g, c) = wrap FileGw (activate (file_activateGateway (p_container P))) g c"
| "gw_activate P (NetworkGw g, c) = wrap NetworkGw
     (activate (net_activateGateway (p_container P) (p_host P) (p_inner P) (p_fuel P))) g c"
| "gw_activate P (PulseGw g, c) = wrap PulseGw (activate (pulse_activateGateway (p_env P) (p_container P))) g c"
| "gw_activate P (DeviceGw g, c) = wrap DeviceGw (activate (dev_activateGateway (p_container P))) g c"
| "gw_activate P (DBusGw g, c) = wrap DBusGw (dbus_activate (p_json_dumps P) (p_env P) (p_container P)) g c"
| "gw_activate P (CgroupsGw g, c) = wrap CgroupsGw (activate (cg_activateGateway (p_container P))) g c"
| "gw_activate P (WaylandGw g, c) = wrap WaylandGw (activate (wayland_activateGateway (p_env P) (p_container P))) g c"
| "gw_activate P (EnvGw g, c) = wrap EnvGw (activate (env_activateGateway (p_container P))) g c"

fun gw_teardown :: "platform \<Rightarrow> gw_meth" where
  "gw_teardown P (FileGw g, c) = wrap FileGw (teardown file_teardownGateway) g c"
| "gw_teardown P (NetworkGw g, c) = wrap NetworkGw (teardown net_teardownGateway) g c"
| "gw_teardown P (PulseGw g, c) = wrap PulseGw (teardown pulse_teardownGateway) g c"
| "gw_teardown P (DeviceGw g, c) = wrap DeviceGw (teardown dev_teardownGateway) g c"
| "gw_teardown P (DBusGw g, c) = wrap DBusGw (dbus_teardown (p_container P)) g c"
| "gw_teardown P (CgroupsGw g, c) = wrap CgroupsGw (teardown cg_teardownGateway) g c"
| "gw_teardown P (WaylandGw g, c) = wrap WaylandGw (teardown wayland_teardownGateway) g c"
| "gw_teardown P (EnvGw g, c) = wrap EnvGw (teardown env_teardownGateway) g c"

text \<open>The destructors that do something: those of the two instances of the D-Bus gateway, in the reverse
  of their order of declaration.\<close>

fun gw_destroy :: "platform \<Rightarrow> any_gateway \<times> container \<times> calls \<Rightarrow> container \<times> calls" where
  "gw_destroy P (DBusGw g, c) = snd (snd (wrap DBusGw
     (seq (onSystem (destroyInstance (p_container P))) (onSession (destroyInstance (p_container P)))) g c))"
| "gw_destroy P (_, c) = c"

section \<open>The workspace\<close>

datatype WorkspaceState = READY | SUSPENDED | TERMINATED | INVALID

text \<open>The member \<open>m_containerState\<close> has no value before the constructor is through; \<open>None\<close> stands for it.\<close>

record workspace = toolkit +
  sc_containerID :: int
  sc_container :: container
  sc_pcPid :: int
  sc_containerState :: "WorkspaceState option"
  sc_gateways :: "any_gateway list"
  sc_config :: sc_config
  sc_containerRoot :: string
  sc_tmpfsSize :: int
  sc_previouslyConfigured :: bool

type_synonym 'a workspace_meth = "(workspace, calls, 'a) meth"

definition onContainer :: "'a container_meth \<Rightarrow> 'a workspace_meth" where
  "onContainer = on sc_container (\<lambda>c s. s\<lparr>sc_container := c\<rparr>)"

text \<open>A loop over the gateways that returns false at the first one that fails.\<close>

fun gatewaysLoop :: "gw_meth \<Rightarrow> any_gateway list \<Rightarrow> container \<times> calls \<Rightarrow> (exn + bool) \<times> any_gateway list \<times> container \<times> calls" where
  "gatewaysLoop m [] c = (Inr True, [], c)"
| "gatewaysLoop m (g # gs) c = (case m (g, c) of
      (Inl e, (g', c')) \<Rightarrow> (Inl e, g' # gs, c')
    | (Inr ok, (g', c')) \<Rightarrow>
        if \<not> ok then (Inr False, g' # gs, c')
        else (case gatewaysLoop m gs c' of (r, gs', c'') \<Rightarrow> (r, g' # gs', c'')))"

definition eachGateway :: "gw_meth \<Rightarrow> bool workspace_meth" where
  "eachGateway m = (\<lambda>(s, h). case gatewaysLoop m (sc_gateways s) (sc_container s, h) of
     (r, gs, (c, h')) \<Rightarrow> (r, (s\<lparr>sc_gateways := gs, sc_container := c\<rparr>, h')))"

subsection \<open>Construction\<close>

definition checkContainerRoot :: "environment \<Rightarrow> string \<Rightarrow> unit workspace_meth" where
  "checkContainerRoot E rootDir =
     bnd (ext (isDirectory E rootDir)) (\<lambda>isDir.
     seq (if \<not> isDir
          then bnd (withCreateDir E (createDirectory E rootDir) (\<lambda>s. s)) (\<lambda>ok.
                 if \<not> ok then throw SoftwareContainerError else ret ())
          else ret ())
       (bnd (ext (isDirectoryEmpty E rootDir)) (\<lambda>_. ret ())))"

text \<open>\<open>SpawnSync\<close> answers the exit status, with the text of the error where spawning fails.\<close>

definition checkNetworkSettings :: "platform \<Rightarrow> unit workspace_meth" where
  "checkNetworkSettings P = bnd (getm sc_config) (\<lambda>cfg.
     let argv = [buildPath (p_env P) (p_install_bindir P) ''setup_softwarecontainer.sh'', bridgeDevice cfg] @
       (if shouldCreateBridge cfg
        then [bridgeIPAddress cfg, bridgeNetmask cfg, to_string (bridgeNetmaskBitLength cfg), bridgeNetAddr cfg]
        else []) in
     bnd (ext (sysText (p_env P) (Proc (SpawnSync argv)))) (\<lambda>(returnCode, error).
       if error \<noteq> '''' then throw SoftwareContainerError
       else if returnCode \<noteq> 0 then throw SoftwareContainerError else ret ()))"

definition sc_start :: "platform \<Rightarrow> bool workspace_meth" where
  "sc_start P = andThen (onContainer (container_initialize (p_env P)))
     (andThen (onContainer (container_create (p_env P) (p_lxc_root P) (p_lxc_template P)))
       (bnd (onContainer (container_start (p_env P))) (\<lambda>(ok, pid).
          seq (updm (sc_pcPid_update (\<lambda>_. pid))) (if \<not> ok then ret False else ret True))))"

definition getContainerDir :: "environment \<Rightarrow> workspace \<Rightarrow> string" where
  "getContainerDir E s = buildPath E (sharedMountsDir (sc_config s)) (c_id (sc_container s))"

definition getGatewayDir :: "environment \<Rightarrow> workspace \<Rightarrow> string" where
  "getGatewayDir E s = buildPath E (getContainerDir E s) ''gateways''"

definition addGateway :: "any_gateway \<Rightarrow> unit workspace_meth" where
  "addGateway g = updm (\<lambda>s. s\<lparr>sc_gateways := sc_gateways s @ [g]\<rparr>)"

text \<open>The number of bits is narrowed to \<open>uint8_t\<close>.\<close>

definition addNetworkGateway :: "platform \<Rightarrow> unit workspace_meth" where
  "addNetworkGateway P = (\<lambda>(s, h). case newNetworkGateway (p_host P) (p_fuel P) (sc_containerID s)
       (bridgeDevice (sc_config s)) (bridgeIPAddress (sc_config s))
       (word_of_int (bridgeNetmaskBitLength (sc_config s))) (sc_container s, h) of
     (Inl e, (c, h')) \<Rightarrow> (Inl e, (s\<lparr>sc_container := c\<rparr>, h'))
   | (Inr g, (c, h')) \<Rightarrow> addGateway (NetworkGw g) (s\<lparr>sc_container := c\<rparr>, h'))"

definition is_sc_error :: "exn \<Rightarrow> bool" where
  "is_sc_error e \<longleftrightarrow> e \<notin> {GatewayParserError, StdInvalidArgument, StdOutOfRange, GlibError, UndefinedBehaviour, NoReturn}"

definition sc_init :: "platform \<Rightarrow> bool workspace_meth" where
  "sc_init P = andThen (sc_start P)
     (seq (addGateway (FileGw newFileGateway))
     (andThen (catch (seq (addNetworkGateway P) (ret True)) (\<lambda>e. if is_sc_error e then Some (ret False) else None))
     (seq (addGateway (PulseGw newPulseGateway))
     (seq (addGateway (DeviceGw newDeviceNodeGateway))
     (bnd (getm (\<lambda>s. s)) (\<lambda>s.
      seq (addGateway (DBusGw (newDBusGateway (p_env P) (getGatewayDir (p_env P) s) (c_id (sc_container s)))))
     (seq (addGateway (CgroupsGw newCgroupsGateway))
     (seq (addGateway (WaylandGw newWaylandGateway))
     (seq (addGateway (EnvGw newEnvGateway)) (ret True))))))))))"

text \<open>The members are destroyed in the reverse of their order, the vector of gateways from its front, and
  the toolkit last. Exceptions do not leave a destructor.\<close>

fun destroyGateways :: "platform \<Rightarrow> any_gateway list \<Rightarrow> container \<times> calls \<Rightarrow> container \<times> calls" where
  "destroyGateways P [] c = c"
| "destroyGateways P (g # gs) c = destroyGateways P gs (gw_destroy P (g, c))"

definition destroyWorkspace :: "platform \<Rightarrow> workspace \<Rightarrow> calls \<Rightarrow> calls" where
  "destroyWorkspace P s h = (case destroyGateways P (sc_gateways s) (sc_container s, h) of (c, h') \<Rightarrow>
     snd (destroyToolkit (p_env P) s (snd (snd (destroyContainer (p_env P) (c, h'))))))"

definition containerName :: "int \<Rightarrow> string" where
  "containerName cid = ''SC-'' @ to_string cid"

text \<open>The object before the body of the constructor. The container is made in the middle of the body;
  making one has no effect outside, and destroying it neither.\<close>

definition emptyWorkspace :: "platform \<Rightarrow> int \<Rightarrow> sc_config \<Rightarrow> workspace" where
  "emptyWorkspace P cid cfg = (let root = buildPath (p_env P) (sharedMountsDir cfg) (containerName cid) in
     toolkit.extend \<lparr>m_cleanupHandlers = [], m_createDirList = []\<rparr>
       (workspace.fields cid (newContainer (containerName cid) (containerConfigPath cfg) root
            (writeBufferEnabled cfg) (containerShutdownTimeout cfg))
          INVALID_PID None [] cfg root 100485760 False))"

definition constructBody :: "platform \<Rightarrow> unit workspace_meth" where
  "constructBody P = bnd (getm (\<lambda>s. s)) (\<lambda>s. let cfg = sc_config s in
     seq (checkContainerRoot (p_env P) (sc_containerRoot s))
    (seq (if writeBufferEnabled cfg
          then seq (if temporaryFileSystemWriteBufferEnableds cfg
                    then updm (sc_tmpfsSize_update (\<lambda>_. temporaryFileSystemSize cfg)) else ret ())
              (bnd (getm sc_tmpfsSize) (\<lambda>n. bnd (tmpfsMount (p_env P) (sc_containerRoot s) n) (\<lambda>_. ret ())))
          else ret ())
    (seq (checkNetworkSettings P)
    (bnd (sc_init P) (\<lambda>ok.
       if \<not> ok then throw SoftwareContainerError
       else updm (sc_containerState_update (\<lambda>_. Some READY)))))))"

definition newSoftwareContainer :: "platform \<Rightarrow> int \<Rightarrow> sc_config \<Rightarrow> (calls, workspace) act" where
  "newSoftwareContainer P cid cfg h = (case constructBody P (emptyWorkspace P cid cfg, h) of
     (Inl e, (s, h')) \<Rightarrow> (Inl e, destroyWorkspace P s h')
   | (Inr _, (s, h')) \<Rightarrow> (Inr s, h'))"

subsection \<open>Operations\<close>

definition assertValidState :: "unit workspace_meth" where
  "assertValidState = bnd (getm sc_containerState) (\<lambda>st. if st = Some INVALID then throw InvalidContainerError else ret ())"

definition setContainerState :: "WorkspaceState \<Rightarrow> unit workspace_meth" where
  "setContainerState st = updm (sc_containerState_update (\<lambda>_. Some st))"

definition configureGateways :: "platform \<Rightarrow> gateway_configuration \<Rightarrow> bool workspace_meth" where
  "configureGateways P gwConfig = seq assertValidState
     (bnd (getm sc_gateways) (\<lambda>gateways.
       if \<not> (\<forall>cid \<in> set (ids gwConfig). \<exists>g \<in> set gateways. cid = gw_id g) then throw GatewayError
       else eachGateway (bnd (getm gw_id) (\<lambda>gatewayId.
         case config gwConfig gatewayId of None \<Rightarrow> ret True | Some conf \<Rightarrow> gw_setConfig P conf))))"

definition activateGateways :: "platform \<Rightarrow> bool workspace_meth" where
  "activateGateways P = eachGateway (bnd (getm gw_isConfigured) (\<lambda>configured.
     if configured then gw_activate P else ret True))"

definition startGateways :: "platform \<Rightarrow> gateway_configuration \<Rightarrow> bool workspace_meth" where
  "startGateways P gwConfig = seq assertValidState (bnd (getm sc_containerState) (\<lambda>st.
     if st \<noteq> Some READY then throw InvalidOperationError
     else andThen (configureGateways P gwConfig)
         (andThen (activateGateways P)
           (seq (updm (sc_previouslyConfigured_update (\<lambda>_. True))) (ret True)))))"

text \<open>Tearing down goes on after a gateway that fails; \<open>clear\<close> then destroys the gateways.\<close>

fun teardownLoop :: "platform \<Rightarrow> bool \<Rightarrow> any_gateway list \<Rightarrow> container \<times> calls \<Rightarrow>
    (exn + bool) \<times> any_gateway list \<times> container \<times> calls" where
  "teardownLoop P status [] c = (Inr status, [], c)"
| "teardownLoop P status (g # gs) c =
     (if \<not> gw_isActivated g
      then (case teardownLoop P status gs c of (r, gs', c') \<Rightarrow> (r, g # gs', c'))
      else (case gw_teardown P (g, c) of
          (Inl e, (g', c')) \<Rightarrow> (Inl e, g' # gs, c')
        | (Inr ok, (g', c')) \<Rightarrow>
            (case teardownLoop P (status \<and> ok) gs c' of (r, gs', c'') \<Rightarrow> (r, g' # gs', c''))))"

definition shutdownGateways :: "platform \<Rightarrow> bool workspace_meth" where
  "shutdownGateways P = (\<lambda>(s, h). case teardownLoop P True (sc_gateways s) (sc_container s, h) of
     (Inl e, gs, (c, h')) \<Rightarrow> (Inl e, (s\<lparr>sc_gateways := gs, sc_container := c\<rparr>, h'))
   | (Inr status, gs, (c, h')) \<Rightarrow> (case destroyGateways P gs (c, h') of (c', h'') \<Rightarrow>
       (Inr status, (s\<lparr>sc_gateways := [], sc_container := c'\<rparr>, h''))))"

definition sc_shutdown :: "platform \<Rightarrow> int \<Rightarrow> unit workspace_meth" where
  "sc_shutdown P timeout = seq assertValidState (bnd (getm sc_containerState) (\<lambda>st.
     if st \<noteq> Some READY \<and> st \<noteq> Some SUSPENDED then throw InvalidOperationError
     else bnd (shutdownGateways P) (\<lambda>_.
       bnd (onContainer (container_destroy (p_env P) timeout)) (\<lambda>ok.
         if \<not> ok then seq (setContainerState INVALID) (throw ContainerError)
         else setContainerState TERMINATED))))"

definition sc_shutdown_default :: "platform \<Rightarrow> unit workspace_meth" where
  "sc_shutdown_default P = bnd (getm (\<lambda>s. containerShutdownTimeout (sc_config s))) (sc_shutdown P)"

definition sc_suspend :: "platform \<Rightarrow> unit workspace_meth" where
  "sc_suspend P = seq assertValidState (bnd (getm sc_containerState) (\<lambda>st.
     if st \<noteq> Some READY then throw InvalidOperationError
     else bnd (onContainer (container_suspend (p_env P))) (\<lambda>ok.
       if \<not> ok then seq (setContainerState INVALID) (throw ContainerError)
       else setContainerState SUSPENDED)))"

definition sc_resume :: "platform \<Rightarrow> unit workspace_meth" where
  "sc_resume P = seq assertValidState (bnd (getm sc_containerState) (\<lambda>st.
     if st \<noteq> Some SUSPENDED then throw InvalidOperationError
     else bnd (onContainer (container_resume (p_env P))) (\<lambda>ok.
       if \<not> ok then seq (setContainerState INVALID) (throw ContainerError)
       else setContainerState READY)))"

definition createFunctionJob :: "job workspace_meth" where
  "createFunctionJob = seq assertValidState (bnd (getm sc_containerState) (\<lambda>st.
     if st \<noteq> Some READY then throw InvalidOperationError else ret newJob))"

definition createCommandJob :: "job workspace_meth" where
  "createCommandJob = seq assertValidState (bnd (getm sc_containerState) (\<lambda>st.
     if st \<noteq> Some READY then throw InvalidOperationError else ret newJob))"

definition sc_bindMount :: "platform \<Rightarrow> string \<Rightarrow> string \<Rightarrow> bool \<Rightarrow> bool workspace_meth" where
  "sc_bindMount P src dst readonly = seq assertValidState (bnd (getm sc_containerState) (\<lambda>st.
     if st \<noteq> Some READY then throw InvalidOperationError
     else onContainer (container_bindMountInContainer (p_env P) (p_fuel P) src dst readonly)))"

definition previouslyConfigured :: "workspace \<Rightarrow> bool" where
  "previouslyConfigured s = sc_previouslyConfigured s"

text \<open>A job that runs in the workspace: what \<open>CommandJob\<close> and \<open>FunctionJob\<close> do later with the container.\<close>

definition runJobIn :: "'a container_meth \<Rightarrow> 'a workspace_meth" where
  "runJobIn m = onContainer m"

section \<open>What a workspace keeps of its container\<close>

text \<open>The part of the container and of the workspace that decides what is allowed.\<close>

definition ws_at :: "ContainerState \<times> bool \<Rightarrow> WorkspaceState option \<Rightarrow> workspace \<times> calls \<Rightarrow> bool" where
  "ws_at p st s \<longleftrightarrow> part (sc_container (fst s)) = p \<and> sc_containerState (fst s) = st"

lemma lifted_kernel:
  "keeps (at p) (k_socket (lift_kernel K))" "keeps (at p) (k_bind (lift_kernel K))"
  "keeps (at p) (k_sendmsg (lift_kernel K) q)" "keeps (at p) (k_recvmsg (lift_kernel K))"
  by (simp_all add: lift_kernel_def stable_ext stable_at)

interpretation scnet: network_frame "p_container P" "at p" "p_host P" "p_inner P"
  unfolding p_container_def p_host_def p_inner_def
  by unfold_locales (simp_all add: lifted_kernel)

lemma wrap_keeps:
  assumes "keeps (through I) m" "I c" "wrap K m g c = (r, (g', c'))"
  shows "I c'"
proof -
  obtain q k u where run: "m (g, c) = (q, (k, u))" by (rule run_exists)
  from keepsD [OF assms(1) _ run] assms(2,3) run show ?thesis by (simp add: wrap_def)
qed

lemma gw_setConfig_at: "keeps (through (at p)) (gw_setConfig P j)"
proof (rule keepsI)
  fix s :: "any_gateway \<times> container \<times> calls" assume I: "through (at p) s"
  obtain g c where s: "s = (g, c)" by (rule prod.exhaust)
  obtain r g' c' where run: "gw_setConfig P j (g, c) = (r, (g', c'))" by (rule run_exists)
  have "at p c'" using run I
    by (cases g) (auto simp: s elim!: wrap_keeps [rotated 2] intro!: through_setConfig through_file_read through_net_read
        through_pulse_read through_dev_read through_dbus_setConfig through_cg_read through_wayland_read through_env_read)
  then show "through (at p) (snd (gw_setConfig P j s))" by (simp add: s run)
qed

lemma gw_activate_at: "keeps (through (at p)) (gw_activate P)"
proof (rule keepsI)
  fix s :: "any_gateway \<times> container \<times> calls" assume I: "through (at p) s"
  obtain g c where s: "s = (g, c)" by (rule prod.exhaust)
  obtain r g' c' where run: "gw_activate P (g, c) = (r, (g', c'))" by (rule run_exists)
  have "at p c'" using run I
    by (cases g) (auto simp: s elim!: wrap_keeps [rotated 2] intro!: through_activate scnet.file_activation scnet.net_activation
        scnet.pulse_activation scnet.dev_activation scnet.dbus_activation scnet.cg_activation scnet.wayland_activation
        scnet.env_activation)
  then show "through (at p) (snd (gw_activate P s))" by (simp add: s run)
qed

lemmas plain_teardown = file_teardownGateway_def net_teardownGateway_def pulse_teardownGateway_def dev_teardownGateway_def
  cg_teardownGateway_def wayland_teardownGateway_def env_teardownGateway_def

lemma gw_teardown_at: "keeps (through (at p)) (gw_teardown P)"
proof (rule keepsI)
  fix s :: "any_gateway \<times> container \<times> calls" assume I: "through (at p) s"
  obtain g c where s: "s = (g, c)" by (rule prod.exhaust)
  obtain r g' c' where run: "gw_teardown P (g, c) = (r, (g', c'))" by (rule run_exists)
  have "at p c'" using run I
    by (cases g) (auto simp: s plain_teardown elim!: wrap_keeps [rotated 2] intro!: through_teardown keeps_ret scnet.dbus_tear)
  then show "through (at p) (snd (gw_teardown P s))" by (simp add: s run)
qed

lemma gw_destroy_at: "at p c \<Longrightarrow> at p (gw_destroy P (g, c))"
proof (cases g)
  case (DBusGw d)
  let ?m = "seq (onSystem (destroyInstance (p_container P))) (onSession (destroyInstance (p_container P)))"
  have "keeps (through (at p)) ?m"
    unfolding onSession_def onSystem_def by (intro keeps_through scnet.proxy_destruction)
  moreover assume "at p c"
  moreover obtain r g' c' where "wrap DBusGw ?m d c = (r, (g', c'))" by (rule run_exists)
  ultimately show ?thesis using DBusGw by (auto dest: wrap_keeps)
qed simp_all

lemma gatewaysLoop_at:
  assumes "keeps (through (at p)) m"
  shows "at p c \<Longrightarrow> gatewaysLoop m gs c = (r, gs', c') \<Longrightarrow> at p c'"
proof (induction gs arbitrary: c r gs')
  case (Cons g gs)
  obtain q g1 c1 where run: "m (g, c) = (q, (g1, c1))" by (rule run_exists)
  have "at p c1" using keepsD [OF assms _ run] Cons.prems(1) by simp
  with Cons.IH [of c1] Cons.prems(2) show ?case by (auto simp: run split: sum.splits if_splits prod.splits)
qed simp

lemma teardownLoop_at: "at p c \<Longrightarrow> teardownLoop P status gs c = (r, gs', c') \<Longrightarrow> at p c'"
proof (induction gs arbitrary: status c r gs')
  case (Cons g gs)
  show ?case
  proof (cases "gw_isActivated g")
    case True
    obtain q g1 c1 where run: "gw_teardown P (g, c) = (q, (g1, c1))" by (rule run_exists)
    have "at p c1" using keepsD [OF gw_teardown_at _ run] Cons.prems(1) by simp
    with Cons.IH [of c1] Cons.prems(2) True show ?thesis by (auto simp: run split: sum.splits prod.splits)
  next
    case False
    with Cons show ?thesis by (auto split: prod.splits)
  qed
qed simp

lemma destroyGateways_at: "at p c \<Longrightarrow> at p (destroyGateways P gs c)"
  by (induction gs arbitrary: c) (simp_all add: gw_destroy_at)

section \<open>The life cycle of a workspace\<close>

fun coupled_states :: "WorkspaceState option \<Rightarrow> ContainerState \<Rightarrow> bool" where
  "coupled_states (Some READY) st \<longleftrightarrow> st = STARTED"
| "coupled_states (Some SUSPENDED) st \<longleftrightarrow> st = FROZEN"
| "coupled_states (Some TERMINATED) st \<longleftrightarrow> st = DESTROYED"
| "coupled_states _ st \<longleftrightarrow> True"

definition coupled :: "workspace \<Rightarrow> bool" where
  "coupled s \<longleftrightarrow> coupled_states (sc_containerState s) (c_state (sc_container s)) \<and> started (part (sc_container s))"

datatype workspace_op =
    WsStartGateways gateway_configuration | WsSuspend | WsResume | WsShutdown int
  | WsBindMount string string bool | WsCreateJob
  | WsRunFunction "(calls, int) act" "(string, string) std_map"
  | WsRunCommand string "(string, string) std_map" string

fun ws_perform :: "platform \<Rightarrow> workspace_op \<Rightarrow> unit workspace_meth" where
  "ws_perform P (WsStartGateways conf) = done_with (startGateways P conf)"
| "ws_perform P WsSuspend = sc_suspend P"
| "ws_perform P WsResume = sc_resume P"
| "ws_perform P (WsShutdown timeout) = sc_shutdown P timeout"
| "ws_perform P (WsBindMount src dst ro) = done_with (sc_bindMount P src dst ro)"
| "ws_perform P WsCreateJob = done_with createCommandJob"
| "ws_perform P (WsRunFunction f vars) =
     done_with (runJobIn (executeFunction (p_env P) (function_job f) INVALID_PID vars (-1) 1 2))"
| "ws_perform P (WsRunCommand command vars dir) =
     done_with (runJobIn (executeCommand (p_env P) command INVALID_PID vars dir (-1) 1 2))"

text \<open>Where an operation is allowed, and the states it may lead to from there. Jobs that exist may run at
  any time.\<close>

fun ws_enabled :: "workspace_op \<Rightarrow> WorkspaceState \<Rightarrow> bool" where
  "ws_enabled WsResume st \<longleftrightarrow> st = SUSPENDED"
| "ws_enabled (WsShutdown timeout) st \<longleftrightarrow> st = READY \<or> st = SUSPENDED"
| "ws_enabled (WsRunFunction f vars) st \<longleftrightarrow> True"
| "ws_enabled (WsRunCommand command vars dir) st \<longleftrightarrow> True"
| "ws_enabled _ st \<longleftrightarrow> st = READY"

fun ws_moves :: "workspace_op \<Rightarrow> WorkspaceState \<Rightarrow> WorkspaceState set" where
  "ws_moves WsSuspend st = {st, SUSPENDED}"
| "ws_moves WsResume st = {st, READY}"
| "ws_moves (WsShutdown timeout) st = {st, TERMINATED, INVALID}"
| "ws_moves _ st = {st}"

definition ws_state :: "workspace \<times> calls \<Rightarrow> WorkspaceState option" where
  "ws_state s = sc_containerState (fst s)"

lemma assertValid_run: "seq assertValidState m s =
  (if sc_containerState (fst s) = Some INVALID then (Inl InvalidContainerError, s) else m s)"
  by (cases s) (simp add: assertValidState_def act_defs)

lemma guard_run: "bnd (getm sc_containerState) k s = k (sc_containerState (fst s)) s"
  by (simp add: bnd_def getm_def)

lemma done_with_run: "done_with m s = (case m s of (Inl e, t) \<Rightarrow> (Inl e, t) | (Inr a, t) \<Rightarrow> (Inr (), t))"
  by (simp add: done_with_def bnd_def ret_def split: sum.split prod.split)

lemmas guards = assertValid_run guard_run done_with_run throw_def ret_def

text \<open>An operation that is not allowed is refused without any effect.\<close>

lemma ws_refused:
  assumes "ws_state s = Some st" "\<not> ws_enabled op st"
  shows "\<exists>e \<in> {InvalidOperationError, InvalidContainerError}. ws_perform P op s = (Inl e, s)"
  using assms
  by (cases op) (auto simp: ws_state_def startGateways_def sc_suspend_def sc_resume_def sc_shutdown_def sc_bindMount_def
      createCommandJob_def guards)

lemma onContainer_at:
  assumes "keeps (at p) m"
  shows "keeps (ws_at p st) (onContainer m)"
proof (rule keepsI)
  fix s :: "workspace \<times> calls" assume I: "ws_at p st s"
  obtain w h where s: "s = (w, h)" by (rule prod.exhaust)
  obtain r c' h' where run: "m (sc_container w, h) = (r, (c', h'))" by (rule run_exists)
  have "at p (c', h')" using keepsD [OF assms _ run] I by (simp add: s ws_at_def at_def)
  then show "ws_at p st (snd (onContainer m s))"
    using I by (simp add: s onContainer_def on_def run ws_at_def at_def)
qed

lemma eachGateway_at:
  assumes "keeps (through (at p)) m"
  shows "keeps (ws_at p st) (eachGateway m)"
proof (rule keepsI)
  fix s :: "workspace \<times> calls" assume I: "ws_at p st s"
  obtain w h where s: "s = (w, h)" by (rule prod.exhaust)
  obtain r gs c' h' where run: "gatewaysLoop m (sc_gateways w) (sc_container w, h) = (r, gs, (c', h'))"
    by (metis prod.exhaust)
  have "at p (c', h')" using gatewaysLoop_at [OF assms _ run] I by (simp add: s ws_at_def at_def)
  then show "ws_at p st (snd (eachGateway m s))"
    using I by (simp add: s eachGateway_def run ws_at_def at_def)
qed

lemma configureGateways_at: "keeps (ws_at p st) (configureGateways P conf)"
proof -
  have each: "keeps (through (at p)) (bnd (getm gw_id) (\<lambda>gatewayId.
      case config conf gatewayId of None \<Rightarrow> ret True | Some c \<Rightarrow> gw_setConfig P c))"
    by (intro keeps_intros gw_setConfig_at)
  show ?thesis unfolding configureGateways_def assertValidState_def
    by (intro keeps_intros eachGateway_at [OF each])
qed

lemma activateGateways_at: "keeps (ws_at p st) (activateGateways P)"
  unfolding activateGateways_def by (intro eachGateway_at keeps_intros gw_activate_at)

lemma shutdownGateways_at: "keeps (ws_at p st) (shutdownGateways P)"
proof (rule keepsI)
  fix s :: "workspace \<times> calls" assume I: "ws_at p st s"
  obtain w h where s: "s = (w, h)" by (rule prod.exhaust)
  obtain r gs c' h' where run: "teardownLoop P True (sc_gateways w) (sc_container w, h) = (r, gs, (c', h'))"
    by (metis prod.exhaust)
  have 1: "at p (c', h')" using teardownLoop_at [OF _ run] I by (simp add: s ws_at_def at_def)
  obtain d k where des: "destroyGateways P gs (c', h') = (d, k)" by (rule prod.exhaust)
  have "at p (d, k)" using destroyGateways_at [OF 1, of P gs] by (simp add: des)
  with 1 show "ws_at p st (snd (shutdownGateways P s))"
    using I by (cases r) (simp_all add: s shutdownGateways_def run des ws_at_def at_def)
qed

lemma startGateways_at: "keeps (ws_at p st) (startGateways P conf)"
  unfolding startGateways_def assertValidState_def
  by (intro keeps_intros configureGateways_at activateGateways_at keeps_updm) (simp add: ws_at_def)

lemma bindMount_at: "keeps (ws_at p st) (sc_bindMount P src dst ro)"
  unfolding sc_bindMount_def assertValidState_def by (intro keeps_intros onContainer_at at_bindMount)

lemma createJob_at: "keeps (ws_at p st) createCommandJob"
  unfolding createCommandJob_def assertValidState_def by (intro keeps_intros)

lemma executeCommand_at: "keeps (at p) (executeCommand E command pid vars dir a b c)"
  unfolding executeCommand_def by (intro keeps_intros keeps_ensure keeps_executeFunction stable_at)

text \<open>The operations that change the state of the container, on the workspace.\<close>

lemma onContainer_run:
  assumes "m (sc_container w, h) = (r, (c', h'))"
  shows "onContainer m (w, h) = (r, (w\<lparr>sc_container := c'\<rparr>, h'))"
  by (simp add: onContainer_def on_def assms)

text \<open>Where the container is after an operation of its own.\<close>

lemma perform_from:
  assumes "perform E op (c, h) = (r, (c', h'))" "started (part c)" "allowed op (c_state c)"
  shows "started (part c') \<and> c_state c' \<in> moves op (c_state c)"
  using perform_moves [OF assms(1)] assms(2,3) by (simp add: okay_def)

lemma done_with_state: "m s = (r, t) \<Longrightarrow> snd (done_with m s) = t"
  by (simp add: done_with_run split: sum.split)

lemma container_op_state:
  assumes "m (c, h) = (r, (c', h'))" "perform E op = done_with m" "started (part c)" "allowed op (c_state c)"
  shows "started (part c') \<and> c_state c' \<in> moves op (c_state c)"
proof -
  obtain q where "perform E op (c, h) = (q, (c', h'))"
    using done_with_state [where m = m, OF assms(1)] assms(2) by (metis prod.collapse)
  from perform_from [OF this assms(3,4)] show ?thesis .
qed

lemma suspend_result:
  assumes "container_suspend E (c, h) = (Inr ok, (c', h'))" "c_state c = STARTED"
  shows "ok \<and> c_state c' = FROZEN"
  using assms by (auto simp: container_suspend_def lxc_def setState_def sys_def act_defs split: if_splits)

lemma suspend_throws:
  assumes "container_suspend E (c, h) = (Inl e, (c', h'))" "c_state c = STARTED"
  shows "c_state c' = STARTED"
  using assms by (auto simp: container_suspend_def lxc_def setState_def sys_def act_defs split: if_splits)

lemma resume_result:
  assumes "container_resume E (c, h) = (Inr ok, (c', h'))" "c_state c = FROZEN"
  shows "ok \<and> c_state c' = STARTED"
  using assms by (auto simp: container_resume_def lxc_def setState_def sys_def act_defs split: if_splits)

lemma resume_throws:
  assumes "container_resume E (c, h) = (Inl e, (c', h'))" "c_state c = FROZEN"
  shows "c_state c' = FROZEN"
  using assms by (auto simp: container_resume_def lxc_def setState_def sys_def act_defs split: if_splits)

lemma ws_at_coupled:
  assumes "keeps (ws_at p (Some st)) m" "m (w, h) = (r, (w', h'))" "coupled w"
    "part (sc_container w) = p" "sc_containerState w = Some st"
  shows "coupled w' \<and> sc_containerState w' = Some st"
  using keepsD [OF assms(1) _ assms(2)] assms(3,4,5) by (auto simp: ws_at_def coupled_def part_def)

lemma keeps_done: "keeps I m \<Longrightarrow> keeps I (done_with m)"
  unfolding done_with_def by (intro keeps_intros)

lemma bnd_onContainer:
  assumes "m (sc_container w, h) = (r, (c', h'))"
  shows "bnd (onContainer m) k (w, h) = (case r of Inl e \<Rightarrow> (Inl e, (w\<lparr>sc_container := c'\<rparr>, h'))
    | Inr a \<Rightarrow> k a (w\<lparr>sc_container := c'\<rparr>, h'))"
  by (simp add: bnd_def onContainer_run [where m = m, OF assms] split: sum.split)

lemma setContainerState_run:
  "setContainerState st (w, h) = (Inr (), (w\<lparr>sc_containerState := Some st\<rparr>, h))"
  "seq (setContainerState st) k (w, h) = k (w\<lparr>sc_containerState := Some st\<rparr>, h)"
  by (simp_all add: setContainerState_def updm_def seq_def bnd_def)

lemma suspend_step:
  assumes "sc_suspend P (w, h) = (r, (w', h'))" "coupled w" "sc_containerState w = Some READY"
  shows "coupled w' \<and> sc_containerState w' \<in> {Some READY, Some SUSPENDED}"
proof -
  have c: "c_state (sc_container w) = STARTED" "started (part (sc_container w))" using assms by (simp_all add: coupled_def)
  obtain q c' k where run: "container_suspend (p_env P) (sc_container w, h) = (q, (c', k))" by (rule run_exists)
  have st: "started (part c')" using container_op_state [where m = "container_suspend (p_env P)" and op = OpSuspend, OF run] c by simp
  show ?thesis
  proof (cases q)
    case (Inl e)
    with suspend_throws [of "p_env P" "sc_container w" h e c' k] run c assms(1,3) st show ?thesis
      by (auto simp: sc_suspend_def guards setContainerState_run bnd_onContainer [where m = "container_suspend (p_env P)", OF run] coupled_def)
  next
    case (Inr ok)
    with suspend_result [of "p_env P" "sc_container w" h ok c' k] run c assms(1,3) st show ?thesis
      by (auto simp: sc_suspend_def guards setContainerState_run bnd_onContainer [where m = "container_suspend (p_env P)", OF run] coupled_def)
  qed
qed

lemma resume_step:
  assumes "sc_resume P (w, h) = (r, (w', h'))" "coupled w" "sc_containerState w = Some SUSPENDED"
  shows "coupled w' \<and> sc_containerState w' \<in> {Some READY, Some SUSPENDED}"
proof -
  have c: "c_state (sc_container w) = FROZEN" "started (part (sc_container w))" using assms by (simp_all add: coupled_def)
  obtain q c' k where run: "container_resume (p_env P) (sc_container w, h) = (q, (c', k))" by (rule run_exists)
  have st: "started (part c')" using container_op_state [where m = "container_resume (p_env P)" and op = OpResume, OF run] c by simp
  show ?thesis
  proof (cases q)
    case (Inl e)
    with resume_throws [of "p_env P" "sc_container w" h e c' k] run c assms(1,3) st show ?thesis
      by (auto simp: sc_resume_def guards setContainerState_run bnd_onContainer [where m = "container_resume (p_env P)", OF run] coupled_def)
  next
    case (Inr ok)
    with resume_result [of "p_env P" "sc_container w" h ok c' k] run c assms(1,3) st show ?thesis
      by (auto simp: sc_resume_def guards setContainerState_run bnd_onContainer [where m = "container_resume (p_env P)", OF run] coupled_def)
  qed
qed

lemma shutdown_step:
  assumes "sc_shutdown P timeout (w, h) = (r, (w', h'))" "coupled w" "sc_containerState w = Some st" "st \<in> {READY, SUSPENDED}"
  shows "coupled w' \<and> sc_containerState w' \<in> {Some st, Some TERMINATED, Some INVALID}"
proof -
  obtain q v k where gws: "shutdownGateways P (w, h) = (q, (v, k))" by (rule run_exists)
  have v: "coupled v \<and> sc_containerState v = Some st"
    using ws_at_coupled [where m = "shutdownGateways P", OF shutdownGateways_at gws] assms(2,3) by simp
  obtain d c' l where run: "container_destroy (p_env P) timeout (sc_container v, k) = (d, (c', l))" by (rule run_exists)
  obtain ok where d: "d = Inr ok" "started (part c')"
    using destroy_returns [OF _ run] v by (auto simp: coupled_def)
  have "ok \<Longrightarrow> c_state c' = DESTROYED" using destroy_succeeds [of "p_env P" timeout "(sc_container v, k)" "(c', l)"] run d by simp
  with assms v d show ?thesis
    by (cases q) (auto simp: sc_shutdown_def guards setContainerState_run bnd_def [where m = "shutdownGateways P"] gws bnd_onContainer [where m = "container_destroy (p_env P) timeout", OF run] coupled_def split: if_splits)
qed

lemma ws_step:
  assumes "ws_perform P op (w, h) = (r, (w', h'))" "coupled w" "sc_containerState w = Some st"
  shows "coupled w' \<and> (\<exists>st' \<in> ws_moves op st. sc_containerState w' = Some st')"
proof (cases "ws_enabled op st")
  case False
  with ws_refused [of "(w, h)" st op P] assms show ?thesis by (cases op) (auto simp: ws_state_def)
next
  case enabled: True
  note frame = ws_at_coupled [where m = "ws_perform P op", OF _ assms(1,2) refl assms(3)]
  show ?thesis
  proof (cases op)
    case (WsStartGateways conf)
    then show ?thesis using frame by (simp add: keeps_done startGateways_at)
  next
    case WsSuspend
    with suspend_step [of P w h r w' h'] assms enabled show ?thesis by auto
  next
    case WsResume
    with resume_step [of P w h r w' h'] assms enabled show ?thesis by auto
  next
    case (WsShutdown timeout)
    with shutdown_step [of P timeout w h r w' h' st] assms enabled show ?thesis by auto
  next
    case (WsBindMount src dst ro)
    then show ?thesis using frame by (simp add: keeps_done bindMount_at)
  next
    case WsCreateJob
    then show ?thesis using frame by (simp add: keeps_done createJob_at)
  next
    case (WsRunFunction f vars)
    then show ?thesis using frame by (simp add: runJobIn_def keeps_done onContainer_at keeps_executeFunction stable_at)
  next
    case (WsRunCommand command vars dir)
    then show ?thesis using frame by (simp add: runJobIn_def keeps_done onContainer_at executeCommand_at)
  qed
qed

section \<open>Construction\<close>

definition ws_started :: "workspace \<times> calls \<Rightarrow> bool" where
  "ws_started s \<longleftrightarrow> started (part (sc_container (fst s)))"

lemma workspace_toolkit [simp]:
  "sc_container (w\<lparr>m_createDirList := ds\<rparr>) = sc_container w" "sc_container (w\<lparr>m_cleanupHandlers := hs\<rparr>) = sc_container w"
  "sc_containerState (w\<lparr>m_createDirList := ds\<rparr>) = sc_containerState w"
  for w :: workspace
  by (cases w; simp)+

lemma stable_ws: "stable ws_started"
  by (simp add: stable_def ws_started_def)

lemma root_started: "keeps ws_started (checkContainerRoot E root)"
  unfolding checkContainerRoot_def withCreateDir_def
  by (intro keeps_intros stable_ext stable_ws keeps_scoped)

lemma tmpfs_started: "keeps ws_started (tmpfsMount E dst n)"
  unfolding tmpfsMount_def withCreateDir_def
  by (intro keeps_scoped stable_ws keeps_ret) (simp add: ws_started_def addHandler_def)

lemma network_started: "keeps ws_started (checkNetworkSettings P)"
  unfolding checkNetworkSettings_def Let_def by (intro keeps_intros stable_ext stable_ws)

lemma onContainer_triple:
  assumes "\<And>c h r c' h'. m (c, h) = (r, (c', h')) \<Longrightarrow> started (part c) \<Longrightarrow> \<forall>a. r = Inr a \<longrightarrow> Q a c'"
  shows "triple ws_started (onContainer m) (\<lambda>a s. Q a (sc_container (fst s))) (\<lambda>_ _. True)"
  unfolding triple_def
proof (intro allI impI)
  fix s assume I: "ws_started s"
  obtain w h where s: "s = (w, h)" by (rule prod.exhaust)
  obtain r c' h' where run: "m (sc_container w, h) = (r, (c', h'))" by (rule run_exists)
  from assms [OF run] I show "case onContainer m s of (Inl e, t) \<Rightarrow> True | (Inr a, t) \<Rightarrow> Q a (sc_container (fst t))"
    by (simp add: s ws_started_def onContainer_run [where m = m, OF run] split: sum.split)
qed

lemma op_triple:
  assumes "perform E op = done_with m" "\<And>st. allowed op st"
  shows "triple ws_started (onContainer m) (\<lambda>_. ws_started) (\<lambda>_ _. True)"
  unfolding ws_started_def [abs_def]
  by (rule onContainer_triple [unfolded ws_started_def [abs_def]])
    (use container_op_state [where m = m, OF _ assms(1) _ assms(2)] in blast)

definition running :: "workspace \<times> calls \<Rightarrow> bool" where
  "running s \<longleftrightarrow> part (sc_container (fst s)) = (STARTED, True)"

lemma start_running: "triple ws_started (sc_start P) (\<lambda>ok s. ok \<longrightarrow> running s) (\<lambda>_ _. True)"
  unfolding sc_start_def
proof (intro triple_andThen triple_bnd)
  show "triple ws_started (onContainer (container_initialize (p_env P)))
      (\<lambda>ok s. if ok then ws_started s else (False \<longrightarrow> running s)) (\<lambda>_ _. True)"
    by (rule triple_post [OF op_triple [where op = OpInitialize and E = "p_env P"]]) simp_all
  show "triple ws_started (onContainer (container_create (p_env P) (p_lxc_root P) (p_lxc_template P)))
      (\<lambda>ok s. if ok then ws_started s else (False \<longrightarrow> running s)) (\<lambda>_ _. True)"
    by (rule triple_post [OF op_triple [where op = "OpCreate (p_lxc_root P) (p_lxc_template P)" and E = "p_env P"]]) simp_all
  show "triple ws_started (onContainer (container_start (p_env P)))
      (\<lambda>a s. fst a \<longrightarrow> part (sc_container (fst s)) = (STARTED, True)) (\<lambda>_ _. True)"
    by (rule onContainer_triple) (auto dest: start_succeeds)
  fix a :: "bool \<times> int"
  show "triple (\<lambda>s. fst a \<longrightarrow> part (sc_container (fst s)) = (STARTED, True))
     (case a of (ok, pid) \<Rightarrow> seq (updm (sc_pcPid_update (\<lambda>_. pid))) (if \<not> ok then ret False else ret True))
     (\<lambda>ok s. ok \<longrightarrow> running s) (\<lambda>_ _. True)"
    by (cases a) (auto simp: triple_def running_def act_defs)
qed

lemma addGateway_running: "keeps running (addGateway g)"
  unfolding addGateway_def by (rule keeps_updm) (simp add: running_def)

lemma newNetworkGateway_at:
  assumes "newNetworkGateway (p_host P) fuel cid dev gw bits c = (r, c')" "at p c"
  shows "at p c'"
proof -
  obtain q n k where run: "constructNetlink (p_host P) fuel (emptyNetlink, c) = (q, (n, k))" by (rule run_exists)
  from keepsD [OF scnet.host.netlink_construct _ run] assms(2) have "at p k" by simp
  with assms(1) show ?thesis by (auto simp: newNetworkGateway_def run split: sum.splits)
qed

lemma addNetworkGateway_running: "keeps running (addNetworkGateway P)"
proof (rule keepsI)
  fix s :: "workspace \<times> calls" assume I: "running s"
  obtain w h where s: "s = (w, h)" by (rule prod.exhaust)
  obtain r c h' where run: "newNetworkGateway (p_host P) (p_fuel P) (sc_containerID w) (bridgeDevice (sc_config w))
      (bridgeIPAddress (sc_config w)) (word_of_int (bridgeNetmaskBitLength (sc_config w))) (sc_container w, h) = (r, (c, h'))"
    by (rule run_exists)
  have "at (STARTED, True) (c, h')"
    using newNetworkGateway_at [OF run] I by (simp add: s running_def at_def)
  then show "running (snd (addNetworkGateway P s))"
    by (cases r) (simp_all add: s addNetworkGateway_def run running_def at_def addGateway_def updm_def)
qed

lemma init_running: "triple ws_started (sc_init P) (\<lambda>ok s. ok \<longrightarrow> running s) (\<lambda>_ _. True)"
proof -
  have caught: "keeps running (catch (seq (addNetworkGateway P) (ret True)) (\<lambda>e. if is_sc_error e then Some (ret False) else None))"
    by (intro keeps_catch keeps_seq addNetworkGateway_running keeps_ret) (auto split: if_splits intro: keeps_ret)
  have all: "keeps running (seq (addGateway (FileGw newFileGateway))
     (andThen (catch (seq (addNetworkGateway P) (ret True)) (\<lambda>e. if is_sc_error e then Some (ret False) else None))
     (seq (addGateway (PulseGw newPulseGateway))
     (seq (addGateway (DeviceGw newDeviceNodeGateway))
     (bnd (getm (\<lambda>s. s)) (\<lambda>s.
      seq (addGateway (DBusGw (newDBusGateway (p_env P) (getGatewayDir (p_env P) s) (c_id (sc_container s)))))
     (seq (addGateway (CgroupsGw newCgroupsGateway))
     (seq (addGateway (WaylandGw newWaylandGateway))
     (seq (addGateway (EnvGw newEnvGateway)) (ret True))))))))))"
    by (intro keeps_seq keeps_andThen keeps_bnd keeps_getm keeps_ret caught addGateway_running)
  show ?thesis unfolding sc_init_def
    by (rule triple_andThen [OF triple_post [OF start_running] triple_post [OF triple_keeps [OF all]]]) simp_all
qed

lemma keeps_then:
  assumes "keeps I m" "triple I n Q (\<lambda>_ _. True)"
  shows "triple I (seq m n) Q (\<lambda>_ _. True)"
  by (rule triple_seq [OF triple_post [OF triple_keeps [OF assms(1)]] assms(2)]) simp_all

lemma body_ready:
  "triple ws_started (constructBody P) (\<lambda>_ s. coupled (fst s) \<and> sc_containerState (fst s) = Some READY) (\<lambda>_ _. True)"
proof -
  have tmpfs: "keeps ws_started (if writeBufferEnabled cfg
        then seq (if temporaryFileSystemWriteBufferEnableds cfg
                  then updm (sc_tmpfsSize_update (\<lambda>_. temporaryFileSystemSize cfg)) else ret ())
            (bnd (getm sc_tmpfsSize) (\<lambda>n. bnd (tmpfsMount (p_env P) root n) (\<lambda>_. ret ())))
        else ret ())" for cfg root
    by (intro keeps_intros tmpfs_started keeps_updm) (simp add: ws_started_def)
  have last: "triple (\<lambda>s. ok \<longrightarrow> running s) (if \<not> ok then throw SoftwareContainerError
        else updm (sc_containerState_update (\<lambda>_. Some READY)))
      (\<lambda>_ s. coupled (fst s) \<and> sc_containerState (fst s) = Some READY) (\<lambda>_ _. True)" for ok
    by (cases ok) (auto simp: triple_def throw_def updm_def running_def coupled_def part_def started_def)
  show ?thesis unfolding constructBody_def Let_def
    by (rule triple_get, rule triple_pre [where P = ws_started],
        rule keeps_then [OF root_started keeps_then [OF tmpfs keeps_then [OF network_started triple_bnd [OF init_running last]]]])
      simp
qed

lemma construct_coupled:
  assumes "newSoftwareContainer P cid cfg h = (Inr w, h')"
  shows "coupled w \<and> sc_containerState w = Some READY"
proof -
  have "ws_started (emptyWorkspace P cid cfg, h)"
    by (simp add: ws_started_def emptyWorkspace_def Let_def toolkit.defs workspace.defs newContainer_def container.defs
        started_def part_def)
  obtain q v k where run: "constructBody P (emptyWorkspace P cid cfg, h) = (q, (v, k))" by (rule run_exists)
  from tripleD [OF body_ready \<open>ws_started _\<close> run] assms show ?thesis
    by (cases q) (simp_all add: newSoftwareContainer_def run)
qed

inductive workspace_step :: "platform \<Rightarrow> workspace \<times> calls \<Rightarrow> workspace \<times> calls \<Rightarrow> bool" for P where
  "ws_perform P op s = (r, t) \<Longrightarrow> workspace_step P s t"

inductive_cases workspace_stepE: "workspace_step P s t"

lemma workspace_run_coupled:
  assumes "(workspace_step P)\<^sup>*\<^sup>* s t" "coupled (fst s)" "ws_state s \<noteq> None"
  shows "coupled (fst t) \<and> ws_state t \<noteq> None"
  using assms
proof (induction rule: rtranclp_induct)
  case (step t u)
  then obtain st where t: "coupled (fst t)" "sc_containerState (fst t) = Some st" by (auto simp: ws_state_def)
  from step.hyps(2) obtain op r where "ws_perform P op (fst t, snd t) = (r, (fst u, snd u))"
    by (auto elim: workspace_stepE)
  from ws_step [OF this t] show ?case by (auto simp: ws_state_def)
qed simp


text \<open>An example: LXC and the kernel answer, and the network gateway finds no netlink socket.\<close>

definition example_platform :: platform where
  "example_platform = \<lparr>p_env = lxc_env 0 0, p_host_kernel = no_kernel, p_inner_kernel = no_kernel, p_fuel = 5,
     p_garbage = False, p_stale_errno = False, p_json_dumps = (\<lambda>_. ''''), p_lxc_root = ''/lxc'', p_lxc_template = ''t'',
     p_install_bindir = ''/bin''\<rparr>"

definition example_config :: sc_config where
  "example_config = newSoftwareContainerConfig (False, False, 0) False ''br0'' ''10.0.3.1'' ''255.255.255.0'' 24
     ''10.0.3.0'' ''/conf'' ''/'' 1"

lemma example_constructed:
  "map_sum id sc_containerState (fst (newSoftwareContainer example_platform 0 example_config [])) = Inr (Some READY)"
  by code_simp


end
