(* ===== verification/AgentConfig.thy ===== *)
theory AgentConfig
  imports StdMap
begin

text \<open>
  The configuration of the agent: items with their source, the three sources (command line, main
  configuration file, defaults of the build), the definition of what may be configured, and the
  class \<open>Config\<close> that joins them. The key file parser of Glib is a parameter: the record \<open>key_file\<close>
  holds what its accessors answer, \<open>None\<close> standing for an exception of Glib. Of the main program
  the part is modelled that turns the command line options into a source and builds the
  configuration.
\<close>

section \<open>Items\<close>

datatype ConfigType = TString | TInteger | TBoolean

datatype ConfigSourceType = Commandline | Main | Default

type_synonym unique_key = "string \<times> string"

text \<open>The source of an item has no value before \<open>setSource\<close>.\<close>

record 'v config_item =
  item_group :: string
  item_name :: string
  item_source :: "ConfigSourceType option"
  item_value :: 'v

definition newItem :: "string \<Rightarrow> string \<Rightarrow> 'v \<Rightarrow> 'v config_item" where
  "newItem grp name val = \<lparr>item_group = grp, item_name = name, item_source = None, item_value = val\<rparr>"

definition setSource :: "ConfigSourceType \<Rightarrow> 'v config_item \<Rightarrow> 'v config_item" where
  "setSource src item = item\<lparr>item_source := Some src\<rparr>"

definition uniqueKey :: "'v config_item \<Rightarrow> unique_key" where
  "uniqueKey item = (item_group item, item_name item)"

section \<open>Sources\<close>

record config_source =
  stringConfigs :: "string config_item list"
  intConfigs :: "int config_item list"
  boolConfigs :: "bool config_item list"

definition newCommandlineConfigSource ::
    "string config_item list \<Rightarrow> int config_item list \<Rightarrow> bool config_item list \<Rightarrow> config_source" where
  "newCommandlineConfigSource strings ints bools =
     \<lparr>stringConfigs = map (setSource Commandline) strings, intConfigs = map (setSource Commandline) ints,
      boolConfigs = map (setSource Commandline) bools\<rparr>"

subsection \<open>What may be configured\<close>

definition SC_GROUP :: string where "SC_GROUP = ''SoftwareContainer''"
definition USE_SESSION_BUS :: string where "USE_SESSION_BUS = ''use-session-bus''"
definition SHUTDOWN_TIMEOUT :: string where "SHUTDOWN_TIMEOUT = ''shutdown-timeout''"
definition SHARED_MOUNTS_DIR :: string where "SHARED_MOUNTS_DIR = ''shared-mounts-dir''"
definition LXC_CONFIG_PATH :: string where "LXC_CONFIG_PATH = ''deprecated-lxc-config-path''"
definition SERVICE_MANIFEST_DIR :: string where "SERVICE_MANIFEST_DIR = ''service-manifest-dir''"
definition DEFAULT_SERVICE_MANIFEST_DIR :: string where
  "DEFAULT_SERVICE_MANIFEST_DIR = ''default-service-manifest-dir''"
definition CREATE_BRIDGE :: string where "CREATE_BRIDGE = ''create-bridge''"
definition BRIDGE_DEVICE :: string where "BRIDGE_DEVICE = ''bridge-device''"
definition BRIDGE_IP :: string where "BRIDGE_IP = ''bridge-ip''"
definition BRIDGE_NETADDR :: string where "BRIDGE_NETADDR = ''bridge-netaddr''"
definition BRIDGE_NETMASK :: string where "BRIDGE_NETMASK = ''bridge-netmask''"
definition BRIDGE_NETMASK_BITLENGTH :: string where "BRIDGE_NETMASK_BITLENGTH = ''bridge-netmask-bitlength''"

definition SHUTDOWN_TIMEOUT_INITIAL :: int where "SHUTDOWN_TIMEOUT_INITIAL = -2"

text \<open>What the build sets: which of the network items are mandatory, and the default values.\<close>

record build =
  create_bridge_mandatory :: bool
  bridge_device_mandatory :: bool
  bridge_ip_mandatory :: bool
  bridge_netmask_bitlength_mandatory :: bool
  bridge_netmask_mandatory :: bool
  bridge_netaddr_mandatory :: bool
  default_shared_mounts_dir :: string
  default_lxc_config_path :: string
  default_service_manifest_dir :: string
  default_default_service_manifest_dir :: string
  default_shutdown_timeout :: int
  default_use_session_bus :: bool

definition CONFIGS :: "build \<Rightarrow> (string \<times> string \<times> ConfigType \<times> bool) list" where
  "CONFIGS B =
    [(SC_GROUP, CREATE_BRIDGE, TBoolean, create_bridge_mandatory B),
     (SC_GROUP, BRIDGE_DEVICE, TString, bridge_device_mandatory B),
     (SC_GROUP, BRIDGE_IP, TString, bridge_ip_mandatory B),
     (SC_GROUP, BRIDGE_NETMASK_BITLENGTH, TInteger, bridge_netmask_bitlength_mandatory B),
     (SC_GROUP, BRIDGE_NETMASK, TString, bridge_netmask_mandatory B),
     (SC_GROUP, BRIDGE_NETADDR, TString, bridge_netaddr_mandatory B),
     (SC_GROUP, USE_SESSION_BUS, TBoolean, False),
     (SC_GROUP, SHUTDOWN_TIMEOUT, TInteger, False),
     (SC_GROUP, SHARED_MOUNTS_DIR, TString, False),
     (SC_GROUP, LXC_CONFIG_PATH, TString, False),
     (SC_GROUP, SERVICE_MANIFEST_DIR, TString, False),
     (SC_GROUP, DEFAULT_SERVICE_MANIFEST_DIR, TString, False)]"

definition mandatory :: "build \<Rightarrow> unique_key list" where
  "mandatory B = concat (map (\<lambda>(grp, key, _, flag). if flag then [(grp, key)] else []) (CONFIGS B))"

text \<open>Assigning to the map in the order of the list: the last entry of a key counts.\<close>

definition typeMap :: "build \<Rightarrow> unique_key \<Rightarrow> ConfigType option" where
  "typeMap B = foldl (\<lambda>m (grp, key, type, _). m((grp, key) \<mapsto> type)) Map.empty (CONFIGS B)"

subsection \<open>The main configuration file\<close>

record key_file =
  kf_groups :: "string list option"
  kf_keys :: "string \<Rightarrow> string list option"
  kf_string :: "string \<Rightarrow> string \<Rightarrow> string option"
  kf_integer :: "string \<Rightarrow> string \<Rightarrow> int option"
  kf_boolean :: "string \<Rightarrow> string \<Rightarrow> bool option"

definition or_throw :: "exn \<Rightarrow> 'a option \<Rightarrow> exn + 'a" where
  "or_throw e v = (case v of None \<Rightarrow> Inl e | Some x \<Rightarrow> Inr x)"

definition andthen :: "exn + 'a \<Rightarrow> ('a \<Rightarrow> exn + 'b) \<Rightarrow> exn + 'b" where
  "andthen v f = (case v of Inl e \<Rightarrow> Inl e | Inr a \<Rightarrow> f a)"

definition pushKey :: "string \<Rightarrow> string \<Rightarrow> (string, string list) std_map \<Rightarrow> (string, string list) std_map" where
  "pushKey grp key m = put grp ((case map_of m grp of None \<Rightarrow> [] | Some ks \<Rightarrow> ks) @ [key]) m"

fun readGroups :: "key_file \<Rightarrow> string list \<Rightarrow> (string, string list) std_map \<Rightarrow> exn + (string, string list) std_map" where
  "readGroups K [] m = Inr m"
| "readGroups K (g # gs) m = andthen (or_throw ConfigFileError (kf_keys K g)) (\<lambda>ks.
     readGroups K gs (foldl (\<lambda>m k. pushKey g k m) m ks))"

definition readLoadedConfig :: "key_file \<Rightarrow> exn + (string, string list) std_map" where
  "readLoadedConfig K = andthen (or_throw ConfigFileError (kf_groups K)) (\<lambda>gs. readGroups K gs [])"

definition createConfig :: "string \<Rightarrow> string \<Rightarrow> 'v option \<Rightarrow> exn + 'v config_item" where
  "createConfig grp name glibValue = andthen (or_throw ConfigFileError glibValue)
     (\<lambda>v. Inr (setSource Main (newItem grp name v)))"

definition createItem :: "key_file \<Rightarrow> string \<Rightarrow> string \<Rightarrow> ConfigType \<Rightarrow> config_source \<Rightarrow> exn + config_source" where
  "createItem K grp key type s = (case type of
     TString \<Rightarrow> andthen (createConfig grp key (kf_string K grp key))
       (\<lambda>i. Inr (s\<lparr>stringConfigs := stringConfigs s @ [i]\<rparr>))
   | TInteger \<Rightarrow> andthen (createConfig grp key (kf_integer K grp key))
       (\<lambda>i. Inr (s\<lparr>intConfigs := intConfigs s @ [i]\<rparr>))
   | TBoolean \<Rightarrow> andthen (createConfig grp key (kf_boolean K grp key))
       (\<lambda>i. Inr (s\<lparr>boolConfigs := boolConfigs s @ [i]\<rparr>)))"

definition typeOf :: "(unique_key \<Rightarrow> ConfigType option) \<Rightarrow> string \<Rightarrow> string \<Rightarrow> exn + ConfigType" where
  "typeOf types grp key = or_throw ConfigUnknownError (types (grp, key))"

fun createConfigItems :: "key_file \<Rightarrow> (unique_key \<Rightarrow> ConfigType option) \<Rightarrow> unique_key list \<Rightarrow> config_source \<Rightarrow> exn + config_source" where
  "createConfigItems K types [] s = Inr s"
| "createConfigItems K types ((grp, key) # rest) s = andthen (typeOf types grp key) (\<lambda>type.
     andthen (createItem K grp key type s) (createConfigItems K types rest))"

definition emptySource :: config_source where
  "emptySource = \<lparr>stringConfigs = [], intConfigs = [], boolConfigs = []\<rparr>"

text \<open>The loader hands out the key file, or \<open>None\<close> where it throws.\<close>

definition newMainConfigSource :: "key_file option \<Rightarrow> (unique_key \<Rightarrow> ConfigType option) \<Rightarrow> exn + config_source" where
  "newMainConfigSource loaded types = andthen (or_throw ConfigFileError loaded) (\<lambda>K.
     andthen (readLoadedConfig K) (\<lambda>byGroup.
       createConfigItems K types (concat (map (\<lambda>(g, ks). map (Pair g) ks) byGroup)) emptySource))"

subsection \<open>The defaults of the build\<close>

definition newDefaultConfigSource :: "build \<Rightarrow> config_source" where
  "newDefaultConfigSource B =
     \<lparr>stringConfigs = map (setSource Default)
        [newItem SC_GROUP SHARED_MOUNTS_DIR (default_shared_mounts_dir B),
         newItem SC_GROUP LXC_CONFIG_PATH (default_lxc_config_path B),
         newItem SC_GROUP SERVICE_MANIFEST_DIR (default_service_manifest_dir B),
         newItem SC_GROUP DEFAULT_SERVICE_MANIFEST_DIR (default_default_service_manifest_dir B)],
      intConfigs = [setSource Default (newItem SC_GROUP SHUTDOWN_TIMEOUT (default_shutdown_timeout B))],
      boolConfigs = [setSource Default (newItem SC_GROUP USE_SESSION_BUS (default_use_session_bus B))]\<rparr>"

section \<open>Config\<close>

record agent_config =
  m_stringConfigs :: "string config_item list"
  m_intConfigs :: "int config_item list"
  m_boolConfigs :: "bool config_item list"
  m_allConfigs :: "unique_key list"

definition readConfigsFromSources :: "config_source list \<Rightarrow> agent_config" where
  "readConfigsFromSources sources =
     (let strings = concat (map stringConfigs sources); ints = concat (map intConfigs sources);
          bools = concat (map boolConfigs sources) in
      \<lparr>m_stringConfigs = strings, m_intConfigs = ints, m_boolConfigs = bools,
       m_allConfigs = map uniqueKey strings @ map uniqueKey ints @ map uniqueKey bools\<rparr>)"

definition allDepsSatisfied :: "agent_config \<Rightarrow> unique_key list \<Rightarrow> bool" where
  "allDepsSatisfied c deps \<longleftrightarrow> list_all (\<lambda>d. d \<in> set (m_allConfigs c)) deps"

definition assertDependencies :: "(unique_key \<times> unique_key list) list \<Rightarrow> agent_config \<Rightarrow> exn + unit" where
  "assertDependencies dependencies c =
     (if list_ex (\<lambda>(k, deps). k \<in> set (m_allConfigs c) \<and> \<not> allDepsSatisfied c deps) dependencies
      then Inl ConfigDependencyError else Inr ())"

definition assertAllMandatoryPresent :: "unique_key list \<Rightarrow> agent_config \<Rightarrow> exn + unit" where
  "assertAllMandatoryPresent mandatories c =
     (if list_ex (\<lambda>k. k \<notin> set (m_allConfigs c)) mandatories then Inl ConfigMandatoryError else Inr ())"

definition newConfig :: "config_source list \<Rightarrow> unique_key list \<Rightarrow> (unique_key \<times> unique_key list) list \<Rightarrow> exn + agent_config" where
  "newConfig sources mandatories dependencies = (let c = readConfigsFromSources sources in
     andthen (assertDependencies dependencies c) (\<lambda>_.
       andthen (assertAllMandatoryPresent mandatories c) (\<lambda>_. Inr c)))"

fun firstFrom :: "ConfigSourceType list \<Rightarrow> 'v config_item list \<Rightarrow> exn + 'v config_item" where
  "firstFrom [] configs = Inl ConfigInternalError"
| "firstFrom (src # srcs) configs = (case find (\<lambda>i. item_source i = Some src) configs of
     Some i \<Rightarrow> Inr i | None \<Rightarrow> firstFrom srcs configs)"

definition prioritizedConfig :: "'v config_item list \<Rightarrow> exn + 'v config_item" where
  "prioritizedConfig configs = firstFrom [Commandline, Main, Default] configs"

definition getConfig :: "string \<Rightarrow> string \<Rightarrow> 'v config_item list \<Rightarrow> exn + 'v config_item" where
  "getConfig grp key configs = (let found = filter (\<lambda>i. item_group i = grp \<and> item_name i = key) configs in
     if found = [] then Inl ConfigNotFoundError else prioritizedConfig found)"

definition getStringValue :: "agent_config \<Rightarrow> string \<Rightarrow> string \<Rightarrow> exn + string" where
  "getStringValue c grp key = map_sum id item_value (getConfig grp key (m_stringConfigs c))"

definition getIntValue :: "agent_config \<Rightarrow> string \<Rightarrow> string \<Rightarrow> exn + int" where
  "getIntValue c grp key = map_sum id item_value (getConfig grp key (m_intConfigs c))"

definition getBoolValue :: "agent_config \<Rightarrow> string \<Rightarrow> string \<Rightarrow> exn + bool" where
  "getBoolValue c grp key = map_sum id item_value (getConfig grp key (m_boolConfigs c))"

section \<open>The main program's part\<close>

record options =
  opt_manifest_dir :: string
  opt_default_manifest_dir :: string
  opt_timeout :: int
  opt_session_bus :: bool

definition with_slash :: "string \<Rightarrow> string" where
  "with_slash dir = (if last dir \<noteq> CHR ''/'' then dir @ ''/'' else dir)"

definition commandlineItems :: "options \<Rightarrow> config_source" where
  "commandlineItems opts = newCommandlineConfigSource
     ((if opt_manifest_dir opts \<noteq> ''''
       then [newItem SC_GROUP SERVICE_MANIFEST_DIR (with_slash (opt_manifest_dir opts))] else []) @
      (if opt_default_manifest_dir opts \<noteq> ''''
       then [newItem SC_GROUP DEFAULT_SERVICE_MANIFEST_DIR (with_slash (opt_default_manifest_dir opts))] else []))
     (if opt_timeout opts \<noteq> SHUTDOWN_TIMEOUT_INITIAL then [newItem SC_GROUP SHUTDOWN_TIMEOUT (opt_timeout opts)] else [])
     (if opt_session_bus opts then [newItem SC_GROUP USE_SESSION_BUS True] else [])"

definition agentConfig :: "options \<Rightarrow> key_file option \<Rightarrow> build \<Rightarrow> exn + agent_config" where
  "agentConfig opts loaded B = andthen (newMainConfigSource loaded (typeMap B)) (\<lambda>mainConfigs.
     newConfig [commandlineItems opts, mainConfigs, newDefaultConfigSource B] (mandatory B) [])"

section \<open>Lemmas\<close>

definition find_item :: "unique_key \<Rightarrow> 'v config_item list \<Rightarrow> 'v config_item option" where
  "find_item k items = find (\<lambda>i. uniqueKey i = k) items"

definition all_from :: "ConfigSourceType \<Rightarrow> 'v config_item list \<Rightarrow> bool" where
  "all_from src items \<longleftrightarrow> (\<forall>i \<in> set items. item_source i = Some src)"

lemma find_from:
  assumes "all_from src items"
  shows "find (\<lambda>i. uniqueKey i = k \<and> item_source i = Some src') items = (if src = src' then find_item k items else None)"
  using assms by (induction items) (auto simp: all_from_def find_item_def)

text \<open>The item that counts: the first of the command line, then of the file, then of the defaults.\<close>

lemma getConfig_layers:
  assumes "all_from Commandline A" "all_from Main M" "all_from Default D"
  shows "getConfig grp key (A @ M @ D) = or_throw ConfigNotFoundError
    (first_of (find_item (grp, key) A) (first_of (find_item (grp, key) M) (find_item (grp, key) D)))"
proof -
  let ?k = "(grp, key)"
  have key: "(\<lambda>i. item_group i = grp \<and> item_name i = key) = (\<lambda>i. uniqueKey i = ?k)"
    by (auto simp: uniqueKey_def)
  have src: "find (\<lambda>i. item_source i = Some src) (filter (\<lambda>i. uniqueKey i = ?k) (A @ M @ D)) =
      first_of (if src = Commandline then find_item ?k A else None)
        (first_of (if src = Main then find_item ?k M else None) (if src = Default then find_item ?k D else None))" for src
    unfolding find_filter find_append
    using find_from [OF assms(1), of ?k src] find_from [OF assms(2), of ?k src] find_from [OF assms(3), of ?k src] by simp
  have none: "filter (\<lambda>i. uniqueKey i = ?k) xs = [] \<longleftrightarrow> find_item ?k xs = None" for xs :: "'a config_item list"
    by (auto simp: find_item_def find_None_iff filter_empty_conv)
  have empty: "filter (\<lambda>i. uniqueKey i = ?k) (A @ M @ D) = [] \<longleftrightarrow>
      find_item ?k A = None \<and> find_item ?k M = None \<and> find_item ?k D = None"
    by (simp only: filter_append append_is_Nil_conv none)
  show ?thesis
    unfolding getConfig_def key Let_def empty prioritizedConfig_def firstFrom.simps src
    by (cases "find_item ?k A"; cases "find_item ?k M"; cases "find_item ?k D")
      (simp_all add: first_of_def or_throw_def)
qed

text \<open>What the main file contributes.\<close>

definition in_file :: "key_file \<Rightarrow> unique_key \<Rightarrow> bool" where
  "in_file K k \<longleftrightarrow> (\<exists>gs ks. kf_groups K = Some gs \<and> fst k \<in> set gs \<and> kf_keys K (fst k) = Some ks \<and> snd k \<in> set ks)"

definition entries :: "(string, string list) std_map \<Rightarrow> unique_key list" where
  "entries m = concat (map (\<lambda>(g, ks). map (Pair g) ks) m)"

lemma set_entries: "ordered m \<Longrightarrow> k \<in> set (entries m) \<longleftrightarrow> (\<exists>ks. map_of m (fst k) = Some ks \<and> snd k \<in> set ks)"
  using ordered_distinct [of m] by (cases k) (force simp: entries_def map_of_eq_Some_iff)

lemma pushKeys:
  assumes "ordered m"
  shows "ordered (foldl (\<lambda>m k. pushKey g k m) m ks) \<and>
    (\<forall>k. k \<in> set (entries (foldl (\<lambda>m k. pushKey g k m) m ks)) \<longleftrightarrow> k \<in> set (entries m) \<or> fst k = g \<and> snd k \<in> set ks)"
  using assms
proof (induction ks arbitrary: m)
  case (Cons x ks)
  have o: "ordered (pushKey g x m)" using Cons.prems by (simp add: pushKey_def)
  have "k \<in> set (entries (pushKey g x m)) \<longleftrightarrow> k \<in> set (entries m) \<or> k = (g, x)" for k
    using o Cons.prems by (cases k) (cases "map_of m g"; auto simp: set_entries pushKey_def split: if_splits)
  with Cons.IH [OF o] show ?case by auto
qed simp

lemma readGroups_entries:
  assumes "readGroups K gs m = Inr m'" "ordered m"
  shows "ordered m' \<and> (\<forall>k. k \<in> set (entries m') \<longleftrightarrow> k \<in> set (entries m) \<or>
    fst k \<in> set gs \<and> (\<exists>ks. kf_keys K (fst k) = Some ks \<and> snd k \<in> set ks))"
  using assms
proof (induction K gs m rule: readGroups.induct)
  case (2 K g gs m)
  then obtain ks where ks: "kf_keys K g = Some ks" by (auto simp: andthen_def or_throw_def split: option.splits)
  with 2 pushKeys [OF 2(3), of g ks] show ?case by (auto simp: andthen_def or_throw_def)
qed auto

lemma readLoaded_entries:
  assumes "readLoadedConfig K = Inr m"
  shows "k \<in> set (entries m) \<longleftrightarrow> in_file K k"
proof -
  obtain gs where gs: "kf_groups K = Some gs" "readGroups K gs [] = Inr m"
    using assms by (auto simp: readLoadedConfig_def andthen_def or_throw_def split: option.splits)
  from readGroups_entries [OF gs(2)] have "k \<in> set (entries m) \<longleftrightarrow> k \<in> set (entries []) \<or>
      fst k \<in> set gs \<and> (\<exists>ks. kf_keys K (fst k) = Some ks \<and> snd k \<in> set ks)" by (cases k) simp
  then show ?thesis by (simp add: in_file_def gs(1)) (simp add: entries_def)
qed

text \<open>Every known entry becomes an item of the list for its type.\<close>

definition file_items :: "ConfigType \<Rightarrow> (unique_key \<Rightarrow> ConfigType option) \<Rightarrow> (string \<Rightarrow> string \<Rightarrow> 'v option) \<Rightarrow> unique_key list \<Rightarrow>
    'v config_item list" where
  "file_items type types val ks = map (\<lambda>k. setSource Main (newItem (fst k) (snd k) (the (val (fst k) (snd k)))))
     (filter (\<lambda>k. types k = Some type) ks)"

lemma createConfigItems_spec:
  assumes "createConfigItems K types ks s = Inr s'"
  shows "(\<forall>k \<in> set ks. \<exists>t. types k = Some t \<and> (t = TString \<longrightarrow> kf_string K (fst k) (snd k) \<noteq> None) \<and>
      (t = TInteger \<longrightarrow> kf_integer K (fst k) (snd k) \<noteq> None) \<and> (t = TBoolean \<longrightarrow> kf_boolean K (fst k) (snd k) \<noteq> None)) \<and>
    s' = \<lparr>stringConfigs = stringConfigs s @ file_items TString types (kf_string K) ks,
          intConfigs = intConfigs s @ file_items TInteger types (kf_integer K) ks,
          boolConfigs = boolConfigs s @ file_items TBoolean types (kf_boolean K) ks\<rparr>"
  using assms
proof (induction K types ks s rule: createConfigItems.induct)
  case (2 K types grp key rest s)
  obtain t where t: "types (grp, key) = Some t"
    using 2(2) by (auto simp: typeOf_def or_throw_def andthen_def split: option.splits)
  obtain s1 where s1: "createItem K grp key t s = Inr s1" "createConfigItems K types rest s1 = Inr s'"
    using 2(2) by (auto simp: t typeOf_def or_throw_def andthen_def split: sum.splits)
  note IH = 2(1) [OF s1(2)]
  from s1(1) t IH show ?case
    by (cases t) (auto simp: createItem_def createConfig_def or_throw_def andthen_def file_items_def split: option.splits)
qed (simp add: file_items_def)

lemma find_file_items:
  "find_item k (file_items type types val ks) =
    (if k \<in> set ks \<and> types k = Some type then Some (setSource Main (newItem (fst k) (snd k) (the (val (fst k) (snd k))))) else None)"
  unfolding file_items_def
  by (induction ks) (auto simp: find_item_def uniqueKey_def setSource_def newItem_def)

lemma mainSource_spec:
  assumes "newMainConfigSource (Some K) types = Inr s"
  shows "(\<forall>k. in_file K k \<longrightarrow> types k \<noteq> None) \<and>
    (\<forall>k. map_option item_value (find_item k (stringConfigs s)) =
        (if in_file K k \<and> types k = Some TString then kf_string K (fst k) (snd k) else None) \<and>
      map_option item_value (find_item k (intConfigs s)) =
        (if in_file K k \<and> types k = Some TInteger then kf_integer K (fst k) (snd k) else None) \<and>
      map_option item_value (find_item k (boolConfigs s)) =
        (if in_file K k \<and> types k = Some TBoolean then kf_boolean K (fst k) (snd k) else None)) \<and>
    all_from Main (stringConfigs s) \<and> all_from Main (intConfigs s) \<and> all_from Main (boolConfigs s)"
proof -
  obtain m where m: "readLoadedConfig K = Inr m" "createConfigItems K types (entries m) emptySource = Inr s"
    using assms by (auto simp: newMainConfigSource_def or_throw_def andthen_def entries_def split: sum.splits)
  note spec = createConfigItems_spec [OF m(2)] and in_entries = readLoaded_entries [OF m(1)]
  have from_main: "all_from Main (file_items t types v ks)" for t ks and v :: "string \<Rightarrow> string \<Rightarrow> 'b option"
    by (auto simp: all_from_def file_items_def setSource_def)
  have val: "item_value (setSource Main (newItem a b v)) = v" for a b and v :: 'b
    by (simp add: setSource_def newItem_def)
  show ?thesis
    using spec by (force simp: emptySource_def find_file_items in_entries from_main val)
qed

lemma agentConfig_cases:
  assumes "agentConfig opts (Some K) B = Inr c"
  obtains m where "newMainConfigSource (Some K) (typeMap B) = Inr m"
    "c = readConfigsFromSources [commandlineItems opts, m, newDefaultConfigSource B]"
    "assertAllMandatoryPresent (mandatory B) c = Inr ()"
  using assms
  by (auto simp: agentConfig_def newConfig_def andthen_def Let_def split: sum.splits)

lemma sources_all_from:
  "all_from Commandline (stringConfigs (commandlineItems opts))"
  "all_from Commandline (intConfigs (commandlineItems opts))"
  "all_from Commandline (boolConfigs (commandlineItems opts))"
  "all_from Default (stringConfigs (newDefaultConfigSource B))"
  "all_from Default (intConfigs (newDefaultConfigSource B))"
  "all_from Default (boolConfigs (newDefaultConfigSource B))"
  by (auto simp: all_from_def commandlineItems_def newCommandlineConfigSource_def newDefaultConfigSource_def setSource_def)

lemma map_sum_or_throw: "map_sum id f (or_throw e v) = or_throw e (map_option f v)"
  by (cases v) (simp_all add: or_throw_def)

lemma map_option_first_of: "map_option f (first_of a b) = first_of (map_option f a) (map_option f b)"
  by (cases a) (simp_all add: first_of_def)

text \<open>The value one source has for a key.\<close>

definition own_value :: "unique_key \<Rightarrow> 'v config_item list \<Rightarrow> 'v option" where
  "own_value k items = map_option item_value (find_item k items)"

lemma layered:
  assumes "all_from Commandline A" "all_from Main M" "all_from Default D"
  shows "map_sum id item_value (getConfig grp key (A @ M @ D)) = or_throw ConfigNotFoundError
    (first_of (own_value (grp, key) A) (first_of (own_value (grp, key) M) (own_value (grp, key) D)))"
  by (simp add: getConfig_layers [OF assms] map_sum_or_throw map_option_first_of own_value_def)

section \<open>Properties\<close>

definition file_value :: "build \<Rightarrow> key_file \<Rightarrow> ConfigType \<Rightarrow> (string \<Rightarrow> string \<Rightarrow> 'v option) \<Rightarrow> unique_key \<Rightarrow> 'v option" where
  "file_value B K type val k = (if in_file K k \<and> typeMap B k = Some type then val (fst k) (snd k) else None)"

lemma typed_values:
  assumes "agentConfig opts (Some K) B = Inr c"
  shows "getStringValue c grp key = or_throw ConfigNotFoundError
      (first_of (own_value (grp, key) (stringConfigs (commandlineItems opts)))
        (first_of (file_value B K TString (kf_string K) (grp, key))
          (own_value (grp, key) (stringConfigs (newDefaultConfigSource B))))) \<and>
    getIntValue c grp key = or_throw ConfigNotFoundError
      (first_of (own_value (grp, key) (intConfigs (commandlineItems opts)))
        (first_of (file_value B K TInteger (kf_integer K) (grp, key))
          (own_value (grp, key) (intConfigs (newDefaultConfigSource B))))) \<and>
    getBoolValue c grp key = or_throw ConfigNotFoundError
      (first_of (own_value (grp, key) (boolConfigs (commandlineItems opts)))
        (first_of (file_value B K TBoolean (kf_boolean K) (grp, key))
          (own_value (grp, key) (boolConfigs (newDefaultConfigSource B)))))"
proof -
  obtain m where m: "newMainConfigSource (Some K) (typeMap B) = Inr m"
      and c: "c = readConfigsFromSources [commandlineItems opts, m, newDefaultConfigSource B]"
    using assms by (rule agentConfig_cases)
  note main = mainSource_spec [OF m]
  have own: "own_value k (stringConfigs m) = file_value B K TString (kf_string K) k"
      "own_value k (intConfigs m) = file_value B K TInteger (kf_integer K) k"
      "own_value k (boolConfigs m) = file_value B K TBoolean (kf_boolean K) k" for k
    using main unfolding own_value_def file_value_def by blast+
  have from_main: "all_from Main (stringConfigs m)" "all_from Main (intConfigs m)" "all_from Main (boolConfigs m)"
    using main by simp_all
  note L = sources_all_from(1-3) [of opts] from_main sources_all_from(4-6) [of B]
  show ?thesis
    using layered [OF L(1) L(4) L(7), of grp key] layered [OF L(2) L(5) L(8), of grp key]
      layered [OF L(3) L(6) L(9), of grp key]
    by (simp add: c readConfigsFromSources_def Let_def getStringValue_def getIntValue_def getBoolValue_def own)
qed

text \<open>C12: A setting is read from the command line where it was given there, else from the main
  configuration file where that file has the key (and the key has the type that is asked for), else
  from the defaults of the build; where none of the three has it, the read throws. This holds of
  all three types and for whatever the key file holds.\<close>

theorem config_value_precedence:
  assumes "agentConfig opts (Some K) B = Inr c"
  shows "getStringValue c grp key = or_throw ConfigNotFoundError
      (first_of (own_value (grp, key) (stringConfigs (commandlineItems opts)))
        (first_of (file_value B K TString (kf_string K) (grp, key))
          (own_value (grp, key) (stringConfigs (newDefaultConfigSource B))))) \<and>
    getIntValue c grp key = or_throw ConfigNotFoundError
      (first_of (own_value (grp, key) (intConfigs (commandlineItems opts)))
        (first_of (file_value B K TInteger (kf_integer K) (grp, key))
          (own_value (grp, key) (intConfigs (newDefaultConfigSource B))))) \<and>
    getBoolValue c grp key = or_throw ConfigNotFoundError
      (first_of (own_value (grp, key) (boolConfigs (commandlineItems opts)))
        (first_of (file_value B K TBoolean (kf_boolean K) (grp, key))
          (own_value (grp, key) (boolConfigs (newDefaultConfigSource B)))))"
  by (rule typed_values [OF assms])

definition some_build :: build where
  "some_build = \<lparr>create_bridge_mandatory = True, bridge_device_mandatory = True, bridge_ip_mandatory = False,
     bridge_netmask_bitlength_mandatory = False, bridge_netmask_mandatory = False, bridge_netaddr_mandatory = False,
     default_shared_mounts_dir = ''/tmp/container/'', default_lxc_config_path = ''/etc/lxc.conf'',
     default_service_manifest_dir = ''/usr/manifests/'', default_default_service_manifest_dir = ''/usr/default/'',
     default_shutdown_timeout = 2, default_use_session_bus = False\<rparr>"

definition some_key_file :: key_file where
  "some_key_file = \<lparr>kf_groups = Some [SC_GROUP],
     kf_keys = (\<lambda>g. if g = SC_GROUP then Some [CREATE_BRIDGE, BRIDGE_DEVICE, SHUTDOWN_TIMEOUT] else None),
     kf_string = (\<lambda>g k. if k = BRIDGE_DEVICE then Some ''br0'' else None),
     kf_integer = (\<lambda>g k. if k = SHUTDOWN_TIMEOUT then Some 5 else None),
     kf_boolean = (\<lambda>g k. if k = CREATE_BRIDGE then Some True else None)\<rparr>"

definition some_options :: options where
  "some_options = \<lparr>opt_manifest_dir = ''/home/manifests'', opt_default_manifest_dir = '''', opt_timeout = -2, opt_session_bus = True\<rparr>"

definition some_config :: agent_config where
  "some_config = (case agentConfig some_options (Some some_key_file) some_build of Inr c \<Rightarrow> c
     | Inl e \<Rightarrow> readConfigsFromSources [])"

lemma some_config_built: "agentConfig some_options (Some some_key_file) some_build = Inr some_config"
  by code_simp

theorem config_value_precedence_witness:
  "getIntValue some_config SC_GROUP SHUTDOWN_TIMEOUT = Inr 5 \<and>
   getIntValue some_config SC_GROUP SHUTDOWN_TIMEOUT = or_throw ConfigNotFoundError
     (first_of (own_value (SC_GROUP, SHUTDOWN_TIMEOUT) (intConfigs (commandlineItems some_options)))
       (first_of (file_value some_build some_key_file TInteger (kf_integer some_key_file) (SC_GROUP, SHUTDOWN_TIMEOUT))
         (own_value (SC_GROUP, SHUTDOWN_TIMEOUT) (intConfigs (newDefaultConfigSource some_build)))))"
proof
  show "getIntValue some_config SC_GROUP SHUTDOWN_TIMEOUT = Inr 5" by code_simp
qed (use config_value_precedence [OF some_config_built] in blast)

text \<open>Which keys have a default of the build.\<close>

definition has_default :: "string \<Rightarrow> bool" where
  "has_default key \<longleftrightarrow> key \<in> {USE_SESSION_BUS, SHUTDOWN_TIMEOUT, SHARED_MOUNTS_DIR, LXC_CONFIG_PATH,
     SERVICE_MANIFEST_DIR, DEFAULT_SERVICE_MANIFEST_DIR}"

lemmas key_names = SC_GROUP_def USE_SESSION_BUS_def SHUTDOWN_TIMEOUT_def SHARED_MOUNTS_DIR_def LXC_CONFIG_PATH_def
  SERVICE_MANIFEST_DIR_def DEFAULT_SERVICE_MANIFEST_DIR_def CREATE_BRIDGE_def BRIDGE_DEVICE_def BRIDGE_IP_def
  BRIDGE_NETADDR_def BRIDGE_NETMASK_def BRIDGE_NETMASK_BITLENGTH_def

lemma config_keys_distinct: "distinct [CREATE_BRIDGE, BRIDGE_DEVICE, BRIDGE_IP, BRIDGE_NETMASK_BITLENGTH, BRIDGE_NETMASK,
    BRIDGE_NETADDR, USE_SESSION_BUS, SHUTDOWN_TIMEOUT, SHARED_MOUNTS_DIR, LXC_CONFIG_PATH, SERVICE_MANIFEST_DIR,
    DEFAULT_SERVICE_MANIFEST_DIR]"
  by (simp add: key_names)

lemma typeMap_CONFIGS: "(grp, key, type, flag) \<in> set (CONFIGS B) \<Longrightarrow> typeMap B (grp, key) = Some type"
  using config_keys_distinct by (auto simp: CONFIGS_def typeMap_def)

lemma in_items: "k \<in> set (map uniqueKey items) \<longleftrightarrow> own_value k items \<noteq> None"
  by (auto simp: own_value_def find_item_def find_None_iff)

text \<open>Outside the file only keys with a default are set.\<close>

lemma other_sources_default:
  assumes "own_value (grp, key) (stringConfigs (commandlineItems opts)) \<noteq> None \<or>
    own_value (grp, key) (intConfigs (commandlineItems opts)) \<noteq> None \<or>
    own_value (grp, key) (boolConfigs (commandlineItems opts)) \<noteq> None \<or>
    own_value (grp, key) (stringConfigs (newDefaultConfigSource B)) \<noteq> None \<or>
    own_value (grp, key) (intConfigs (newDefaultConfigSource B)) \<noteq> None \<or>
    own_value (grp, key) (boolConfigs (newDefaultConfigSource B)) \<noteq> None"
  shows "has_default key"
  using assms unfolding in_items [symmetric]
  by (auto simp: has_default_def commandlineItems_def newCommandlineConfigSource_def newDefaultConfigSource_def
      uniqueKey_def setSource_def newItem_def split: if_splits)

lemma default_values:
  "own_value (SC_GROUP, SHARED_MOUNTS_DIR) (stringConfigs (newDefaultConfigSource B)) \<noteq> None"
  "own_value (SC_GROUP, LXC_CONFIG_PATH) (stringConfigs (newDefaultConfigSource B)) \<noteq> None"
  "own_value (SC_GROUP, SERVICE_MANIFEST_DIR) (stringConfigs (newDefaultConfigSource B)) \<noteq> None"
  "own_value (SC_GROUP, DEFAULT_SERVICE_MANIFEST_DIR) (stringConfigs (newDefaultConfigSource B)) \<noteq> None"
  "own_value (SC_GROUP, SHUTDOWN_TIMEOUT) (intConfigs (newDefaultConfigSource B)) \<noteq> None"
  "own_value (SC_GROUP, USE_SESSION_BUS) (boolConfigs (newDefaultConfigSource B)) \<noteq> None"
  unfolding in_items [symmetric]
  by (simp_all add: newDefaultConfigSource_def uniqueKey_def setSource_def newItem_def)

lemma or_throw_first_of_Inr: "(\<exists>v. or_throw e (first_of a (first_of b d)) = Inr v) \<longleftrightarrow> a \<noteq> None \<or> b \<noteq> None \<or> d \<noteq> None"
  by (auto simp: or_throw_def first_of_def split: option.splits)

text \<open>A key that is in any source has a value of some type.\<close>

lemma present_has_value:
  assumes "agentConfig opts (Some K) B = Inr c" "k \<in> set (mandatory B)" "\<not> has_default (snd k)"
  shows "file_value B K TString (kf_string K) k \<noteq> None \<or> file_value B K TInteger (kf_integer K) k \<noteq> None \<or>
    file_value B K TBoolean (kf_boolean K) k \<noteq> None"
proof -
  obtain m where m: "newMainConfigSource (Some K) (typeMap B) = Inr m"
      and c: "c = readConfigsFromSources [commandlineItems opts, m, newDefaultConfigSource B]"
      and all: "assertAllMandatoryPresent (mandatory B) c = Inr ()"
    using assms(1) by (rule agentConfig_cases)
  have "k \<in> set (m_allConfigs c)"
    using all assms(2) by (auto simp: assertAllMandatoryPresent_def list_ex_iff split: if_splits)
  then have "k \<in> set (map uniqueKey (stringConfigs m)) \<or> k \<in> set (map uniqueKey (intConfigs m)) \<or>
      k \<in> set (map uniqueKey (boolConfigs m))"
    using other_sources_default [of "fst k" "snd k" opts B] assms(3)
    unfolding in_items [symmetric] by (auto simp: c readConfigsFromSources_def Let_def)
  then show ?thesis
    using mainSource_spec [OF m] unfolding in_items own_value_def file_value_def by metis
qed

text \<open>C32: What the agent asks its configuration for is there: once the configuration has been built, every
  item of the definition that is mandatory in this build, or that the build has a default for, reads
  as a value of the type the definition gives it, so no such read of the agent throws.\<close>

theorem agent_reads_defined:
  assumes "agentConfig opts (Some K) B = Inr c" "(grp, key, type, flag) \<in> set (CONFIGS B)" "flag \<or> has_default key"
  shows "case type of TString \<Rightarrow> \<exists>v. getStringValue c grp key = Inr v
    | TInteger \<Rightarrow> \<exists>v. getIntValue c grp key = Inr v
    | TBoolean \<Rightarrow> \<exists>v. getBoolValue c grp key = Inr v"
proof (cases "has_default key")
  case True
  then show ?thesis
    using assms(2) typed_values [OF assms(1), of SC_GROUP key] default_values [of B] config_keys_distinct
    by (auto simp: CONFIGS_def has_default_def or_throw_first_of_Inr)
next
  case False
  then have "(grp, key) \<in> set (mandatory B)"
    using assms(2,3) by (force simp: mandatory_def)
  from present_has_value [OF assms(1) this] False typeMap_CONFIGS [OF assms(2)]
  show ?thesis
    using typed_values [OF assms(1), of grp key]
    by (cases type) (auto simp: file_value_def or_throw_first_of_Inr)
qed

theorem agent_reads_defined_witness: "\<exists>v. getStringValue some_config SC_GROUP BRIDGE_DEVICE = Inr v"
proof -
  have "(SC_GROUP, BRIDGE_DEVICE, TString, True) \<in> set (CONFIGS some_build)"
    by (simp add: CONFIGS_def some_build_def)
  from agent_reads_defined [OF some_config_built this] show ?thesis by simp
qed

end
