(* ===== verification/ConfigStore.thy ===== *)
theory ConfigStore
  imports GatewayConfig Environ
begin

text \<open>
  The capabilities of the service manifests: the loader that finds and reads the manifest files, the
  store that parses them (\<open>BaseConfigStore\<close>), and what the default store and the filtered store hand
  out. Reading a directory and parsing a file are Glib's and jansson's: the record \<open>manifest_files\<close>
  holds their answers. The store is a map from capability names to gateway configurations.
\<close>

section \<open>The loader\<close>

text \<open>\<open>json_load_file\<close> is \<open>None\<close> where the file cannot be parsed; \<open>dir_names\<close> is \<open>None\<close> where \<open>Glib::Dir\<close>
  throws, else what the calls of \<open>read_name\<close> answer.\<close>

record manifest_files =
  json_load_file :: "calls \<Rightarrow> string \<Rightarrow> json option"
  dir_names :: "calls \<Rightarrow> string \<Rightarrow> string list option"

definition isJsonFile :: "string \<Rightarrow> bool" where
  "isJsonFile filename = (if length filename \<le> 5 then False else drop (length filename - 5) filename = ''.json'')"

definition fileList :: "manifest_files \<Rightarrow> string \<Rightarrow> (calls, string list) act" where
  "fileList F source h = (case dir_names F h source of
      None \<Rightarrow> (Inr [], h)
    | Some names \<Rightarrow> (Inr (filter isJsonFile (takeWhile (\<lambda>n. n \<noteq> '''') names)), h))"

definition loadServiceManifestFile :: "manifest_files \<Rightarrow> string \<Rightarrow> json list \<Rightarrow> (calls, json list) act" where
  "loadServiceManifestFile F filePath content h = (case json_load_file F h filePath of
      None \<Rightarrow> (Inl ServiceManifestParseError, h)
    | Some root \<Rightarrow> if \<not> json_is_object root then (Inl ServiceManifestParseError, h) else (Inr (content @ [root]), h))"

fun loadFiles :: "manifest_files \<Rightarrow> environment \<Rightarrow> string \<Rightarrow> string list \<Rightarrow> json list \<Rightarrow> (calls, json list) act" where
  "loadFiles F E source [] content = ret content"
| "loadFiles F E source (f # fs) content =
     bnd (loadServiceManifestFile F (buildPath E source f) content) (loadFiles F E source fs)"

definition loadServiceManifestDir :: "manifest_files \<Rightarrow> environment \<Rightarrow> string \<Rightarrow> json list \<Rightarrow> (calls, json list) act" where
  "loadServiceManifestDir F E source content = bnd (isDirectoryEmpty E source) (\<lambda>none.
     if none then ret content
     else bnd (fileList F source) (\<lambda>files.
       if files = [] then ret content else loadFiles F E source files content))"

text \<open>\<open>m_content\<close> is empty in a new loader.\<close>

definition loadContent :: "manifest_files \<Rightarrow> environment \<Rightarrow> string \<Rightarrow> (calls, json list) act" where
  "loadContent F E source =
     (if source = '''' then ret []
      else if source = ''/'' then throw ServiceManifestPathError
      else bnd (isDirectory E source) (\<lambda>dir.
        if dir then loadServiceManifestDir F E source []
        else bnd (isFile E source) (\<lambda>is_file.
          if is_file
          then (if isJsonFile source then loadServiceManifestFile F source [] else throw ServiceManifestPathError)
          else throw ServiceManifestPathError)))"

section \<open>The store\<close>

type_synonym capability_map = "(string, gateway_configuration) std_map"

fun gatewayConfigs :: "json list \<Rightarrow> gateway_configuration \<Rightarrow> exn + gateway_configuration" where
  "gatewayConfigs [] gwConf = Inr gwConf"
| "gatewayConfigs (gateway # rest) gwConf =
     (if \<not> json_is_object gateway then Inl CapabilityParseError
      else let (ok, gwID) = readString gateway ''id'' '''' in
        if \<not> ok then Inl CapabilityParseError
        else (case json_object_get gateway ''config'' of
            None \<Rightarrow> Inl CapabilityParseError
          | Some confs \<Rightarrow>
              if \<not> json_is_array confs then Inl CapabilityParseError
              else gatewayConfigs rest (snd (appendJson gwID confs gwConf))))"

definition parseGatewayConfigs :: "string \<Rightarrow> json \<Rightarrow> capability_map \<Rightarrow> exn + capability_map" where
  "parseGatewayConfigs capName gateways m =
     (if has_key capName m then Inr m
      else case gatewayConfigs (json_elements gateways) [] of
          Inl e \<Rightarrow> Inl e
        | Inr gwConf \<Rightarrow> Inr (put capName gwConf m))"

fun parseCapabilities :: "json list \<Rightarrow> capability_map \<Rightarrow> exn + capability_map" where
  "parseCapabilities [] m = Inr m"
| "parseCapabilities (capability # rest) m =
     (if \<not> json_is_object capability then Inl CapabilityParseError
      else let (ok, capName) = readString capability ''name'' '''' in
        if \<not> ok then Inl CapabilityParseError
        else (case json_object_get capability ''gateways'' of
            None \<Rightarrow> Inl CapabilityParseError
          | Some gateways \<Rightarrow>
              if \<not> json_is_array gateways then Inl CapabilityParseError
              else (case parseGatewayConfigs capName gateways m of
                  Inl e \<Rightarrow> Inl e
                | Inr m' \<Rightarrow> parseCapabilities rest m')))"

definition parseServiceManifest :: "json \<Rightarrow> capability_map \<Rightarrow> exn + capability_map" where
  "parseServiceManifest manifest m = (case json_object_get manifest ''capabilities'' of
      None \<Rightarrow> Inl CapabilityParseError
    | Some capabilities \<Rightarrow>
        if \<not> json_is_array capabilities then Inl CapabilityParseError
        else parseCapabilities (json_elements capabilities) m)"

fun parseManifests :: "json list \<Rightarrow> capability_map \<Rightarrow> exn + capability_map" where
  "parseManifests [] m = Inr m"
| "parseManifests (manifest # rest) m = (case parseServiceManifest manifest m of
      Inl e \<Rightarrow> Inl e
    | Inr m' \<Rightarrow> parseManifests rest m')"

definition newBaseConfigStore :: "manifest_files \<Rightarrow> environment \<Rightarrow> string \<Rightarrow> (calls, capability_map) act" where
  "newBaseConfigStore F E source = bnd (loadContent F E source) (\<lambda>content. lift (parseManifests content []))"

subsection \<open>The default store and the filtered store\<close>

fun appendCapabilities :: "capability_map \<Rightarrow> gateway_configuration \<Rightarrow> gateway_configuration" where
  "appendCapabilities [] conf = conf"
| "appendCapabilities ((name, cap) # rest) conf = appendCapabilities rest (snd (appendAll cap conf))"

definition configs :: "capability_map \<Rightarrow> gateway_configuration" where
  "configs m = appendCapabilities m []"

definition IDs :: "capability_map \<Rightarrow> string list" where
  "IDs m = map fst m"

definition configByID :: "capability_map \<Rightarrow> string \<Rightarrow> exn + gateway_configuration" where
  "configByID m capID = (case map_of m capID of None \<Rightarrow> Inr [] | Some conf \<Rightarrow> copyConfiguration conf)"

fun appendByID :: "capability_map \<Rightarrow> string list \<Rightarrow> gateway_configuration \<Rightarrow> exn + gateway_configuration" where
  "appendByID m [] conf = Inr conf"
| "appendByID m (capID # rest) conf = (case configByID m capID of
      Inl e \<Rightarrow> Inl e
    | Inr c \<Rightarrow> appendByID m rest (snd (appendAll c conf)))"

definition configsByID :: "capability_map \<Rightarrow> string list \<Rightarrow> exn + gateway_configuration" where
  "configsByID m capIDs = appendByID m capIDs []"

section \<open>What the manifests define\<close>

text \<open>The specification reads the manifests themselves: the capabilities in the order of the files and
  of each file's list, and the elements a list of gateways has for one gateway.\<close>

definition cap_name :: "json \<Rightarrow> string" where
  "cap_name cap = snd (readString cap ''name'' '''')"

definition array_at :: "json \<Rightarrow> string \<Rightarrow> json list" where
  "array_at j k = (case json_object_get j k of None \<Rightarrow> [] | Some a \<Rightarrow> json_elements a)"

definition gw_elements :: "json list \<Rightarrow> string \<Rightarrow> json list" where
  "gw_elements gateways gid =
     concat (map (\<lambda>g. if snd (readString g ''id'' '''') = gid then array_at g ''config'' else []) gateways)"

definition all_caps :: "json list \<Rightarrow> json list" where
  "all_caps content = concat (map (\<lambda>manifest. array_at manifest ''capabilities'') content)"

definition first_cap :: "json list \<Rightarrow> string \<Rightarrow> json option" where
  "first_cap caps name = find (\<lambda>c. cap_name c = name) caps"

definition cap_elements :: "json list \<Rightarrow> string \<Rightarrow> string \<Rightarrow> json list" where
  "cap_elements caps name gid = (case first_cap caps name of
      None \<Rightarrow> [] | Some c \<Rightarrow> gw_elements (array_at c ''gateways'') gid)"

section \<open>The store holds the first definition of every capability\<close>

lemma gatewayConfigs_spec:
  assumes "gatewayConfigs gs conf = Inr conf'" "arrays conf"
  shows "arrays conf' \<and> (\<forall>g. elements conf' g = elements conf g @ gw_elements gs g)"
  using assms
proof (induction gs conf rule: gatewayConfigs.induct)
  case (2 gateway rest conf)
  obtain gid confs where g: "readString gateway ''id'' '''' = (True, gid)"
      "json_object_get gateway ''config'' = Some (JArray confs)" "json_is_object gateway"
    using 2(2) by (auto simp: json_is_array_conv split: if_splits prod.splits option.splits)
  note app = appendJson_array [OF 2(3), of gid confs]
  let ?c = "put gid (JArray (elements conf gid @ confs)) conf"
  have run: "gatewayConfigs rest ?c = Inr conf'" using 2(2) g by (simp add: app)
  have "arrays ?c" using arrays_put [OF 2(3)] .
  with 2(1) [of "(True, gid)" True gid "JArray confs"] run g app
  have "arrays conf' \<and> (\<forall>g. elements conf' g = elements ?c g @ gw_elements rest g)" by simp
  then show ?case using g by (auto simp: gw_elements_def elements_put array_at_def)
qed (simp add: gw_elements_def)

definition store_holds :: "json list \<Rightarrow> capability_map \<Rightarrow> bool" where
  "store_holds caps m \<longleftrightarrow> ordered m \<and> (\<forall>name. case map_of m name of
      None \<Rightarrow> first_cap caps name = None
    | Some conf \<Rightarrow> first_cap caps name \<noteq> None \<and> arrays conf \<and> elements conf = cap_elements caps name)"

lemma first_cap_snoc: "first_cap (caps @ [c]) name =
    (case first_cap caps name of None \<Rightarrow> if name = cap_name c then Some c else None | Some d \<Rightarrow> Some d)"
  by (auto simp: first_cap_def find_append first_of_def split: option.split)

lemma store_holds_Nil: "store_holds [] []"
  by (simp add: store_holds_def first_cap_def)

lemma store_holds_seen:
  assumes "store_holds caps m" "map_of m (cap_name c) = Some conf"
  shows "store_holds (caps @ [c]) m"
proof -
  have seen: "first_cap caps (cap_name c) \<noteq> None"
    using assms by (auto simp: store_holds_def dest: spec [of _ "cap_name c"])
  then have "first_cap (caps @ [c]) name = first_cap caps name" for name
    by (auto simp: first_cap_snoc split: option.split)
  then have "first_cap (caps @ [c]) = first_cap caps" by blast
  then show ?thesis using assms(1) unfolding store_holds_def cap_elements_def [abs_def] by (simp only: simp_thms)
qed

lemma store_holds_new:
  assumes "store_holds caps m" "map_of m (cap_name c) = None" "arrays conf"
    "\<forall>g. elements conf g = gw_elements (array_at c ''gateways'') g"
  shows "store_holds (caps @ [c]) (put (cap_name c) conf m)"
proof -
  have fresh: "first_cap caps (cap_name c) = None"
    using assms(1,2) by (auto simp: store_holds_def dest: spec [of _ "cap_name c"])
  then have f: "first_cap (caps @ [c]) name = (if name = cap_name c then Some c else first_cap caps name)" for name
    by (auto simp: first_cap_snoc split: option.split)
  show ?thesis
    using assms unfolding store_holds_def cap_elements_def f by (auto split: option.splits)
qed

lemma parseCapabilities_spec:
  assumes "parseCapabilities cs m = Inr m'" "store_holds caps m"
  shows "store_holds (caps @ cs) m'"
  using assms
proof (induction cs arbitrary: m caps)
  case (Cons c cs)
  obtain gws m1 where c: "readString c ''name'' '''' = (True, cap_name c)"
      "json_object_get c ''gateways'' = Some (JArray gws)"
      "parseGatewayConfigs (cap_name c) (JArray gws) m = Inr m1" "parseCapabilities cs m1 = Inr m'"
    using Cons.prems(1)
    by (auto simp: cap_name_def json_is_array_conv split: if_splits prod.splits option.splits sum.splits)
  have "store_holds (caps @ [c]) m1"
  proof (cases "map_of m (cap_name c)")
    case (Some conf)
    then show ?thesis using c(3) store_holds_seen [OF Cons.prems(2) Some] by (simp add: parseGatewayConfigs_def has_key_def)
  next
    case None
    then obtain conf where conf: "gatewayConfigs gws [] = Inr conf" "m1 = put (cap_name c) conf m"
      using c(3) by (auto simp: parseGatewayConfigs_def has_key_def split: sum.splits)
    have "arrays conf \<and> (\<forall>g. elements conf g = gw_elements (array_at c ''gateways'') g)"
      using gatewayConfigs_spec [OF conf(1)] c(2) by (simp add: array_at_def)
    then show ?thesis using store_holds_new [OF Cons.prems(2) None] conf(2) by blast
  qed
  from Cons.IH [OF c(4) this] show ?case by simp
qed simp

lemma parseManifests_spec:
  assumes "parseManifests content m = Inr m'" "store_holds caps m"
  shows "store_holds (caps @ all_caps content) m'"
  using assms
proof (induction content arbitrary: m caps)
  case (Cons j js)
  obtain cs m1 where j: "json_object_get j ''capabilities'' = Some (JArray cs)"
      "parseCapabilities cs m = Inr m1" "parseManifests js m1 = Inr m'"
    using Cons.prems(1)
    by (auto simp: parseServiceManifest_def json_is_array_conv split: sum.splits option.splits if_splits)
  from Cons.IH [OF j(3) parseCapabilities_spec [OF j(2) Cons.prems(2)]] show ?case
    by (simp add: all_caps_def array_at_def j(1))
qed (simp add: all_caps_def)

section \<open>What the stores hand out\<close>

lemma store_arrays: "store_holds caps m \<Longrightarrow> map_of m name = Some conf \<Longrightarrow> arrays conf \<and> elements conf = cap_elements caps name"
  unfolding store_holds_def by (auto dest: spec [of _ name])

lemma store_missing: "store_holds caps m \<Longrightarrow> map_of m name = None \<Longrightarrow> cap_elements caps name = (\<lambda>_. [])"
  unfolding store_holds_def by (auto simp: cap_elements_def [abs_def] dest: spec [of _ name])

lemma configByID_spec:
  assumes "store_holds caps m"
  shows "\<exists>c. configByID m capID = Inr c \<and> arrays c \<and> elements c = cap_elements caps capID"
proof (cases "map_of m capID")
  case None
  then show ?thesis using store_missing [OF assms None] by (auto simp: configByID_def)
next
  case (Some conf)
  with store_arrays [OF assms Some] appendAll_arrays [of "[]" conf] show ?thesis
    by (auto simp: configByID_def copyConfiguration_def)
qed

lemma appendByID_spec:
  assumes "store_holds caps m" "arrays conf"
  shows "\<exists>c. appendByID m capIDs conf = Inr c \<and> arrays c \<and>
    (\<forall>g. elements c g = elements conf g @ concat (map (\<lambda>n. cap_elements caps n g) capIDs))"
  using assms(2)
proof (induction capIDs arbitrary: conf)
  case (Cons n ns)
  obtain d where d: "configByID m n = Inr d" "arrays d" "elements d = cap_elements caps n"
    using configByID_spec [OF assms(1)] by blast
  show ?case
    using Cons.IH [OF gwconf.add_inv [OF Cons.prems d(2)]]
    by (auto simp: d(1) gwconf.add_els [OF Cons.prems d(2)] d(3))
qed simp

lemma appendCapabilities_fold:
  "appendCapabilities m conf = fold (\<lambda>c a. snd (appendAll c a)) (map snd m) conf"
  by (induction m conf rule: appendCapabilities.induct) auto

lemma store_values:
  assumes "store_holds caps m"
  shows "\<forall>(n, c) \<in> set m. arrays c \<and> elements c = cap_elements caps n"
proof -
  have "map_of m n = Some c" if "(n, c) \<in> set m" for n c
    using assms ordered_distinct that unfolding store_holds_def by (auto intro: map_of_is_SomeI)
  with store_arrays [OF assms] show ?thesis by blast
qed

lemma configs_spec:
  assumes "store_holds caps m"
  shows "arrays (configs m) \<and> elements (configs m) g = concat (map (\<lambda>n. cap_elements caps n g) (IDs m))"
proof -
  have inv: "\<forall>c \<in> set (map snd m). arrays c" using store_values [OF assms] by auto
  have "map (\<lambda>c. elements c g) (map snd m) = map (\<lambda>n. cap_elements caps n g) (IDs m)"
    using store_values [OF assms] by (auto simp: IDs_def)
  with gwconf.fold_inv [OF arrays_Nil inv] gwconf.fold_els [OF arrays_Nil inv, of g] show ?thesis
    by (simp add: configs_def appendCapabilities_fold)
qed

lemma IDs_spec:
  assumes "store_holds caps m"
  shows "sorted_wrt (<) (IDs m)" "set (IDs m) = cap_name ` set caps"
proof -
  show "sorted_wrt (<) (IDs m)" using assms by (simp add: store_holds_def ordered_def IDs_def)
  have "n \<in> set (IDs m) \<longleftrightarrow> first_cap caps n \<noteq> None" for n
    using assms unfolding store_holds_def IDs_def
    by (auto simp: dom_map_of_conv_image_fst [symmetric] dest: spec [of _ n] split: option.splits)
  then show "set (IDs m) = cap_name ` set caps"
    by (auto simp: first_cap_def find_None_iff)
qed

lemma newBaseConfigStore_cases:
  assumes "newBaseConfigStore F E source h = (Inr m, h')"
  obtains content where "loadContent F E source h = (Inr content, h')" "store_holds (all_caps content) m"
  using assms parseManifests_spec [OF _ store_holds_Nil]
  by (fastforce simp: newBaseConfigStore_def bnd_def lift_def split: sum.splits prod.splits)

section \<open>Properties\<close>

text \<open>C5: A store that was built implements its specification over the manifests that were loaded: its
  capabilities are those the manifests name, in the order of their names; what it hands out for a list
  of capabilities (the filtered store) or for all of them (the default store) never throws and has,
  for every gateway, the configuration elements of the requested capabilities one after the other,
  each as its first definition in the order of the manifests has them.\<close>

theorem stores_refine_manifests:
  assumes "newBaseConfigStore F E source h = (Inr m, h')" "loadContent F E source h = (Inr content, h')"
  shows "sorted_wrt (<) (IDs m) \<and> set (IDs m) = cap_name ` set (all_caps content) \<and>
    (\<exists>c. configsByID m capIDs = Inr c \<and>
      (\<forall>g. elements c g = concat (map (\<lambda>n. cap_elements (all_caps content) n g) capIDs))) \<and>
    (\<forall>g. elements (configs m) g = concat (map (\<lambda>n. cap_elements (all_caps content) n g) (IDs m)))"
proof -
  have held: "store_holds (all_caps content) m"
    using assms(1) by (rule newBaseConfigStore_cases) (use assms(2) in auto)
  show ?thesis
    using appendByID_spec [OF held arrays_Nil, of capIDs] configs_spec [OF held] IDs_spec [OF held]
    by (auto simp: configsByID_def)
qed

definition some_manifest :: json where
  "some_manifest = JObject [(''capabilities'', JArray
     [JObject [(''name'', JString ''b''), (''gateways'', JArray
        [JObject [(''id'', JString ''env''), (''config'', JArray [JInteger 1])],
         JObject [(''id'', JString ''env''), (''config'', JArray [JInteger 2])]])],
      JObject [(''name'', JString ''a''), (''gateways'', JArray
        [JObject [(''id'', JString ''env''), (''config'', JArray [JInteger 3])]])],
      JObject [(''name'', JString ''b''), (''gateways'', JArray
        [JObject [(''id'', JString ''env''), (''config'', JArray [JInteger 4])]])]])]"

definition manifest_world :: environment where
  "manifest_world = \<lparr>answer = (\<lambda>h c. (case c of File (Stat _) \<Rightarrow> S_IFREG | _ \<Rightarrow> 0, '''')), build_filename = (@),
     path_get_basename = id, shell_parse_argv = (\<lambda>s. Some [s]), getenv = (\<lambda>_. None)\<rparr>"

definition some_files :: manifest_files where
  "some_files = \<lparr>json_load_file = (\<lambda>_ _. Some some_manifest), dir_names = (\<lambda>_ _. None)\<rparr>"

definition some_store :: capability_map where
  "some_store = [(''a'', [(''env'', JArray [JInteger 3])]), (''b'', [(''env'', JArray [JInteger 1, JInteger 2])])]"

lemma some_store_built:
  "newBaseConfigStore some_files manifest_world ''m.json'' [] =
     (Inr some_store, [File (Stat ''m.json''), File (Stat ''m.json'')])"
  "loadContent some_files manifest_world ''m.json'' [] =
     (Inr [some_manifest], [File (Stat ''m.json''), File (Stat ''m.json'')])"
  by code_simp+

theorem stores_refine_manifests_witness:
  "(\<exists>c. configsByID some_store [''b'', ''a''] = Inr c \<and> elements c ''env'' = [JInteger 1, JInteger 2, JInteger 3])"
proof -
  obtain c where "configsByID some_store [''b'', ''a''] = Inr c"
      "elements c ''env'' = concat (map (\<lambda>n. cap_elements (all_caps [some_manifest]) n ''env'') [''b'', ''a''])"
    using stores_refine_manifests [OF some_store_built, of "[''b'', ''a'']"] by blast
  moreover have "concat (map (\<lambda>n. cap_elements (all_caps [some_manifest]) n ''env'') [''b'', ''a'']) =
      [JInteger 1, JInteger 2, JInteger 3]" by code_simp
  ultimately show ?thesis by simp
qed

end
