(* ===== verification/ContainerOptions.thy ===== *)
theory ContainerOptions
  imports SoftwareContainer
begin

text \<open>
  The options a client gives when it creates a container: \<open>DynamicContainerOptions\<close> and the parser
  \<open>ContainerOptionParser\<close>, which is one object for the whole life of the agent and keeps the options
  it is reading in a member. \<open>json_loads\<close> is jansson's and is a parameter; so is the value a member
  has that no constructor sets.
\<close>

record container_options =
  o_writeBufferEnabled :: bool
  o_temporaryFileSystemWriteBufferEnabled :: bool
  o_temporaryFileSystemSize :: "32 word"

definition newDynamicContainerOptions :: "32 word \<Rightarrow> container_options" where
  "newDynamicContainerOptions uninit = \<lparr>o_writeBufferEnabled = False,
     o_temporaryFileSystemWriteBufferEnabled = False, o_temporaryFileSystemSize = uninit\<rparr>"

definition setWriteBufferEnabled :: "bool \<Rightarrow> container_options \<Rightarrow> container_options" where
  "setWriteBufferEnabled flag opts = opts\<lparr>o_writeBufferEnabled := flag\<rparr>"

definition setTemporaryFileSystemWriteBufferEnabled :: "bool \<Rightarrow> container_options \<Rightarrow> container_options" where
  "setTemporaryFileSystemWriteBufferEnabled flag opts = opts\<lparr>o_temporaryFileSystemWriteBufferEnabled := flag\<rparr>"

definition setOptionTemporaryFileSystemSize :: "32 word \<Rightarrow> container_options \<Rightarrow> container_options" where
  "setOptionTemporaryFileSystemSize n opts = opts\<lparr>o_temporaryFileSystemSize := n\<rparr>"

definition toConfig :: "sc_config \<Rightarrow> container_options \<Rightarrow> sc_config" where
  "toConfig conf opts = setEnableWriteBuffer (o_writeBufferEnabled opts) conf"

section \<open>The parser\<close>

definition DEFAULT_TEMPORARY_FILESYSTEM_SIZE :: int where
  "DEFAULT_TEMPORARY_FILESYSTEM_SIZE = 100 * 1024 * 1024"

text \<open>The state is the member \<open>m_options\<close>. A read that fails leaves the variable as it was.\<close>

definition readOptionElement :: "json \<Rightarrow> (container_options, unit) act" where
  "readOptionElement element opts =
     (if \<not> json_is_object element then (Inl ContainerOptionParseError, opts)
      else let (ok, writeBuffer) = readBool element ''writeBufferEnabled'' False in
        if \<not> ok then (Inl ContainerOptionParseError, opts)
        else let opts' = setWriteBufferEnabled writeBuffer opts in
          if \<not> writeBuffer then (Inr (), opts')
          else let tmpfs = snd (readBool element ''temporaryFileSystemWriteBufferEnabled'' False);
                   opts'' = setTemporaryFileSystemWriteBufferEnabled tmpfs opts' in
            if \<not> tmpfs then (Inr (), opts'')
            else let n = snd (readInt element ''temporaryFileSystemSize'' DEFAULT_TEMPORARY_FILESYSTEM_SIZE) in
              (Inr (), setOptionTemporaryFileSystemSize (word_of_int n) opts''))"

text \<open>Only a parse that succeeds hands the options out and starts new ones.\<close>

definition parseOptions :: "(string \<Rightarrow> json option) \<Rightarrow> 32 word \<Rightarrow> string \<Rightarrow> (container_options, container_options) act" where
  "parseOptions json_loads uninit conf =
     (if conf = '''' then throw ContainerOptionParseError
      else case json_loads conf of
          None \<Rightarrow> throw ContainerOptionParseError
        | Some root \<Rightarrow>
            if \<not> json_is_array root then throw ContainerOptionParseError
            else seq (for_each readOptionElement (json_elements root))
              (\<lambda>opts. (Inr opts, newDynamicContainerOptions uninit)))"

section \<open>What a parse gives\<close>

text \<open>The flag of an element that is read without an error.\<close>

definition element_flag :: "json \<Rightarrow> bool option" where
  "element_flag e = (case json_object_get e ''writeBufferEnabled'' of
      Some JTrue \<Rightarrow> Some True | Some JFalse \<Rightarrow> Some False | _ \<Rightarrow> None)"

lemma flag_object: "element_flag e = Some b \<Longrightarrow> json_is_object e"
  by (cases e) (auto simp: element_flag_def)

lemma readOption_flag:
  assumes "element_flag e = Some b"
  shows "\<exists>opts'. readOptionElement e opts = (Inr (), opts') \<and> o_writeBufferEnabled opts' = b"
proof -
  have "readBool e ''writeBufferEnabled'' False = (True, b)"
    using assms by (auto simp: readBool_Some element_flag_def split: option.splits json.splits)
  then show ?thesis
    using flag_object [OF assms]
    by (auto simp: readOptionElement_def Let_def setWriteBufferEnabled_def setTemporaryFileSystemWriteBufferEnabled_def
        setOptionTemporaryFileSystemSize_def)
qed

lemma readOption_fail:
  assumes "element_flag e = None"
  shows "readOptionElement e opts = (Inl ContainerOptionParseError, opts)"
proof (cases "json_is_object e")
  case True
  obtain b where "readBool e ''writeBufferEnabled'' False = (False, b)"
    using assms by (auto simp: readBool_def element_flag_def split: option.splits json.splits)
  then show ?thesis using True by (simp add: readOptionElement_def)
qed (simp add: readOptionElement_def)

text \<open>The flag after a list of elements, from the flag before it: the last one read counts, and a bad
  element ends the reading.\<close>

fun last_flag :: "bool \<Rightarrow> json list \<Rightarrow> bool \<times> bool" where
  "last_flag b [] = (True, b)"
| "last_flag b (e # es) = (case element_flag e of None \<Rightarrow> (False, b) | Some c \<Rightarrow> last_flag c es)"

lemma for_each_options:
  "\<exists>opts'. for_each readOptionElement es opts =
      (if fst (last_flag (o_writeBufferEnabled opts) es) then Inr () else Inl ContainerOptionParseError, opts') \<and>
    o_writeBufferEnabled opts' = snd (last_flag (o_writeBufferEnabled opts) es)"
proof (induction es arbitrary: opts)
  case (Cons e es)
  show ?case
  proof (cases "element_flag e")
    case None
    then show ?thesis
      by (auto simp: seq_def bnd_def readOption_fail [OF None])
  next
    case (Some b)
    then obtain o1 where o1: "readOptionElement e opts = (Inr (), o1)" "o_writeBufferEnabled o1 = b"
      using readOption_flag by blast
    show ?thesis using Cons.IH [of o1] Some by (simp add: seq_def bnd_def o1(1) o1(2))
  qed
qed (simp add: ret_def)

lemma last_flag_append: "fst (last_flag b xs) \<Longrightarrow> last_flag b (xs @ ys) = last_flag (snd (last_flag b xs)) ys"
  by (induction b xs rule: last_flag.induct) (auto split: option.splits)

lemma last_flag_all: "\<forall>e \<in> set es. element_flag e \<noteq> None \<Longrightarrow>
  last_flag b es = (True, if es = [] then b else the (element_flag (last es)))"
  by (induction b es rule: last_flag.induct) (auto split: option.splits)

lemma parseOptions_run:
  assumes "conf \<noteq> ''''" "json_loads conf = Some (JArray es)"
  shows "\<exists>opts'. parseOptions json_loads uninit conf opts =
      (if fst (last_flag (o_writeBufferEnabled opts) es) then (Inr opts', newDynamicContainerOptions uninit)
       else (Inl ContainerOptionParseError, opts')) \<and>
    o_writeBufferEnabled opts' = snd (last_flag (o_writeBufferEnabled opts) es)"
proof -
  obtain opts' where "for_each readOptionElement es opts =
      (if fst (last_flag (o_writeBufferEnabled opts) es) then Inr () else Inl ContainerOptionParseError, opts')"
      "o_writeBufferEnabled opts' = snd (last_flag (o_writeBufferEnabled opts) es)"
    using for_each_options [of es opts] by blast
  then show ?thesis using assms by (auto simp: parseOptions_def seq_def bnd_def)
qed

lemma parseOptions_fails: "parseOptions json_loads uninit conf opts = (Inl e, opts') \<Longrightarrow> e = ContainerOptionParseError"
  using for_each_options [of "json_elements (the (json_loads conf))" opts]
  by (auto simp: parseOptions_def throw_def seq_def bnd_def split: if_splits option.splits)

section \<open>Properties\<close>

text \<open>C36: Where every element of a non-empty configuration is read, the container gets the write buffer the
  last element asks for and otherwise the agent's own settings, and the parser starts the next one with
  fresh options. A configuration that fails at an element throws and leaves in the parser what it had
  read: the configuration \<open>[]\<close> of the next container then gets the write buffer of the failed one.\<close>

theorem options_of_configuration:
  assumes "conf \<noteq> ''''" "json_loads conf = Some (JArray (es @ rest))" "es \<noteq> []" "\<forall>e \<in> set es. element_flag e \<noteq> None"
    and "later \<noteq> ''''" "json_loads later = Some (JArray [])"
  shows "(rest = [] \<longrightarrow> (\<exists>opts'. parseOptions json_loads uninit conf opts = (Inr opts', newDynamicContainerOptions uninit) \<and>
      toConfig sc opts' = sc\<lparr>writeBufferEnabled := the (element_flag (last es))\<rparr>)) \<and>
    (rest \<noteq> [] \<and> element_flag (hd rest) = None \<longrightarrow>
      (\<exists>opts1 opts2. parseOptions json_loads uninit conf opts = (Inl ContainerOptionParseError, opts1) \<and>
        parseOptions json_loads uninit later opts1 = (Inr opts2, newDynamicContainerOptions uninit) \<and>
        toConfig sc opts2 = sc\<lparr>writeBufferEnabled := the (element_flag (last es))\<rparr>))"
proof (intro conjI impI)
  note flags = last_flag_all [OF assms(4), of "o_writeBufferEnabled opts"]
  obtain opts' where run: "parseOptions json_loads uninit conf opts =
        (if fst (last_flag (o_writeBufferEnabled opts) (es @ rest)) then (Inr opts', newDynamicContainerOptions uninit)
         else (Inl ContainerOptionParseError, opts'))"
      and wb: "o_writeBufferEnabled opts' = snd (last_flag (o_writeBufferEnabled opts) (es @ rest))"
    using parseOptions_run [of conf json_loads "es @ rest" uninit opts] assms(1,2) by blast
  {
    assume "rest = []"
    then show "\<exists>opts'. parseOptions json_loads uninit conf opts = (Inr opts', newDynamicContainerOptions uninit) \<and>
        toConfig sc opts' = sc\<lparr>writeBufferEnabled := the (element_flag (last es))\<rparr>"
      using run wb flags assms(3) by (auto simp: toConfig_def setEnableWriteBuffer_def)
  }
  assume rest: "rest \<noteq> [] \<and> element_flag (hd rest) = None"
  then have bad: "last_flag b rest = (False, b)" for b by (cases rest) auto
  have failed: "last_flag (o_writeBufferEnabled opts) (es @ rest) = (False, the (element_flag (last es)))"
    using flags assms(3) by (simp add: last_flag_append bad)
  obtain opts2 where "parseOptions json_loads uninit later opts' = (Inr opts2, newDynamicContainerOptions uninit)"
      "o_writeBufferEnabled opts2 = o_writeBufferEnabled opts'"
    using parseOptions_run [of later json_loads "[]" uninit opts', OF assms(5,6)] by auto
  then show "\<exists>opts1 opts2. parseOptions json_loads uninit conf opts = (Inl ContainerOptionParseError, opts1) \<and>
      parseOptions json_loads uninit later opts1 = (Inr opts2, newDynamicContainerOptions uninit) \<and>
      toConfig sc opts2 = sc\<lparr>writeBufferEnabled := the (element_flag (last es))\<rparr>"
    using run wb failed by (auto simp: toConfig_def setEnableWriteBuffer_def)
qed

definition some_options_json :: "string \<Rightarrow> json option" where
  "some_options_json conf = (if conf = ''bad'' then Some (JArray [JObject [(''writeBufferEnabled'', JTrue)], JNull])
     else Some (JArray []))"

theorem options_of_configuration_witness:
  "\<exists>opts1 opts2. parseOptions some_options_json 0 ''bad'' (newDynamicContainerOptions 0) = (Inl ContainerOptionParseError, opts1) \<and>
     parseOptions some_options_json 0 ''[]'' opts1 = (Inr opts2, newDynamicContainerOptions 0) \<and>
     writeBufferEnabled (toConfig example_config opts2)"
proof -
  let ?e = "JObject [(''writeBufferEnabled'', JTrue)]"
  have flag: "element_flag ?e = Some True" and bad: "element_flag JNull = None" by (simp_all add: element_flag_def)
  from options_of_configuration [of "''bad''" some_options_json "[?e]" "[JNull]" "''[]''" 0 "newDynamicContainerOptions 0" example_config]
  obtain opts1 opts2 where "parseOptions some_options_json 0 ''bad'' (newDynamicContainerOptions 0) = (Inl ContainerOptionParseError, opts1)"
      "parseOptions some_options_json 0 ''[]'' opts1 = (Inr opts2, newDynamicContainerOptions 0)"
      "toConfig example_config opts2 = example_config\<lparr>writeBufferEnabled := True\<rparr>"
    by (auto simp: some_options_json_def flag bad)
  then show ?thesis by (intro exI [of _ opts1] exI [of _ opts2]) simp
qed

end
