(* ===== verification/Agent.thy ===== *)
theory Agent
  imports AgentConfig ConfigStore ContainerOptions
begin

text \<open>
  The agent of \<open>softwarecontaineragent.cpp\<close>: the containers it has and the pool of their IDs, its two
  capability stores, and what it does for its clients. \<open>ContainerUtilityInterface\<close>, which cleans up
  old containers and checks the workspace at the start, and the factory of containers are here too.
\<close>

text \<open>What surrounds the agent beside the platform: the manifest files, the parser of JSON texts, the
  list LXC has of all containers (\<open>None\<close> where it fails), and the values of members no constructor sets.\<close>

record agent_env =
  ag_platform :: platform
  ag_files :: manifest_files
  ag_json_loads :: "string \<Rightarrow> json option"
  ag_list_containers :: "calls \<Rightarrow> string list option"
  ag_uninit_size :: "32 word"
  ag_uninit_config :: "bool \<times> bool \<times> int"

section \<open>ContainerUtilityInterface\<close>

text \<open>The regular expression \<open>SC-.*\<close>; the dot does not match the end of a line.\<close>

definition sc_name :: "string \<Rightarrow> bool" where
  "sc_name name \<longleftrightarrow> take 3 name = ''SC-'' \<and> (\<forall>c \<in> set (drop 3 name). c \<noteq> CHR 0x0A \<and> c \<noteq> CHR 0x0D)"

text \<open>The containers are visited in the order of the map from their names.\<close>

fun removeNamed :: "environment \<Rightarrow> string list \<Rightarrow> (calls, unit) act" where
  "removeNamed E [] = ret ()"
| "removeNamed E (name # names) =
     (if \<not> sc_name name then removeNamed E names
      else bnd (sys E (Lxc (LxcOldIsRunning name))) (\<lambda>running.
        seq (if running \<noteq> 0
             then bnd (sys E (Lxc (LxcOldStop name))) (\<lambda>success.
                    if success = 0 then throw ContainerUtilityInterfaceError else ret ())
             else ret ())
          (bnd (sys E (Lxc (LxcOldDestroy name))) (\<lambda>success.
             if success = 0 then throw ContainerUtilityInterfaceError else removeNamed E names))))"

definition removeOldContainers :: "agent_env \<Rightarrow> (calls, unit) act" where
  "removeOldContainers A h = (case ag_list_containers A h of
      None \<Rightarrow> (Inl ContainerUtilityInterfaceError, Lxc LxcListAll # h)
    | Some names \<Rightarrow> removeNamed (p_env (ag_platform A)) (keys (foldl (\<lambda>m n. put n () m) [] names)) (Lxc LxcListAll # h))"

definition checkWorkspace :: "environment \<Rightarrow> string \<Rightarrow> (toolkit, calls, unit) meth" where
  "checkWorkspace E rootDir = bnd (ext (isDirectory E rootDir)) (\<lambda>isDir.
     if \<not> isDir
     then bnd (withCreateDir E (createDirectory E rootDir) (\<lambda>t. t)) (\<lambda>ok.
            if \<not> ok then throw SoftwareContainerError else ret ())
     else ret ())"

section \<open>The agent\<close>

record agent =
  m_containers :: "(int, workspace) std_map"
  m_containerIdPool :: "int list"
  m_filteredConfigStore :: capability_map
  m_defaultConfigStore :: capability_map
  m_containerConfig :: sc_config
  m_optionParser :: container_options
  m_watched :: "int list"
  m_utility :: toolkit

type_synonym 'a agent_meth = "(agent, calls, 'a) meth"

text \<open>The constructor. Nothing that was made before a throw has an effect outside: the utility has
  created no directory, or has removed those it has.\<close>

definition newAgent :: "agent_env \<Rightarrow> agent_config \<Rightarrow> (calls, agent) act" where
  "newAgent A C = (let E = p_env (ag_platform A) in
     bnd (lift (getIntValue C SC_GROUP SHUTDOWN_TIMEOUT)) (\<lambda>shutdownTimeout.
     bnd (lift (getStringValue C SC_GROUP SHARED_MOUNTS_DIR)) (\<lambda>mountsDir.
     bnd (lift (getStringValue C SC_GROUP LXC_CONFIG_PATH)) (\<lambda>lxcConfigPath.
     bnd (lift (getBoolValue C SC_GROUP CREATE_BRIDGE)) (\<lambda>createBridge.
     bnd (lift (getStringValue C SC_GROUP BRIDGE_DEVICE)) (\<lambda>device.
     bnd (lift (getStringValue C SC_GROUP BRIDGE_IP)) (\<lambda>ip.
     bnd (lift (getStringValue C SC_GROUP BRIDGE_NETMASK)) (\<lambda>netmask.
     bnd (lift (getIntValue C SC_GROUP BRIDGE_NETMASK_BITLENGTH)) (\<lambda>bits.
     bnd (lift (getStringValue C SC_GROUP BRIDGE_NETADDR)) (\<lambda>netAddr.
     bnd (lift (getStringValue C SC_GROUP SERVICE_MANIFEST_DIR)) (\<lambda>manifestDir.
     bnd (lift (getStringValue C SC_GROUP DEFAULT_SERVICE_MANIFEST_DIR)) (\<lambda>defaultDir.
     bnd (newBaseConfigStore (ag_files A) E manifestDir) (\<lambda>filtered.
     bnd (newBaseConfigStore (ag_files A) E defaultDir) (\<lambda>defaults.
     bnd (removeOldContainers A) (\<lambda>_.
     bnd (lift (getStringValue C SC_GROUP SHARED_MOUNTS_DIR)) (\<lambda>rootDir.
     (\<lambda>h. case checkWorkspace E rootDir (\<lparr>m_cleanupHandlers = [], m_createDirList = []\<rparr>, h) of
         (Inl e, (_, h')) \<Rightarrow> (Inl e, h')
       | (Inr _, (utility, h')) \<Rightarrow> (Inr
           \<lparr>m_containers = [], m_containerIdPool = [0], m_filteredConfigStore = filtered,
            m_defaultConfigStore = defaults,
            m_containerConfig = newSoftwareContainerConfig (ag_uninit_config A) createBridge device ip netmask bits
              netAddr lxcConfigPath mountsDir (shutdownTimeout mod 4294967296),
            m_optionParser = newDynamicContainerOptions (ag_uninit_size A),
            m_watched = [], m_utility = utility\<rparr>, h'))))))))))))))))))"

subsection \<open>The containers and their IDs\<close>

definition assertContainerExists :: "int \<Rightarrow> unit agent_meth" where
  "assertContainerExists cid =
     (if cid \<ge> int_max then throw SoftwareContainerError
      else if cid < 0 then throw SoftwareContainerError
      else bnd (getm m_containers) (\<lambda>m. if \<not> has_key cid m then throw SoftwareContainerError else ret ()))"

definition listContainers :: "int list agent_meth" where
  "listContainers = getm (\<lambda>a. keys (m_containers a))"

text \<open>A method of the container a pointer from \<open>getContainer\<close> points to: the one in the map.\<close>

definition withContainer :: "int \<Rightarrow> 'a workspace_meth \<Rightarrow> 'a agent_meth" where
  "withContainer cid m = (\<lambda>(a, h). case map_of (m_containers a) cid of
      None \<Rightarrow> (Inl UndefinedBehaviour, (a, h))
    | Some w \<Rightarrow> (case m (w, h) of (r, (w', h')) \<Rightarrow> (r, (a\<lparr>m_containers := put cid w' (m_containers a)\<rparr>, h'))))"

definition getContainer :: "int \<Rightarrow> 'a workspace_meth \<Rightarrow> 'a agent_meth" where
  "getContainer cid m = seq (assertContainerExists cid) (withContainer cid m)"

text \<open>The pool: its first entry is the first ID that was never given out, the rest are IDs that came back.
  Incrementing the largest \<open>int\<close> is undefined, as is the back of an empty vector.\<close>

definition takeId :: "int list \<Rightarrow> (exn + int) \<times> int list" where
  "takeId pool =
     (if pool = [] then (Inl UndefinedBehaviour, pool)
      else if length pool > 1 then (Inr (last pool), butlast pool)
      else if hd pool = int_max then (Inl UndefinedBehaviour, pool)
      else (Inr (last pool), pool[0 := pool ! 0 + 1]))"

definition giveId :: "int \<Rightarrow> int list \<Rightarrow> int list" where
  "giveId cid pool = pool @ [cid]"

text \<open>Erasing an entry destroys the container unless the caller holds a pointer to it.\<close>

definition deleteContainer :: "platform \<Rightarrow> bool \<Rightarrow> int \<Rightarrow> unit agent_meth" where
  "deleteContainer P held cid = seq (assertContainerExists cid) (\<lambda>(a, h).
     (Inr (), (a\<lparr>m_containers := erase cid (m_containers a), m_containerIdPool := giveId cid (m_containerIdPool a)\<rparr>,
       case map_of (m_containers a) cid of Some w \<Rightarrow> if held then h else destroyWorkspace P w h | None \<Rightarrow> h)))"

definition findSuitableId :: "int agent_meth" where
  "findSuitableId = (\<lambda>(a, h). case takeId (m_containerIdPool a) of (r, pool) \<Rightarrow>
     (r, (a\<lparr>m_containerIdPool := pool\<rparr>, h)))"

definition factory_createContainer :: "platform \<Rightarrow> int \<Rightarrow> sc_config \<Rightarrow> (calls, workspace) act" where
  "factory_createContainer P cid conf = newSoftwareContainer P cid conf"

text \<open>Assigning to an entry of the map destroys the container that was there.\<close>

definition storeContainer :: "platform \<Rightarrow> int \<Rightarrow> workspace \<Rightarrow> unit agent_meth" where
  "storeContainer P cid w = (\<lambda>(a, h). (Inr (), (a\<lparr>m_containers := put cid w (m_containers a)\<rparr>,
     case map_of (m_containers a) cid of Some old \<Rightarrow> destroyWorkspace P old h | None \<Rightarrow> h)))"

definition parseWith :: "agent_env \<Rightarrow> string \<Rightarrow> container_options agent_meth" where
  "parseWith A conf = (\<lambda>(a, h). case parseOptions (ag_json_loads A) (ag_uninit_size A) conf (m_optionParser a) of
     (r, parser) \<Rightarrow> (r, (a\<lparr>m_optionParser := parser\<rparr>, h)))"

definition createContainer :: "agent_env \<Rightarrow> string \<Rightarrow> int agent_meth" where
  "createContainer A conf = bnd (parseWith A conf) (\<lambda>options.
     bnd (getm m_containerConfig) (\<lambda>cfg.
     bnd findSuitableId (\<lambda>cid.
     bnd (ext (factory_createContainer (ag_platform A) cid (toConfig cfg options))) (\<lambda>w.
     seq (storeContainer (ag_platform A) cid w) (ret cid)))))"

text \<open>The pointer \<open>shutdownContainer\<close> holds is the last one when the function returns.\<close>

definition shutdownContainer :: "agent_env \<Rightarrow> int \<Rightarrow> unit agent_meth" where
  "shutdownContainer A cid = (let P = ag_platform A in
     bnd (getm m_containerConfig) (\<lambda>cfg.
     seq (getContainer cid (sc_shutdown P (to_int32 (containerShutdownTimeout cfg))))
     (bnd (getm (\<lambda>a. map_of (m_containers a) cid)) (\<lambda>container.
     seq (catch (deleteContainer P True cid) (\<lambda>e. if is_sc_error e then Some (throw SoftwareContainerError) else None))
       (ext (\<lambda>h. (Inr (), case container of Some w \<Rightarrow> destroyWorkspace P w h | None \<Rightarrow> h)))))))"

definition suspendContainer :: "agent_env \<Rightarrow> int \<Rightarrow> unit agent_meth" where
  "suspendContainer A cid = getContainer cid (sc_suspend (ag_platform A))"

definition resumeContainer :: "agent_env \<Rightarrow> int \<Rightarrow> unit agent_meth" where
  "resumeContainer A cid = getContainer cid (sc_resume (ag_platform A))"

definition agent_bindMount :: "agent_env \<Rightarrow> int \<Rightarrow> string \<Rightarrow> string \<Rightarrow> bool \<Rightarrow> unit agent_meth" where
  "agent_bindMount A cid src dst ro =
     bnd (getContainer cid (sc_bindMount (ag_platform A) src dst ro)) (\<lambda>result.
       if \<not> result then throw SoftwareContainerError else ret ())"

subsection \<open>Capabilities\<close>

definition updateGatewayConfigs :: "agent_env \<Rightarrow> int \<Rightarrow> gateway_configuration \<Rightarrow> bool agent_meth" where
  "updateGatewayConfigs A cid confs = getContainer cid (startGateways (ag_platform A) confs)"

definition listCapabilities :: "string list agent_meth" where
  "listCapabilities = getm (\<lambda>a. IDs (m_filteredConfigStore a))"

definition setCapabilities :: "agent_env \<Rightarrow> int \<Rightarrow> string list \<Rightarrow> unit agent_meth" where
  "setCapabilities A cid capabilities =
     (if capabilities = [] then ret ()
      else bnd (getm (\<lambda>a. configs (m_defaultConfigStore a))) (\<lambda>gatewayConfs.
        bnd (getm (\<lambda>a. configsByID (m_filteredConfigStore a) capabilities)) (\<lambda>found.
        bnd (lift found) (\<lambda>filteredConfs.
          if empty_conf filteredConfs then throw SoftwareContainerError
          else bnd (updateGatewayConfigs A cid (snd (appendAll filteredConfs gatewayConfs))) (\<lambda>ok.
            if \<not> ok then throw SoftwareContainerError else ret ())))))"

subsection \<open>Running a command\<close>

definition addProcessListener :: "int \<Rightarrow> unit agent_meth" where
  "addProcessListener pid = updm (\<lambda>a. a\<lparr>m_watched := m_watched a @ [pid]\<rparr>)"

definition job_setOutputFile :: "environment \<Rightarrow> string \<Rightarrow> job \<Rightarrow> (calls, job) act" where
  "job_setOutputFile E path j = bnd (sys E (File (OpenOutput path))) (\<lambda>fd. ret (j\<lparr>j_stdout := fd, j_stderr := fd\<rparr>))"

definition agent_execute :: "agent_env \<Rightarrow> int \<Rightarrow> string \<Rightarrow> string \<Rightarrow> string \<Rightarrow> (string, string) std_map \<Rightarrow> int agent_meth" where
  "agent_execute A cid cmdLine workingDirectory outputFile env = (let E = p_env (ag_platform A) in
     bnd (getContainer cid (getm previouslyConfigured)) (\<lambda>configured.
     seq (if \<not> configured
          then bnd (getm (\<lambda>a. configs (m_defaultConfigStore a))) (\<lambda>gatewayConfs.
            bnd (updateGatewayConfigs A cid gatewayConfs) (\<lambda>ok.
              if \<not> ok then throw SoftwareContainerError else ret ()))
          else ret ())
     (bnd (withContainer cid createCommandJob) (\<lambda>job.
     bnd (ext (job_setOutputFile E outputFile job)) (\<lambda>job.
     bnd (withContainer cid (runJobIn (startCommandJob E cmdLine workingDirectory (job_setEnvironmentVariables env job))))
       (\<lambda>(ok, job). if \<not> ok then throw SoftwareContainerError
         else seq (addProcessListener (j_pid job)) (ret (j_pid job))))))))"

section \<open>The interface of the pool of IDs\<close>

text \<open>\<open>ok L p\<close>: the pool gives out none of the IDs in \<open>L\<close> and can take them back.\<close>

locale id_pool =
  fixes take_id :: "'p \<Rightarrow> (exn + int) \<times> 'p"
    and give_id :: "int \<Rightarrow> 'p \<Rightarrow> 'p"
    and ok :: "int set \<Rightarrow> 'p \<Rightarrow> bool"
  assumes take_ok: "ok L p \<Longrightarrow> take_id p = (Inr i, q) \<Longrightarrow> i \<notin> L \<and> 0 \<le> i \<and> i < int_max \<and> ok (insert i L) q"
    and take_fail: "take_id p = (Inl e, q) \<Longrightarrow> q = p"
    and give_ok: "ok L p \<Longrightarrow> i \<in> L \<Longrightarrow> ok (L - {i}) (give_id i p)"
    and fewer: "ok L p \<Longrightarrow> M \<subseteq> L \<Longrightarrow> ok M p"
begin

text \<open>An ID that is taken is not one of those in use, and it is in use from then on.\<close>

lemma take_in_use: "ok (L \<union> X) p \<Longrightarrow> take_id p = (Inr i, q) \<Longrightarrow> i \<notin> L \<and> i \<notin> X \<and> ok (insert i L \<union> X) q"
  using take_ok [of "L \<union> X" p i q] by simp

text \<open>An ID that was taken and is forgotten is lost: the pool stays in order with the ID held for ever.\<close>

lemma take_forget: "ok (L \<union> X) p \<Longrightarrow> take_id p = (Inr i, q) \<Longrightarrow> ok (L \<union> X) q \<and> ok (L \<union> insert i X) q"
  using take_ok [of "L \<union> X" p i q] fewer [of "insert i (L \<union> X)" q "L \<union> X"] by auto

text \<open>Giving an ID back keeps the other IDs held.\<close>

lemma give_held: "ok (L \<union> X) p \<Longrightarrow> i \<in> L \<Longrightarrow> i \<notin> X \<Longrightarrow> ok ((L - {i}) \<union> X) (give_id i p)"
  using give_ok [of "L \<union> X" p i] by (simp add: Un_Diff)

end

definition pool_ok :: "int set \<Rightarrow> int list \<Rightarrow> bool" where
  "pool_ok L pool \<longleftrightarrow> (\<exists>base freed. pool = base # freed \<and> distinct freed \<and> 0 \<le> base \<and> base \<le> int_max \<and>
     (\<forall>i \<in> set freed. 0 \<le> i \<and> i < base) \<and> (\<forall>i \<in> L. 0 \<le> i \<and> i < base \<and> i \<notin> set freed))"

lemma takeId_ok:
  assumes "pool_ok L pool" "takeId pool = (Inr i, q)"
  shows "i \<notin> L \<and> 0 \<le> i \<and> i < int_max \<and> pool_ok (insert i L) q"
proof -
  obtain base freed where p: "pool = base # freed" "distinct freed" "0 \<le> base" "base \<le> int_max"
      "\<forall>i \<in> set freed. 0 \<le> i \<and> i < base" "\<forall>i \<in> L. 0 \<le> i \<and> i < base \<and> i \<notin> set freed"
    using assms(1) by (auto simp: pool_ok_def)
  show ?thesis
  proof (cases "freed = []")
    case True
    with assms(2) p have "i = base" "q = [base + 1]" "base < int_max" by (auto simp: takeId_def split: if_splits)
    with p show ?thesis by (auto simp: pool_ok_def)
  next
    case False
    then obtain fs x where fs: "freed = fs @ [x]" by (cases freed rule: rev_cases) auto
    with assms(2) p have "i = x" "q = base # fs" by (auto simp: takeId_def butlast_append split: if_splits)
    with p fs show ?thesis by (auto simp: pool_ok_def)
  qed
qed

lemma giveId_ok:
  assumes "pool_ok L pool" "i \<in> L"
  shows "pool_ok (L - {i}) (giveId i pool)"
proof -
  obtain base freed where "pool = base # freed" "distinct freed" "0 \<le> base" "base \<le> int_max"
      "\<forall>i \<in> set freed. 0 \<le> i \<and> i < base" "\<forall>i \<in> L. 0 \<le> i \<and> i < base \<and> i \<notin> set freed"
    using assms(1) by (auto simp: pool_ok_def)
  then show ?thesis using assms(2) unfolding pool_ok_def giveId_def
    by (intro exI [of _ base] exI [of _ "freed @ [i]"]) auto
qed

interpretation idpool: id_pool takeId giveId pool_ok
proof unfold_locales
  show "takeId p = (Inl e, q) \<Longrightarrow> q = p" for p e q by (auto simp: takeId_def split: if_splits)
  show "pool_ok L p \<Longrightarrow> M \<subseteq> L \<Longrightarrow> pool_ok M p" for L M p unfolding pool_ok_def by blast
qed (use takeId_ok giveId_ok in blast)+

end
