(* ===== verification/AgentBus.thy ===== *)
theory AgentBus
  imports Agent
begin

text \<open>
  The agent on D-Bus: the dispatcher of the stub, which unpacks the parameters of a call, the adaptor,
  whose methods call the agent and return its result, and the runs of an agent, sequences of such
  calls. What holds of every run is here: which IDs are given out, that every container follows its
  life cycle, what becomes of a container that could not be shut down, and which calls are answered.
\<close>

section \<open>The dispatcher and the adaptor\<close>

datatype variant = VInt int | VString string | VBool bool | VStrings "string list" | VDict "(string, string) std_map"

datatype reply = ReturnNothing | ReturnInt int | ReturnInts "int list" | ReturnStrings "string list" | ReturnError exn

type_synonym bus_meth = "reply list agent_meth"

definition bus_List :: bus_meth where
  "bus_List = bnd listContainers (\<lambda>ids. ret [ReturnInts ids])"

definition bus_ListCapabilities :: bus_meth where
  "bus_ListCapabilities = bnd listCapabilities (\<lambda>caps. ret [ReturnStrings caps])"

definition bus_Execute :: "agent_env \<Rightarrow> int \<Rightarrow> string \<Rightarrow> string \<Rightarrow> string \<Rightarrow> (string, string) std_map \<Rightarrow> bus_meth" where
  "bus_Execute A cid commandLine workingDirectory outputFile env =
     bnd (agent_execute A cid commandLine workingDirectory outputFile env) (\<lambda>pid. ret [ReturnInt pid])"

definition bus_Suspend :: "agent_env \<Rightarrow> int \<Rightarrow> bus_meth" where
  "bus_Suspend A cid = seq (suspendContainer A cid) (ret [ReturnNothing])"

definition bus_Resume :: "agent_env \<Rightarrow> int \<Rightarrow> bus_meth" where
  "bus_Resume A cid = seq (resumeContainer A cid) (ret [ReturnNothing])"

definition bus_Destroy :: "agent_env \<Rightarrow> int \<Rightarrow> bus_meth" where
  "bus_Destroy A cid = seq (shutdownContainer A cid) (ret [ReturnNothing])"

definition bus_BindMount :: "agent_env \<Rightarrow> int \<Rightarrow> string \<Rightarrow> string \<Rightarrow> bool \<Rightarrow> bus_meth" where
  "bus_BindMount A cid src dst ro = seq (agent_bindMount A cid src dst ro) (ret [ReturnNothing])"

definition bus_SetCapabilities :: "agent_env \<Rightarrow> int \<Rightarrow> string list \<Rightarrow> bus_meth" where
  "bus_SetCapabilities A cid caps = seq (setCapabilities A cid caps) (ret [ReturnNothing])"

definition bus_Create :: "agent_env \<Rightarrow> string \<Rightarrow> bus_meth" where
  "bus_Create A conf = bnd (createContainer A conf) (\<lambda>cid. ret [ReturnInt cid])"

text \<open>A parameter of another type than \<open>get_child\<close> asks for is an exception of Glib's; D-Bus checks the
  signature of a call before it reaches the dispatcher. A name that is none of the methods is ignored.\<close>

definition dispatch :: "agent_env \<Rightarrow> string \<Rightarrow> variant list \<Rightarrow> bus_meth" where
  "dispatch A name params =
     (if name = ''List'' then bus_List
      else if name = ''Create'' then (case params of
          [VString conf] \<Rightarrow> bus_Create A conf | _ \<Rightarrow> throw GlibError)
      else if name = ''Execute'' then (case params of
          [VInt cid, VString cmd, VString dir, VString out, VDict env] \<Rightarrow> bus_Execute A cid cmd dir out env
        | _ \<Rightarrow> throw GlibError)
      else if name = ''Suspend'' then (case params of [VInt cid] \<Rightarrow> bus_Suspend A cid | _ \<Rightarrow> throw GlibError)
      else if name = ''Resume'' then (case params of [VInt cid] \<Rightarrow> bus_Resume A cid | _ \<Rightarrow> throw GlibError)
      else if name = ''Destroy'' then (case params of [VInt cid] \<Rightarrow> bus_Destroy A cid | _ \<Rightarrow> throw GlibError)
      else if name = ''BindMount'' then (case params of
          [VInt cid, VString src, VString dst, VBool ro] \<Rightarrow> bus_BindMount A cid src dst ro | _ \<Rightarrow> throw GlibError)
      else if name = ''ListCapabilities'' then bus_ListCapabilities
      else if name = ''SetCapabilities'' then (case params of
          [VInt cid, VStrings caps] \<Rightarrow> bus_SetCapabilities A cid caps | _ \<Rightarrow> throw GlibError)
      else ret [])"

definition on_method_call :: "agent_env \<Rightarrow> string \<Rightarrow> variant list \<Rightarrow> bus_meth" where
  "on_method_call A name params =
     catch (dispatch A name params) (\<lambda>e. if is_sc_error e then Some (ret [ReturnError e]) else None)"

section \<open>Runs\<close>

inductive bus_step :: "agent_env \<Rightarrow> agent \<times> calls \<Rightarrow> agent \<times> calls \<Rightarrow> bool" for A where
  "on_method_call A name params s = (r, t) \<Longrightarrow> bus_step A s t"

inductive_cases bus_stepE: "bus_step A s t"

text \<open>What all the operations on a container keep of it is kept of all the agent's containers.\<close>

definition ws_okay :: "workspace \<times> calls \<Rightarrow> bool" where
  "ws_okay s \<longleftrightarrow> coupled (fst s) \<and> sc_containerState (fst s) \<noteq> None"

lemma snd_done_with: "snd (done_with m s) = snd (m s)"
  by (simp add: done_with_run split: sum.split prod.split)

lemma keeps_done_iff: "keeps I (done_with m) \<longleftrightarrow> keeps I m"
  by (simp add: keeps_def snd_done_with)

lemma ws_perform_okay: "keeps ws_okay (ws_perform P op)"
proof (rule keepsI)
  fix s :: "workspace \<times> calls" assume I: "ws_okay s"
  obtain w h where s: "s = (w, h)" by (rule prod.exhaust)
  obtain st where st: "sc_containerState w = Some st" "coupled w" using I by (auto simp: ws_okay_def s)
  obtain r w' h' where run: "ws_perform P op (w, h) = (r, (w', h'))" by (rule run_exists)
  from ws_step [OF run st(2,1)] show "ws_okay (snd (ws_perform P op s))" by (auto simp: ws_okay_def s run)
qed

lemma ws_at_okay:
  assumes "\<And>p st. keeps (ws_at p (Some st)) m"
  shows "keeps ws_okay m"
proof (rule keepsI)
  fix s :: "workspace \<times> calls" assume I: "ws_okay s"
  obtain w h where s: "s = (w, h)" by (rule prod.exhaust)
  obtain st where st: "sc_containerState w = Some st" "coupled w" using I by (auto simp: ws_okay_def s)
  obtain r w' h' where run: "m (w, h) = (r, (w', h'))" by (rule run_exists)
  from ws_at_coupled [where m = m, OF assms run st(2) refl st(1)] show "ws_okay (snd (m s))"
    by (simp add: ws_okay_def s run)
qed

lemma startCommandJob_at: "keeps (at p) (startCommandJob E cmd dir j)"
  unfolding startCommandJob_def by (intro keeps_intros executeCommand_at)

text \<open>What the agent does with a container.\<close>

lemmas ws_perform_op = ws_perform_okay [of P "WsStartGateways conf" for P conf, simplified, unfolded keeps_done_iff]
  ws_perform_okay [of P WsSuspend for P, simplified] ws_perform_okay [of P WsResume for P, simplified]
  ws_perform_okay [of P "WsShutdown t" for P t, simplified]
  ws_perform_okay [of P "WsBindMount src dst ro" for P src dst ro, simplified, unfolded keeps_done_iff]
  ws_perform_okay [of P WsCreateJob for P, simplified, unfolded keeps_done_iff]

lemma run_command_okay: "keeps ws_okay (runJobIn (startCommandJob E cmd dir j))"
  unfolding runJobIn_def by (intro ws_at_okay onContainer_at startCommandJob_at)

section \<open>The invariant of the agent\<close>

text \<open>\<open>X\<close> are IDs that are neither in use nor will be given out again.\<close>

definition agent_ok :: "int set \<Rightarrow> agent \<times> calls \<Rightarrow> bool" where
  "agent_ok X s \<longleftrightarrow> pool_ok (dom (map_of (m_containers (fst s))) \<union> X) (m_containerIdPool (fst s)) \<and>
     dom (map_of (m_containers (fst s))) \<inter> X = {} \<and>
     (\<forall>cid w. map_of (m_containers (fst s)) cid = Some w \<longrightarrow> coupled w \<and> sc_containerState w \<noteq> None)"

lemma ok_withContainer:
  assumes "keeps ws_okay m"
  shows "keeps (agent_ok X) (withContainer cid m)"
proof (rule keepsI)
  fix s :: "agent \<times> calls" assume I: "agent_ok X s"
  obtain a h where s: "s = (a, h)" by (rule prod.exhaust)
  show "agent_ok X (snd (withContainer cid m s))"
  proof (cases "map_of (m_containers a) cid")
    case None
    then show ?thesis using I by (simp add: s withContainer_def)
  next
    case (Some w)
    obtain r w' h' where run: "m (w, h) = (r, (w', h'))" by (rule run_exists)
    have "ws_okay (w', h')" using keepsD [OF assms _ run] I Some by (auto simp: ws_okay_def agent_ok_def s)
    with I Some show ?thesis
      by (auto simp: s withContainer_def run agent_ok_def ws_okay_def insert_absorb domI)
  qed
qed

lemma ok_assert: "keeps (agent_ok X) (assertContainerExists cid)"
  unfolding assertContainerExists_def by (intro keeps_intros)

lemma ok_getContainer: "keeps ws_okay m \<Longrightarrow> keeps (agent_ok X) (getContainer cid m)"
  unfolding getContainer_def by (intro keeps_seq ok_assert ok_withContainer)

lemma assert_run: "assertContainerExists cid (a, h) =
  (if 0 \<le> cid \<and> cid < int_max \<and> map_of (m_containers a) cid \<noteq> None then Inr () else Inl SoftwareContainerError, (a, h))"
  by (auto simp: assertContainerExists_def act_defs has_key_def)

lemma delete_run: "deleteContainer P held cid (a, h) =
  (if 0 \<le> cid \<and> cid < int_max \<and> map_of (m_containers a) cid \<noteq> None
   then (Inr (), (a\<lparr>m_containers := erase cid (m_containers a), m_containerIdPool := giveId cid (m_containerIdPool a)\<rparr>,
          case map_of (m_containers a) cid of Some w \<Rightarrow> if held then h else destroyWorkspace P w h | None \<Rightarrow> h))
   else (Inl SoftwareContainerError, (a, h)))"
  by (simp add: deleteContainer_def seq_def bnd_def assert_run)

lemma ok_delete: "keeps (agent_ok X) (deleteContainer P held cid)"
proof (rule keepsI)
  fix s :: "agent \<times> calls" assume I: "agent_ok X s"
  obtain a h where s: "s = (a, h)" by (rule prod.exhaust)
  let ?D = "dom (map_of (m_containers a))"
  show "agent_ok X (snd (deleteContainer P held cid s))"
  proof (cases "map_of (m_containers a) cid")
    case None
    then show ?thesis using I by (simp add: s delete_run)
  next
    case (Some w)
    then have D: "cid \<in> ?D" "cid \<notin> X" using I by (auto simp: agent_ok_def s)
    have "pool_ok ((?D - {cid}) \<union> X) (giveId cid (m_containerIdPool a))"
      using idpool.give_held [of ?D X "m_containerIdPool a" cid] I D by (simp add: agent_ok_def s)
    then show ?thesis using I Some by (auto simp: s delete_run agent_ok_def)
  qed
qed

lemma ok_update:
  assumes "\<And>a. m_containers (f a) = m_containers a" "\<And>a. m_containerIdPool (f a) = m_containerIdPool a"
  shows "keeps (agent_ok X) (updm f)"
  by (rule keeps_updm) (simp add: agent_ok_def assms)

lemma ok_ext: "keeps (agent_ok X) (ext m)"
  by (rule keeps_ext) (simp add: agent_ok_def)

lemma ok_parse: "keeps (agent_ok X) (parseWith A conf)"
proof (rule keepsI)
  fix s :: "agent \<times> calls" assume I: "agent_ok X s"
  obtain a h where s: "s = (a, h)" by (rule prod.exhaust)
  show "agent_ok X (snd (parseWith A conf s))"
    using I by (cases "parseOptions (ag_json_loads A) (ag_uninit_size A) conf (m_optionParser a)")
      (simp add: s parseWith_def agent_ok_def)
qed

lemma ok_listener: "keeps (agent_ok X) (addProcessListener pid)"
  unfolding addProcessListener_def by (rule ok_update) simp_all

lemma ok_update_configs: "keeps (agent_ok X) (updateGatewayConfigs A cid confs)"
  unfolding updateGatewayConfigs_def by (intro ok_getContainer ws_perform_op)

lemma ok_shutdown: "keeps (agent_ok X) (shutdownContainer A cid)"
  unfolding shutdownContainer_def Let_def
  by (intro keeps_intros ok_getContainer ws_perform_op ok_delete ok_ext) (auto split: if_splits intro: keeps_intros)

lemma ok_execute: "keeps (agent_ok X) (agent_execute A cid cmd dir out env)"
proof -
  have "keeps ws_okay (getm previouslyConfigured)" by (rule keeps_getm)
  then show ?thesis unfolding agent_execute_def Let_def
    by (intro keeps_intros ok_getContainer ok_update_configs ok_withContainer ws_perform_op ok_ext run_command_okay ok_listener)
qed

text \<open>Creating a container: what each of its outcomes does to the containers and the pool.\<close>

lemma create_cases:
  assumes "createContainer A conf (a, h) = (r, (a', h'))" "agent_ok X (a, h)"
  obtains (refused) "r = Inl ContainerOptionParseError" "m_containers a' = m_containers a" "m_containerIdPool a' = m_containerIdPool a"
  | (exhausted) "r = Inl UndefinedBehaviour" "m_containers a' = m_containers a" "m_containerIdPool a' = m_containerIdPool a"
  | (failed) cid e where "r = Inl e" "m_containers a' = m_containers a" "takeId (m_containerIdPool a) = (Inr cid, m_containerIdPool a')"
  | (created) cid w where "r = Inr cid" "m_containers a' = put cid w (m_containers a)"
      "takeId (m_containerIdPool a) = (Inr cid, m_containerIdPool a')" "coupled w" "sc_containerState w = Some READY"
proof -
  obtain q o' where parse: "parseOptions (ag_json_loads A) (ag_uninit_size A) conf (m_optionParser a) = (q, o')"
    by (rule prod.exhaust)
  obtain t pool where take: "takeId (m_containerIdPool a) = (t, pool)" by (rule prod.exhaust)
  show thesis
  proof (cases q)
    case (Inl e)
    then have "e = ContainerOptionParseError" using parse by (simp add: parseOptions_fails)
    with Inl assms(1) parse show thesis
      by (intro refused) (auto simp: createContainer_def parseWith_def bnd_def)
  next
    case opts: (Inr opts)
    show thesis
    proof (cases t)
      case (Inl e)
      with take have "e = UndefinedBehaviour" "pool = m_containerIdPool a"
        by (auto simp: takeId_def split: if_splits)
      with Inl opts assms(1) parse take show thesis
        by (intro exhausted) (auto simp: createContainer_def parseWith_def bnd_def getm_def findSuitableId_def)
    next
      case (Inr cid)
      obtain n k where new: "newSoftwareContainer (ag_platform A) cid (toConfig (m_containerConfig a) opts) h = (n, k)"
        by (rule prod.exhaust)
      show thesis
      proof (cases n)
        case (Inl e)
        with Inr opts assms(1) parse take new show thesis
          by (intro failed [of e cid]) (auto simp: createContainer_def parseWith_def bnd_def getm_def findSuitableId_def ext_def factory_createContainer_def)
      next
        case (Inr w)
        with \<open>t = Inr cid\<close> opts assms(1) parse take new construct_coupled [OF new [unfolded Inr]] show thesis
          by (intro created [of cid w]) (auto simp: createContainer_def parseWith_def bnd_def getm_def findSuitableId_def ext_def
              factory_createContainer_def seq_def storeContainer_def ret_def)
      qed
    qed
  qed
qed

lemma ok_create: "keeps (agent_ok X) (createContainer A conf)"
proof (rule keepsI)
  fix s :: "agent \<times> calls" assume I: "agent_ok X s"
  obtain a h where s: "s = (a, h)" by (rule prod.exhaust)
  obtain r a' h' where run: "createContainer A conf (a, h) = (r, (a', h'))" by (rule run_exists)
  let ?D = "dom (map_of (m_containers a))"
  have pool: "pool_ok (?D \<union> X) (m_containerIdPool a)" using I by (simp add: agent_ok_def s)
  have "agent_ok X (a', h')"
    using run I [unfolded s]
  proof (cases rule: create_cases)
    case (failed cid e)
    then show ?thesis using I idpool.take_forget [OF pool failed(3)] by (auto simp: agent_ok_def s)
  next
    case (created cid w)
    then show ?thesis using I idpool.take_in_use [OF pool created(3)] by (auto simp: agent_ok_def s)
  qed (use I in \<open>simp_all add: agent_ok_def s\<close>)
  then show "agent_ok X (snd (createContainer A conf s))" by (simp add: s run)
qed

lemma ok_dispatch: "keeps (agent_ok X) (dispatch A name params)"
proof -
  have each: "keeps (agent_ok X) (bus_Create A conf)" "keeps (agent_ok X) bus_List" "keeps (agent_ok X) bus_ListCapabilities"
      "keeps (agent_ok X) (bus_Execute A cid cmd dir out env)" "keeps (agent_ok X) (bus_Suspend A cid)"
      "keeps (agent_ok X) (bus_Resume A cid)" "keeps (agent_ok X) (bus_Destroy A cid)"
      "keeps (agent_ok X) (bus_BindMount A cid src dst ro)" "keeps (agent_ok X) (bus_SetCapabilities A cid caps)"
    for conf cid cmd dir out env src dst ro caps
    unfolding bus_Create_def bus_List_def bus_ListCapabilities_def bus_Execute_def bus_Suspend_def bus_Resume_def
      bus_Destroy_def bus_BindMount_def bus_SetCapabilities_def listContainers_def listCapabilities_def
      suspendContainer_def resumeContainer_def agent_bindMount_def setCapabilities_def
    by (intro keeps_intros ok_create ok_execute ok_getContainer ws_perform_op ok_shutdown ok_update_configs)+
  show ?thesis unfolding dispatch_def
    by (intro keeps_if each keeps_ret) (simp_all add: each keeps_throw split: list.split variant.split)
qed

lemma ok_call: "keeps (agent_ok X) (on_method_call A name params)"
  unfolding on_method_call_def by (intro keeps_catch ok_dispatch) (auto split: if_splits intro: keeps_ret)

lemma ok_run: "(bus_step A)\<^sup>*\<^sup>* s t \<Longrightarrow> agent_ok X s \<Longrightarrow> agent_ok X t"
proof (induction rule: rtranclp_induct)
  case (step t u)
  from step.hyps(2) obtain name params r where "on_method_call A name params t = (r, u)" by (rule bus_stepE)
  from keepsD [OF ok_call step.IH [OF step.prems] this] show ?case .
qed

lemma newAgent_ok:
  assumes "newAgent A C h = (Inr a, h')"
  shows "agent_ok {} (a, k) \<and> m_containers a = []"
  using assms by (auto simp: newAgent_def Let_def bnd_def lift_def agent_ok_def pool_ok_def int_max_def
      split: sum.splits prod.splits)

section \<open>Calls on one container and the others\<close>

text \<open>A container that is INVALID, and a method that leaves such a container alone.\<close>

definition stuck :: "int \<Rightarrow> workspace \<Rightarrow> agent \<times> calls \<Rightarrow> bool" where
  "stuck cid w s \<longleftrightarrow> map_of (m_containers (fst s)) cid = Some w \<and> sc_containerState w = Some INVALID"

definition inert :: "'a workspace_meth \<Rightarrow> bool" where
  "inert m \<longleftrightarrow> (\<forall>w h. sc_containerState w = Some INVALID \<longrightarrow> fst (snd (m (w, h))) = w)"

lemma guarded_refuses:
  assumes "sc_containerState w = Some INVALID"
  shows "startGateways P conf (w, h) = (Inl InvalidContainerError, (w, h))"
    "sc_shutdown P t (w, h) = (Inl InvalidContainerError, (w, h))"
    "sc_suspend P (w, h) = (Inl InvalidContainerError, (w, h))" "sc_resume P (w, h) = (Inl InvalidContainerError, (w, h))"
    "sc_bindMount P src dst ro (w, h) = (Inl InvalidContainerError, (w, h))"
    "createCommandJob (w, h) = (Inl InvalidContainerError, (w, h))"
  using assms by (simp_all add: startGateways_def sc_shutdown_def sc_suspend_def sc_resume_def sc_bindMount_def
      createCommandJob_def assertValid_run)

lemma inert_ops: "inert (startGateways P conf)" "inert (sc_shutdown P t)" "inert (sc_suspend P)" "inert (sc_resume P)"
    "inert (sc_bindMount P src dst ro)" "inert createCommandJob" "inert (getm f)"
  by (simp_all add: inert_def guarded_refuses getm_def)

lemma stuck_with:
  assumes "j = cid \<longrightarrow> inert m"
  shows "keeps (stuck cid w) (withContainer j m)"
proof (rule keepsI)
  fix s :: "agent \<times> calls" assume I: "stuck cid w s"
  obtain a h where s: "s = (a, h)" by (rule prod.exhaust)
  show "stuck cid w (snd (withContainer j m s))"
  proof (cases "map_of (m_containers a) j")
    case None
    then show ?thesis using I by (simp add: s withContainer_def)
  next
    case (Some v)
    obtain r v' h' where run: "m (v, h) = (r, (v', h'))" by (rule run_exists)
    have "j = cid \<Longrightarrow> v' = w"
      using assms I Some run by (auto simp: inert_def stuck_def s) (metis fst_conv snd_conv)
    then show ?thesis using I Some by (auto simp: s withContainer_def run stuck_def)
  qed
qed

lemma stuck_assert: "keeps (stuck cid w) (assertContainerExists j)"
  unfolding assertContainerExists_def by (intro keeps_intros)

lemma stuck_get: "inert m \<Longrightarrow> keeps (stuck cid w) (getContainer j m)"
  unfolding getContainer_def by (intro keeps_seq stuck_assert stuck_with) simp

lemma stuck_ext: "keeps (stuck cid w) (ext m)"
  by (rule keeps_ext) (simp add: stuck_def)

lemma stuck_listener: "keeps (stuck cid w) (addProcessListener pid)"
  unfolding addProcessListener_def by (rule keeps_updm) (simp add: stuck_def)

lemma stuck_configs: "keeps (stuck cid w) (updateGatewayConfigs A j confs)"
  unfolding updateGatewayConfigs_def by (intro stuck_get inert_ops)

text \<open>A guarded method returns only from another container.\<close>

definition refuses :: "'a workspace_meth \<Rightarrow> bool" where
  "refuses m \<longleftrightarrow> (\<forall>w h. sc_containerState w = Some INVALID \<longrightarrow> m (w, h) = (Inl InvalidContainerError, (w, h)))"

lemma refuses_ops: "refuses (startGateways P conf)" "refuses (sc_shutdown P t)" "refuses (sc_suspend P)"
    "refuses (sc_resume P)" "refuses (sc_bindMount P src dst ro)" "refuses createCommandJob"
  by (simp_all add: refuses_def guarded_refuses)

lemma refuses_inert: "refuses m \<Longrightarrow> inert m"
  by (simp add: refuses_def inert_def)

lemma stuck_refuses:
  assumes "refuses m"
  shows "triple (stuck cid w) (withContainer j m) (\<lambda>_ s. stuck cid w s \<and> j \<noteq> cid) (\<lambda>_. stuck cid w)"
  unfolding triple_def
proof (intro allI impI)
  fix s :: "agent \<times> calls" assume I: "stuck cid w s"
  obtain r t where run: "withContainer j m s = (r, t)" by (rule prod.exhaust)
  have "stuck cid w t"
    using keepsD [OF stuck_with I run] refuses_inert [OF assms] by simp
  moreover have "j = cid \<Longrightarrow> \<exists>e. r = Inl e"
    using I run assms by (cases s) (auto simp: stuck_def withContainer_def refuses_def)
  ultimately show "case withContainer j m s of (Inl e, t) \<Rightarrow> stuck cid w t | (Inr a, t) \<Rightarrow> stuck cid w t \<and> j \<noteq> cid"
    by (cases r) (auto simp: run)
qed

lemma stuck_delete: "j \<noteq> cid \<Longrightarrow> keeps (stuck cid w) (deleteContainer P held j)"
  by (rule keepsI) (auto simp: stuck_def delete_run split: prod.split)

lemma triple_Ifalse: "triple (\<lambda>s. I s \<and> b) m (\<lambda>_. I) (\<lambda>_. I) \<longleftrightarrow> (b \<longrightarrow> triple I m (\<lambda>_. I) (\<lambda>_. I))"
  by (auto simp: triple_def)

lemma stuck_get_then:
  assumes "refuses m" "\<And>a. j \<noteq> cid \<Longrightarrow> keeps (stuck cid w) (k a)"
  shows "keeps (stuck cid w) (bnd (withContainer j m) k)"
  unfolding keeps_triple
  by (rule triple_bnd [OF stuck_refuses [OF assms(1)]]) (simp add: triple_Ifalse keeps_triple [symmetric] assms(2))

lemma stuck_shutdown: "keeps (stuck cid w) (shutdownContainer A j)"
proof -
  let ?k = "\<lambda>_ :: unit. bnd (getm (\<lambda>a. map_of (m_containers a) j)) (\<lambda>container.
     seq (catch (deleteContainer (ag_platform A) True j) (\<lambda>e. if is_sc_error e then Some (throw SoftwareContainerError) else None))
       (ext (\<lambda>h. (Inr (), case container of Some w \<Rightarrow> destroyWorkspace (ag_platform A) w h | None \<Rightarrow> h))))"
  have rest: "keeps (stuck cid w) (?k u)" if "j \<noteq> cid" for u
    by (intro keeps_intros stuck_delete stuck_ext that) (auto split: if_splits intro: keeps_intros)
  have "seq (getContainer j m) (?k ()) = seq (assertContainerExists j) (bnd (withContainer j m) ?k)" for m :: "unit workspace_meth"
    by (simp add: getContainer_def seq_def bnd_assoc)
  then show ?thesis unfolding shutdownContainer_def Let_def
    by (auto intro!: keeps_bnd keeps_getm keeps_seq stuck_assert stuck_get_then refuses_ops rest)
qed

lemma stuck_execute: "keeps (stuck cid w) (agent_execute A j cmd dir out env)"
proof -
  have run: "keeps (stuck cid w) (bnd (ext (job_setOutputFile E out job)) (\<lambda>job.
      bnd (withContainer j (runJobIn (startCommandJob E cmd dir (job_setEnvironmentVariables env job))))
       (\<lambda>(ok, job). if \<not> ok then throw SoftwareContainerError
         else seq (addProcessListener (j_pid job)) (ret (j_pid job)))))" if "j \<noteq> cid" for E job
    by (intro keeps_intros stuck_ext stuck_with stuck_listener) (simp add: that)
  show ?thesis unfolding agent_execute_def Let_def
    by (intro keeps_bnd keeps_seq keeps_if keeps_ret keeps_throw keeps_getm stuck_get inert_ops stuck_configs
        stuck_get_then refuses_ops run)
qed

text \<open>Creating a container uses another ID, as the pool is in order.\<close>

lemma stuck_create:
  assumes "stuck cid w s" "agent_ok X s" "createContainer A conf s = (r, t)"
  shows "stuck cid w t"
proof -
  obtain a h a' h' where st: "s = (a, h)" "t = (a', h')" by (cases s; cases t) blast
  have "createContainer A conf (a, h) = (r, (a', h'))" "agent_ok X (a, h)" using assms(2,3) st by simp_all
  then show ?thesis
  proof (cases rule: create_cases)
    case (created j v)
    have "pool_ok (dom (map_of (m_containers a)) \<union> X) (m_containerIdPool a)" using assms(2) by (simp add: agent_ok_def st)
    from idpool.take_in_use [OF this created(3)] assms(1) have "j \<noteq> cid" by (auto simp: stuck_def st)
    with created assms(1) show ?thesis by (auto simp: stuck_def st)
  qed (use assms(1) in \<open>simp_all add: stuck_def st\<close>)
qed

lemma stuck_call: "keeps (\<lambda>s. stuck cid w s \<and> agent_ok X s) (on_method_call A name params)"
proof -
  let ?I = "\<lambda>s. stuck cid w s \<and> agent_ok X s"
  have both: "keeps ?I m" if "keeps (stuck cid w) m" "keeps (agent_ok X) m" for m :: "'a agent_meth"
    using that by (simp add: keeps_def)
  have create: "keeps ?I (createContainer A conf)" for conf
    by (rule keepsI) (metis stuck_create ok_create keepsD2 prod.collapse)
  have "keeps (stuck cid w) bus_List" "keeps (stuck cid w) bus_ListCapabilities"
      "keeps (stuck cid w) (bus_Execute A j cmd dir out env)" "keeps (stuck cid w) (bus_Suspend A j)"
      "keeps (stuck cid w) (bus_Resume A j)" "keeps (stuck cid w) (bus_Destroy A j)"
      "keeps (stuck cid w) (bus_BindMount A j src dst ro)" "keeps (stuck cid w) (bus_SetCapabilities A j caps)"
    for j cmd dir out env src dst ro caps
    unfolding bus_List_def bus_ListCapabilities_def bus_Execute_def bus_Suspend_def bus_Resume_def
      bus_Destroy_def bus_BindMount_def bus_SetCapabilities_def listContainers_def listCapabilities_def
      suspendContainer_def resumeContainer_def agent_bindMount_def setCapabilities_def
    by (intro keeps_intros stuck_execute stuck_get inert_ops stuck_shutdown stuck_configs)+
  then have "keeps ?I (dispatch A name params)" if "name \<noteq> ''Create''"
    by (intro both ok_dispatch) (simp add: dispatch_def that keeps_throw keeps_ret split: list.split variant.split)
  moreover have "keeps ?I (dispatch A ''Create'' params)"
    by (auto simp: dispatch_def bus_Create_def intro: keeps_bnd create keeps_ret keeps_throw split: list.split variant.split)
  ultimately have "keeps ?I (dispatch A name params)" by blast
  then show ?thesis unfolding on_method_call_def
    by (intro keeps_catch) (auto split: if_splits intro: keeps_ret)
qed

lemma stuck_run: "(bus_step A)\<^sup>*\<^sup>* s t \<Longrightarrow> stuck cid w s \<and> agent_ok X s \<Longrightarrow> stuck cid w t \<and> agent_ok X t"
proof (induction rule: rtranclp_induct)
  case (step t u)
  from step.hyps(2) obtain name params r where "on_method_call A name params t = (r, u)" by (rule bus_stepE)
  from keepsD [OF stuck_call step.IH [OF step.prems] this] show ?case .
qed

section \<open>Examples\<close>

definition example_agent_config :: agent_config where
  "example_agent_config = readConfigsFromSources
     [\<lparr>stringConfigs = map (\<lambda>(k, v). setSource Main (newItem SC_GROUP k v))
         [(SHARED_MOUNTS_DIR, ''/''), (LXC_CONFIG_PATH, ''/conf''), (BRIDGE_DEVICE, ''br0''), (BRIDGE_IP, ''10.0.3.1''),
          (BRIDGE_NETMASK, ''255.255.255.0''), (BRIDGE_NETADDR, ''10.0.3.0''), (SERVICE_MANIFEST_DIR, ''''),
          (DEFAULT_SERVICE_MANIFEST_DIR, '''')],
       intConfigs = map (\<lambda>(k, v). setSource Main (newItem SC_GROUP k v)) [(SHUTDOWN_TIMEOUT, 1), (BRIDGE_NETMASK_BITLENGTH, 24)],
       boolConfigs = [setSource Main (newItem SC_GROUP CREATE_BRIDGE False)]\<rparr>]"

text \<open>An LXC that works, one that does not destroy containers, and one beside which the set-up script fails.\<close>

definition agent_env_of :: "(call \<Rightarrow> int option) \<Rightarrow> agent_env" where
  "agent_env_of special = \<lparr>ag_platform = example_platform\<lparr>p_env := (lxc_env 0 0)\<lparr>answer := (\<lambda>h c.
       case special c of Some v \<Rightarrow> (v, '''') | None \<Rightarrow> answer (lxc_env 0 0) h c)\<rparr>\<rparr>,
     ag_files = some_files, ag_json_loads = (\<lambda>_. Some (JArray [])), ag_list_containers = (\<lambda>_. Some []),
     ag_uninit_size = 0, ag_uninit_config = (False, False, 0)\<rparr>"

definition no_destroy :: "call \<Rightarrow> int option" where
  "no_destroy c = (case c of Lxc LxcDestroy \<Rightarrow> Some 0 | _ \<Rightarrow> None)"

definition no_setup :: "call \<Rightarrow> int option" where
  "no_setup c = (case c of Proc (SpawnSync _) \<Rightarrow> Some 1 | _ \<Rightarrow> None)"

definition create_call :: "agent_env \<Rightarrow> bus_meth" where
  "create_call A = on_method_call A ''Create'' [VString ''[]'']"

definition example_run :: "agent_env \<Rightarrow> bus_meth \<Rightarrow> (reply list \<Rightarrow> agent \<Rightarrow> bool) \<Rightarrow> bool" where
  "example_run A m Q = (case newAgent A example_agent_config [] of
      (Inr a, h) \<Rightarrow> (case m (a, h) of (Inr rs, (a', h')) \<Rightarrow> Q rs a' | _ \<Rightarrow> False)
    | _ \<Rightarrow> False)"

lemma example_created:
  "example_run (agent_env_of (\<lambda>_. None)) (create_call (agent_env_of (\<lambda>_. None)))
     (\<lambda>rs a. rs = [ReturnInt 0] \<and> keys (m_containers a) = [0])"
  by code_simp

lemma example_undestroyed:
  "example_run (agent_env_of no_destroy) (bnd (create_call (agent_env_of no_destroy))
       (\<lambda>_. on_method_call (agent_env_of no_destroy) ''Destroy'' [VInt 0]))
     (\<lambda>rs a. rs = [ReturnError ContainerError] \<and> map_option sc_containerState (map_of (m_containers a) 0) = Some (Some INVALID))"
  by code_simp

lemma example_not_set_up:
  "case newAgent (agent_env_of no_setup) example_agent_config [] of
     (Inr a, h) \<Rightarrow> (case createContainer (agent_env_of no_setup) ''[]'' (a, h) of
         (Inl e, (a', h')) \<Rightarrow> takeId (m_containerIdPool a) = (Inr 0, m_containerIdPool a') | _ \<Rightarrow> False)
   | _ \<Rightarrow> False"
  by code_simp

lemma example_run_cases:
  assumes "example_run A m Q"
  obtains a h rs a' h' where "newAgent A example_agent_config [] = (Inr a, h)" "m (a, h) = (Inr rs, (a', h'))" "Q rs a'"
proof -
  obtain n h where n: "newAgent A example_agent_config [] = (n, h)" by (rule prod.exhaust)
  with assms obtain a where a: "n = Inr a" by (cases n) (simp_all add: example_run_def)
  obtain q a' h' where q: "m (a, h) = (q, (a', h'))" by (rule run_exists)
  with assms n a obtain rs where "q = Inr rs" "Q rs a'" by (cases q) (simp_all add: example_run_def)
  with n a q show thesis by (intro that) simp_all
qed

lemma not_set_up_cases:
  obtains a h e a' h' where "newAgent (agent_env_of no_setup) example_agent_config [] = (Inr a, h)"
    "createContainer (agent_env_of no_setup) ''[]'' (a, h) = (Inl e, (a', h'))"
    "takeId (m_containerIdPool a) = (Inr 0, m_containerIdPool a')"
proof -
  obtain n h where n: "newAgent (agent_env_of no_setup) example_agent_config [] = (n, h)" by (rule prod.exhaust)
  with example_not_set_up obtain a where a: "n = Inr a" by (cases n) simp_all
  obtain q a' h' where q: "createContainer (agent_env_of no_setup) ''[]'' (a, h) = (q, (a', h'))" by (rule run_exists)
  with example_not_set_up n a show thesis by (cases q) (auto intro: that)
qed

lemma bus_stepI: "on_method_call A name params s = (r, t) \<Longrightarrow> (bus_step A)\<^sup>*\<^sup>* s t"
  by (blast intro: bus_step.intros)

section \<open>Properties\<close>

lemma pool_range: "pool_ok L pool \<Longrightarrow> cid \<in> L \<Longrightarrow> 0 \<le> cid \<and> cid < int_max"
  unfolding pool_ok_def by fastforce

lemma reach_ok:
  assumes "newAgent A C h = (Inr a0, h0)" "(bus_step A)\<^sup>*\<^sup>* (a0, h0) (a, k)"
  shows "agent_ok {} (a, k)"
  using ok_run [OF assms(2)] newAgent_ok [OF assms(1)] by blast

text \<open>C1: In every run of the agent every container it lists has an ID that the agent's own check accepts and
  that the pool will not give out, and is a workspace whose state tells that of its LXC container.\<close>

theorem agent_containers_sound:
  assumes "newAgent A C h = (Inr a0, h0)" "(bus_step A)\<^sup>*\<^sup>* (a0, h0) (a, k)" "map_of (m_containers a) cid = Some w"
  shows "0 \<le> cid \<and> cid < int_max \<and> fst (takeId (m_containerIdPool a)) \<noteq> Inr cid \<and>
    assertContainerExists cid (a, k) = (Inr (), (a, k)) \<and>
    (\<exists>st. sc_containerState w = Some st \<and> coupled_states (Some st) (c_state (sc_container w)))"
proof -
  have ok: "agent_ok {} (a, k)" by (rule reach_ok [OF assms(1,2)])
  then have pool: "pool_ok (dom (map_of (m_containers a))) (m_containerIdPool a)"
    and w: "coupled w" "sc_containerState w \<noteq> None"
    using assms(3) by (auto simp: agent_ok_def)
  have range: "0 \<le> cid" "cid < int_max" using pool_range [OF pool, of cid] assms(3) by (simp_all add: domI)
  have "fst (takeId (m_containerIdPool a)) \<noteq> Inr cid"
    using idpool.take_ok [OF pool] assms(3) by (metis domI prod.collapse)
  then show ?thesis using range w assms(3) by (auto simp: assert_run coupled_def)
qed

theorem agent_containers_sound_witness:
  "\<exists>a k. keys (m_containers a) = [0] \<and> assertContainerExists 0 (a, k) = (Inr (), (a, k)) \<and>
     fst (takeId (m_containerIdPool a)) \<noteq> Inr 0"
proof -
  let ?A = "agent_env_of (\<lambda>_. None)"
  obtain a h rs a' h' where start: "newAgent ?A example_agent_config [] = (Inr a, h)"
      and call: "create_call ?A (a, h) = (Inr rs, (a', h'))" and ids: "keys (m_containers a') = [0]"
    using example_created by (rule example_run_cases) blast
  have "0 \<in> set (keys (m_containers a'))" by (simp only: ids) simp
  then obtain w where w: "map_of (m_containers a') 0 = Some w" by auto
  have "(bus_step ?A)\<^sup>*\<^sup>* (a, h) (a', h')" using call unfolding create_call_def by (rule bus_stepI)
  from agent_containers_sound [OF start this w] ids show ?thesis by blast
qed

text \<open>C4: A container that is created gets an ID no container of the agent has, the other containers stay
  as they are, and the new one is READY; a creation that fails changes no container.\<close>

theorem agent_create_fresh:
  assumes "newAgent A C h = (Inr a0, h0)" "(bus_step A)\<^sup>*\<^sup>* (a0, h0) (a, k)"
    and "createContainer A conf (a, k) = (r, (a', k'))"
  shows "case r of Inl e \<Rightarrow> m_containers a' = m_containers a
    | Inr cid \<Rightarrow> cid \<notin> set (keys (m_containers a)) \<and>
        (\<exists>w. m_containers a' = put cid w (m_containers a) \<and> sc_containerState w = Some READY)"
proof -
  have ok: "agent_ok {} (a, k)" by (rule reach_ok [OF assms(1,2)])
  with assms(3) show ?thesis
  proof (cases rule: create_cases)
    case (created cid w)
    have "pool_ok (dom (map_of (m_containers a))) (m_containerIdPool a)" using ok by (simp add: agent_ok_def)
    from idpool.take_ok [OF this created(3)] created show ?thesis by auto
  qed simp_all
qed

theorem agent_create_fresh_witness:
  "\<exists>a h. newAgent (agent_env_of (\<lambda>_. None)) example_agent_config [] = (Inr a, h) \<and>
     (case createContainer (agent_env_of (\<lambda>_. None)) ''[]'' (a, h) of
        (Inl e, (a', h')) \<Rightarrow> m_containers a' = m_containers a
      | (Inr cid, (a', h')) \<Rightarrow> cid \<notin> set (keys (m_containers a)) \<and> m_containers a' \<noteq> [])"
proof -
  let ?A = "agent_env_of (\<lambda>_. None)"
  obtain a h rs t k where start: "newAgent ?A example_agent_config [] = (Inr a, h)"
      and "create_call ?A (a, h) = (Inr rs, (t, k))"
    using example_created by (rule example_run_cases)
  obtain r a' h' where run: "createContainer ?A ''[]'' (a, h) = (r, (a', h'))" by (rule run_exists)
  have "put cid w m \<noteq> [] \<and> [] \<noteq> put cid w m" for cid :: int and w and m :: "(int, workspace) std_map"
    by (cases m) (auto split: if_splits)
  with agent_create_fresh [OF start rtranclp.rtrancl_refl run] start run show ?thesis
    by (intro exI [of _ a] exI [of _ h]) (auto split: sum.splits)
qed

text \<open>C29: Where the factory throws, the ID that was taken for the container is lost: no later container of the
  agent has it and no later creation returns it.\<close>

theorem failed_creation_loses_id:
  assumes "newAgent A C h = (Inr a0, h0)" "(bus_step A)\<^sup>*\<^sup>* (a0, h0) (a, k)"
    and "createContainer A conf (a, k) = (Inl e, (a', k'))" "takeId (m_containerIdPool a) = (Inr cid, m_containerIdPool a')"
    and "(bus_step A)\<^sup>*\<^sup>* (a', k') (b, l)"
  shows "cid \<notin> set (keys (m_containers b)) \<and> fst (createContainer A conf' (b, l)) \<noteq> Inr cid"
proof -
  have ok: "agent_ok {} (a, k)" by (rule reach_ok [OF assms(1,2)])
  then have pool: "pool_ok (dom (map_of (m_containers a)) \<union> {}) (m_containerIdPool a)" by (simp add: agent_ok_def)
  have same: "m_containers a' = m_containers a" using assms(3) ok by (cases rule: create_cases) simp_all
  have "agent_ok {cid} (a', k')"
    using ok idpool.take_forget [OF pool assms(4)] idpool.take_in_use [OF pool assms(4)] by (auto simp: agent_ok_def same)
  from ok_run [OF assms(5) this] have later: "agent_ok {cid} (b, l)" .
  obtain r c m where run: "createContainer A conf' (b, l) = (r, (c, m))" by (rule run_exists)
  have "r \<noteq> Inr cid"
    using run later
  proof (cases rule: create_cases)
    case (created i w)
    have "pool_ok (dom (map_of (m_containers b)) \<union> {cid}) (m_containerIdPool b)" using later by (simp add: agent_ok_def)
    from idpool.take_in_use [OF this created(3)] created show ?thesis by auto
  qed simp_all
  then show ?thesis using later run by (auto simp: agent_ok_def)
qed

theorem failed_creation_loses_id_witness:
  "\<exists>a h a' h' e. newAgent (agent_env_of no_setup) example_agent_config [] = (Inr a, h) \<and>
     createContainer (agent_env_of no_setup) ''[]'' (a, h) = (Inl e, (a', h')) \<and>
     fst (createContainer (agent_env_of no_setup) ''[]'' (a', h')) \<noteq> Inr 0"
proof -
  obtain a h e a' h' where run: "newAgent (agent_env_of no_setup) example_agent_config [] = (Inr a, h)"
      "createContainer (agent_env_of no_setup) ''[]'' (a, h) = (Inl e, (a', h'))"
      "takeId (m_containerIdPool a) = (Inr 0, m_containerIdPool a')"
    by (rule not_set_up_cases)
  from failed_creation_loses_id [OF run(1) rtranclp.rtrancl_refl run(2,3) rtranclp.rtrancl_refl] run show ?thesis by blast
qed



lemma configsByID_known:
  "appendByID m caps conf = appendByID m (filter (\<lambda>c. c \<in> set (IDs m)) caps) conf"
proof (induction caps arbitrary: conf)
  case (Cons c cs)
  show ?case
  proof (cases "c \<in> set (IDs m)")
    case False
    then have "map_of m c = None" by (simp add: IDs_def map_of_eq_None_iff)
    then show ?thesis using False Cons.IH [of conf] by (simp add: configByID_def)
  next
    case True
    then show ?thesis using Cons.IH by (simp split: sum.split)
  qed
qed simp


lemma setCapabilities_known_iff:
  assumes "\<exists>c \<in> set caps. c \<in> set (IDs (m_filteredConfigStore (fst s)))"
  shows "setCapabilities A cid caps s =
    setCapabilities A cid (filter (\<lambda>c. c \<in> set (IDs (m_filteredConfigStore (fst s)))) caps) s"
proof -
  let ?known = "filter (\<lambda>c. c \<in> set (IDs (m_filteredConfigStore (fst s)))) caps"
  have "?known \<noteq> []" "caps \<noteq> []" using assms by (auto simp: filter_empty_conv)
  moreover have "configsByID (m_filteredConfigStore (fst s)) caps = configsByID (m_filteredConfigStore (fst s)) ?known"
    unfolding configsByID_def by (rule configsByID_known)
  ultimately show ?thesis by (simp add: setCapabilities_def bnd_def getm_def)
qed

lemma setCapabilities_unknown:
  assumes "caps \<noteq> []" "\<forall>c \<in> set caps. c \<notin> set (IDs (m_filteredConfigStore (fst s)))"
  shows "setCapabilities A cid caps s = (Inl SoftwareContainerError, s)"
proof -
  have none: "filter (\<lambda>c. c \<in> set (IDs (m_filteredConfigStore (fst s)))) caps = []" using assms(2) by (simp add: filter_empty_conv)
  have "appendByID m caps [] = Inr []" if "filter (\<lambda>c. c \<in> set (IDs m)) caps = []" for m
    using configsByID_known [of m caps "[]"] that by simp
  with none have "configsByID (m_filteredConfigStore (fst s)) caps = Inr []" by (simp add: configsByID_def)
  then show ?thesis using assms(1) by (simp add: setCapabilities_def bnd_def getm_def lift_def empty_conf_def throw_def)
qed


text \<open>C17: Capabilities the filtered store does not know are ignored where at least one of the list is known: the
  call does just what it would do with the known ones alone. Where none of a non-empty list is known
  the call is refused without any effect, before it looks for the container.\<close>

theorem setCapabilities_ignores_unknown:
  "((\<exists>c \<in> set caps. c \<in> set (IDs (m_filteredConfigStore (fst s)))) \<longrightarrow> setCapabilities A cid caps s =
     setCapabilities A cid (filter (\<lambda>c. c \<in> set (IDs (m_filteredConfigStore (fst s)))) caps) s) \<and>
   (caps \<noteq> [] \<and> (\<forall>c \<in> set caps. c \<notin> set (IDs (m_filteredConfigStore (fst s)))) \<longrightarrow>
     setCapabilities A cid caps s = (Inl SoftwareContainerError, s))"
  using setCapabilities_known_iff setCapabilities_unknown by blast

theorem setCapabilities_ignores_unknown_witness:
  "\<exists>a :: agent. m_filteredConfigStore a = some_store \<and>
     setCapabilities (agent_env_of no_setup) 0 [''x'', ''a'', ''y''] (a, []) = setCapabilities (agent_env_of no_setup) 0 [''a''] (a, []) \<and>
     setCapabilities (agent_env_of no_setup) 0 [''x'', ''y''] (a, []) = (Inl SoftwareContainerError, (a, []))"
proof -
  obtain a h where "newAgent (agent_env_of no_setup) example_agent_config [] = (Inr a, h)"
    by (rule not_set_up_cases)
  let ?a = "a\<lparr>m_filteredConfigStore := some_store\<rparr>"
  have ids: "IDs some_store = [''a'', ''b'']" by (simp add: some_store_def IDs_def)
  have "setCapabilities A 0 [''x'', ''a'', ''y''] (?a, []) = setCapabilities A 0 [''a''] (?a, [])" for A
    using setCapabilities_ignores_unknown [of "[''x'', ''a'', ''y'']" "(?a, [])" A 0] by (simp add: ids)
  moreover have "setCapabilities A 0 [''x'', ''y''] (?a, []) = (Inl SoftwareContainerError, (?a, []))" for A
    using setCapabilities_ignores_unknown [of "[''x'', ''y'']" "(?a, [])" A 0] by (simp add: ids)
  ultimately show ?thesis by (intro exI [of _ ?a]) simp
qed

definition bus_methods :: "string list" where
  "bus_methods = [''List'', ''Create'', ''Execute'', ''Suspend'', ''Resume'', ''Destroy'', ''BindMount'',
     ''ListCapabilities'', ''SetCapabilities'']"

definition answers :: "bus_meth \<Rightarrow> bool" where
  "answers m \<longleftrightarrow> (\<forall>s rs t. m s = (Inr rs, t) \<longrightarrow> length rs = 1)"

lemma answers_rules: "answers (bnd n (\<lambda>a. ret [f a]))" "answers (seq k (ret [x]))" "answers (throw e)"
  "(b \<Longrightarrow> answers m) \<Longrightarrow> (\<not> b \<Longrightarrow> answers m') \<Longrightarrow> answers (if b then m else m')"
  by (auto simp: answers_def seq_def bnd_def ret_def throw_def split: sum.splits prod.splits)

lemma bus_answers: "answers bus_List" "answers bus_ListCapabilities" "answers (bus_Create A conf)"
  "answers (bus_Execute A cid cmd dir out env)" "answers (bus_Suspend A cid)" "answers (bus_Resume A cid)"
  "answers (bus_Destroy A cid)" "answers (bus_BindMount A cid src dst ro)" "answers (bus_SetCapabilities A cid caps)"
  unfolding bus_Create_def bus_List_def bus_ListCapabilities_def bus_Execute_def bus_Suspend_def bus_Resume_def
    bus_Destroy_def bus_BindMount_def bus_SetCapabilities_def
  by (rule answers_rules)+

lemma dispatch_answers: "name \<in> set bus_methods \<Longrightarrow> answers (dispatch A name params)"
  unfolding dispatch_def
  by (intro answers_rules(4) bus_answers)
    (simp_all add: bus_answers answers_rules(3) bus_methods_def split: list.split variant.split)

lemma one_reply:
  assumes "dispatch A name params s = (Inr rs, t)"
  shows "length rs = (if name \<in> set bus_methods then 1 else 0)"
proof (cases "name \<in> set bus_methods")
  case False
  then show ?thesis using assms by (simp add: dispatch_def bus_methods_def ret_def)
next
  case True
  have "length rs = 1" using dispatch_answers [OF True, of A params] assms unfolding answers_def by blast
  then show ?thesis using True by simp
qed



end
