(* ===== verification/AgentMain.thy ===== *)
theory AgentMain
  imports AgentBus "HOL-Library.Multiset"
begin

text \<open>
  The program of the agent: \<open>main\<close> of \<open>agent/src/main.cpp\<close> from the parsed command line to the exit
  status, the adaptor with what it hears from D-Bus, and the main loop, which handles
  events one after the other: calls of methods, processes that end, the fate of the name on the bus,
  and the signals that stop it. Glib's parts (the parser of the command line and of key files, the
  sources of events) are parameters.
\<close>

section \<open>The adaptor\<close>

text \<open>What goes out on the bus: the answers of a call, and the signal.\<close>

datatype message = Replies "reply list" | ProcessStateChanged int int bool int

datatype bus_event =
    BusAcquired bool | NameAcquired | NameLost
  | MethodCall string "variant list" | ChildExit int int | UnixSignal

text \<open>\<open>ad_listeners\<close> are the listeners that wait for a process to end, each with the container its lambda
  has captured; \<open>ad_connected\<close> tells that the object is registered, \<open>ad_quit\<close> that the loop was told to quit.\<close>

record adaptor =
  ad_agent :: agent
  ad_session_bus :: bool
  ad_connected :: bool
  ad_listeners :: "(int \<times> int) list"
  ad_sent :: "message list"
  ad_quit :: bool

type_synonym 'a adaptor_meth = "(adaptor, calls, 'a) meth"

definition newAdaptor :: "agent \<Rightarrow> bool \<Rightarrow> adaptor" where
  "newAdaptor agent useSessionBus = \<lparr>ad_agent = agent, ad_session_bus = useSessionBus, ad_connected = False,
     ad_listeners = [], ad_sent = [], ad_quit = False\<rparr>"

definition guint32 :: "int \<Rightarrow> int" where "guint32 i = i mod 4294967296"

definition send :: "message \<Rightarrow> unit adaptor_meth" where
  "send msg = updm (\<lambda>s. s\<lparr>ad_sent := ad_sent s @ [msg]\<rparr>)"

definition ProcessStateChanged_emitter :: "int \<Rightarrow> int \<Rightarrow> bool \<Rightarrow> int \<Rightarrow> unit adaptor_meth" where
  "ProcessStateChanged_emitter containerID processID alive exitCode =
     bnd (getm ad_connected) (\<lambda>connected.
       if \<not> connected then throw UndefinedBehaviour
       else send (ProcessStateChanged containerID (guint32 processID) alive (guint32 exitCode)))"

definition onDBusError :: "unit adaptor_meth" where
  "onDBusError = updm (\<lambda>s. s\<lparr>ad_quit := True\<rparr>)"

definition onDBusNameAcquired :: "unit adaptor_meth" where
  "onDBusNameAcquired = ret ()"

text \<open>Registering the object may fail.\<close>

definition on_bus_acquired :: "bool \<Rightarrow> unit adaptor_meth" where
  "on_bus_acquired success =
     (if success then updm (\<lambda>s. s\<lparr>ad_connected := True\<rparr>) else onDBusError)"

definition on_name_lost :: "unit adaptor_meth" where
  "on_name_lost = onDBusError"

definition signalHandler :: "unit adaptor_meth" where
  "signalHandler = updm (\<lambda>s. s\<lparr>ad_quit := True\<rparr>)"

text \<open>The listeners a call of a method adds are those of its processes; \<open>Execute\<close> gives the lambda its container.\<close>

definition new_listeners :: "variant list \<Rightarrow> agent \<Rightarrow> agent \<Rightarrow> (int \<times> int) list" where
  "new_listeners params before after = (case params of
     VInt cid # _ \<Rightarrow> map (\<lambda>pid. (pid, cid)) (drop (length (m_watched before)) (m_watched after))
   | _ \<Rightarrow> [])"

definition method_call :: "agent_env \<Rightarrow> string \<Rightarrow> variant list \<Rightarrow> unit adaptor_meth" where
  "method_call A name params = (\<lambda>(s, h). case on_method_call A name params (ad_agent s, h) of
     (r, (a, h')) \<Rightarrow> (let t = s\<lparr>ad_agent := a, ad_listeners := ad_listeners s @ new_listeners params (ad_agent s) a\<rparr> in
       case r of Inl e \<Rightarrow> (Inl e, (t, h')) | Inr rs \<Rightarrow> send (Replies rs) (t, h')))"

text \<open>A process that ends: every listener of it is called with the status that \<open>waitpid\<close> gives, once.\<close>

definition child_exit :: "int \<Rightarrow> int \<Rightarrow> unit adaptor_meth" where
  "child_exit pid status = bnd (getm ad_listeners) (\<lambda>ls.
     seq (for_each (\<lambda>(p, cid). ProcessStateChanged_emitter cid p False status) (filter (\<lambda>l. fst l = pid) ls))
       (updm (\<lambda>s. s\<lparr>ad_listeners := filter (\<lambda>l. fst l \<noteq> pid) (ad_listeners s)\<rparr>)))"

section \<open>The main loop\<close>

text \<open>Calls are delivered to a registered object only.\<close>

fun handle :: "agent_env \<Rightarrow> bus_event \<Rightarrow> unit adaptor_meth" where
  "handle A (BusAcquired success) = on_bus_acquired success"
| "handle A NameAcquired = onDBusNameAcquired"
| "handle A NameLost = on_name_lost"
| "handle A (MethodCall name params) =
     bnd (getm ad_connected) (\<lambda>c. if c then method_call A name params else ret ())"
| "handle A (ChildExit pid status) = child_exit pid status"
| "handle A UnixSignal = signalHandler"

text \<open>One iteration of Glib's loop handles all the events that are ready; whether to go on is asked between
  iterations.\<close>

fun dispatch_all :: "agent_env \<Rightarrow> bus_event list \<Rightarrow> unit adaptor_meth" where
  "dispatch_all A [] = ret ()"
| "dispatch_all A (e # es) = seq (handle A e) (dispatch_all A es)"

fun main_loop :: "agent_env \<Rightarrow> bus_event list list \<Rightarrow> unit adaptor_meth" where
  "main_loop A [] = ret ()"
| "main_loop A (es # iterations) = bnd (getm ad_quit) (\<lambda>q.
     if q then ret () else seq (dispatch_all A es) (main_loop A iterations))"

section \<open>The program\<close>

text \<open>\<open>mn_parse\<close> is Glib's parser of the command line: the path of the configuration file, which is empty
  where the option is not given, and the other options. \<open>mn_load\<close> loads a key file.\<close>

record main_env =
  mn_agent :: agent_env
  mn_build :: build
  mn_config_file :: string
  mn_load :: "string \<Rightarrow> key_file option"
  mn_parse :: "string list \<Rightarrow> (string \<times> options) option"

definition loadConfig :: "main_env \<Rightarrow> string \<Rightarrow> exn + key_file" where
  "loadConfig M source = (case mn_load M source of None \<Rightarrow> Inl GlibError | Some K \<Rightarrow> Inr K)"

definition configFileLocation :: "main_env \<Rightarrow> string \<Rightarrow> string" where
  "configFileLocation M configPath = (if configPath \<noteq> '''' then configPath else mn_config_file M)"

definition startup :: "main_env \<Rightarrow> string \<Rightarrow> options \<Rightarrow> (calls, adaptor) act" where
  "startup M configPath opts =
     bnd (lift (agentConfig opts (case loadConfig M (configFileLocation M configPath) of Inl e \<Rightarrow> None | Inr K \<Rightarrow> Some K)
       (mn_build M))) (\<lambda>config.
     bnd (newAgent (mn_agent M) config) (\<lambda>agent.
     bnd (lift (getBoolValue config SC_GROUP USE_SESSION_BUS)) (\<lambda>useSessionBus.
       ret (newAdaptor agent useSessionBus))))"

text \<open>The program exits, waits for the next event, or an exception that nothing catches ends it; the
  handlers of events are called by Glib, so no exception of theirs reaches \<open>main\<close>.\<close>

datatype outcome = Exit int adaptor | Refused int | Waiting adaptor | Terminated exn

definition agent_main :: "main_env \<Rightarrow> string list \<Rightarrow> bus_event list list \<Rightarrow> calls \<Rightarrow> outcome \<times> calls" where
  "agent_main M argv events h = (case mn_parse M argv of
     None \<Rightarrow> (Refused 1, h)
   | Some (configPath, opts) \<Rightarrow> (case startup M configPath opts h of
       (Inl e, h1) \<Rightarrow> (if is_sc_error e then (Refused 1, h1) else (Terminated e, h1))
     | (Inr s, h1) \<Rightarrow> (case main_loop (mn_agent M) events (s, h1) of
         (Inl e, (t, k)) \<Rightarrow> (Terminated e, k)
       | (Inr _, (t, k)) \<Rightarrow> (if ad_quit t then (Exit 0 t, k) else (Waiting t, k)))))"

section \<open>The runs of the program are runs of the agent\<close>

lemma handle_steps: "handle A e (s, h) = (r, (t, k)) \<Longrightarrow> (bus_step A)\<^sup>*\<^sup>* (ad_agent s, h) (ad_agent t, k)"
proof (cases e)
  case (MethodCall name params)
  assume run: "handle A e (s, h) = (r, (t, k))"
  obtain q a h' where call: "on_method_call A name params (ad_agent s, h) = (q, (a, h'))" by (rule run_exists)
  show ?thesis
  proof (cases "ad_connected s")
    case True
    with run MethodCall call have "ad_agent t = a" "k = h'"
      by (auto simp: act_defs method_call_def send_def Let_def split: sum.splits)
    with bus_stepI [OF call] show ?thesis by simp
  qed (use run MethodCall in \<open>simp add: act_defs\<close>)
next
  case (ChildExit pid status)
  assume run: "handle A e (s, h) = (r, (t, k))"
  have "keeps (\<lambda>(x, w). ad_agent x = ad_agent s \<and> w = h) (handle A e)"
    unfolding ChildExit handle.simps child_exit_def ProcessStateChanged_emitter_def send_def
    by (intro keeps_intros keeps_case_prod keeps_updm) auto
  from keepsD [OF this _ run] show ?thesis by simp
qed (auto simp: act_defs on_bus_acquired_def onDBusNameAcquired_def onDBusError_def on_name_lost_def signalHandler_def
    split: if_splits)

lemma dispatch_steps: "dispatch_all A es (s, h) = (r, (t, k)) \<Longrightarrow> (bus_step A)\<^sup>*\<^sup>* (ad_agent s, h) (ad_agent t, k)"
proof (induction es arbitrary: s h)
  case (Cons e es)
  obtain q u h' where e: "handle A e (s, h) = (q, (u, h'))" by (rule run_exists)
  note first = handle_steps [OF e]
  show ?case
  proof (cases q)
    case (Inr x)
    with Cons.prems e have "dispatch_all A es (u, h') = (r, (t, k))" by (simp add: act_defs)
    from rtranclp_trans [OF first Cons.IH [OF this]] show ?thesis .
  qed (use first Cons.prems e in \<open>simp add: act_defs\<close>)
qed (simp add: act_defs)

lemma loop_steps: "main_loop A its (s, h) = (r, (t, k)) \<Longrightarrow> (bus_step A)\<^sup>*\<^sup>* (ad_agent s, h) (ad_agent t, k)"
proof (induction its arbitrary: s h)
  case (Cons es its)
  obtain q u h' where es: "dispatch_all A es (s, h) = (q, (u, h'))" by (rule run_exists)
  note first = dispatch_steps [OF es]
  show ?case
  proof (cases "ad_quit s")
    case False
    show ?thesis
    proof (cases q)
      case (Inr x)
      with Cons.prems es False have "main_loop A its (u, h') = (r, (t, k))" by (simp add: act_defs)
      from rtranclp_trans [OF first Cons.IH [OF this]] show ?thesis .
    qed (use first Cons.prems es False in \<open>simp add: act_defs\<close>)
  qed (use Cons.prems in \<open>simp add: act_defs\<close>)
qed (simp add: act_defs)

lemma startup_agent:
  assumes "startup M path opts h = (Inr s, k)"
  obtains C where "newAgent (mn_agent M) C h = (Inr (ad_agent s), k)" "ad_listeners s = []" "ad_sent s = []"
    "\<not> ad_connected s" "\<not> ad_quit s"
  using assms by (auto simp: startup_def bnd_def lift_def ret_def newAdaptor_def split: sum.splits prod.splits)


section \<open>Who listens to a process\<close>

text \<open>Only running a command adds a listener.\<close>

definition watching :: "int list \<Rightarrow> agent \<times> calls \<Rightarrow> bool" where
  "watching ws s \<longleftrightarrow> m_watched (fst s) = ws"

lemma watching_withContainer: "keeps (watching ws) (withContainer cid m)"
  by (rule keepsI) (auto simp: watching_def withContainer_def split: prod.splits option.splits)

lemma watching_assert: "keeps (watching ws) (assertContainerExists cid)"
  unfolding assertContainerExists_def by (intro keeps_intros)

lemma watching_getContainer: "keeps (watching ws) (getContainer cid m)"
  unfolding getContainer_def by (intro keeps_seq watching_assert watching_withContainer)

lemma watching_ext: "keeps (watching ws) (ext m)"
  by (rule keeps_ext) (simp add: watching_def)

lemma watching_delete: "keeps (watching ws) (deleteContainer P held cid)"
  by (rule keepsI) (auto simp: delete_run watching_def)

lemma watching_shutdown: "keeps (watching ws) (shutdownContainer A cid)"
  unfolding shutdownContainer_def Let_def
  by (intro keeps_intros watching_getContainer watching_delete watching_ext) (auto split: if_splits intro: keeps_intros)

lemma watching_update: "keeps (watching ws) (updateGatewayConfigs A cid confs)"
  unfolding updateGatewayConfigs_def by (rule watching_getContainer)

lemma watching_create: "keeps (watching ws) (createContainer A conf)"
proof -
  have "keeps (watching ws) (parseWith A conf)" "keeps (watching ws) findSuitableId"
    "keeps (watching ws) (storeContainer P cid w)" for P cid w
    by (rule keepsI, auto simp: watching_def parseWith_def findSuitableId_def storeContainer_def split: prod.splits)+
  then show ?thesis unfolding createContainer_def by (intro keeps_intros watching_ext)
qed

lemma watching_execute:
  "triple (watching ws) (agent_execute A cid cmd dir out env) (\<lambda>pid. watching (ws @ [pid])) (\<lambda>_. watching ws)"
proof -
  have add: "triple (watching ws) (seq (addProcessListener p) (ret p)) (\<lambda>pid. watching (ws @ [pid])) (\<lambda>_. watching ws)" for p
    by (auto simp: triple_def watching_def addProcessListener_def act_defs)
  have start: "triple (watching ws) (withContainer cid (runJobIn (startCommandJob E cmd dir j)))
      (\<lambda>_. watching ws) (\<lambda>_. watching ws)" for E j
    by (rule triple_keeps) (rule watching_withContainer)
  have first: "triple (watching ws) m (\<lambda>_. watching ws) (\<lambda>_. watching ws)"
    if "keeps (watching ws) m" for m :: "'a agent_meth"
    using that by (rule triple_keeps)
  show ?thesis
    unfolding agent_execute_def Let_def
    by (intro triple_bnd [OF triple_keeps] triple_seq [OF triple_keeps] keeps_intros watching_getContainer watching_update
        watching_withContainer watching_ext)
      (auto split: prod.splits intro!: triple_if triple_throw add)
qed

text \<open>The process that a call has started, with its container.\<close>

definition started_by :: "string \<Rightarrow> variant list \<Rightarrow> reply list \<Rightarrow> (int \<times> int) list" where
  "started_by name params rs = (if name \<noteq> ''Execute'' then [] else (case params of
     VInt cid # _ \<Rightarrow> (case rs of [ReturnInt pid] \<Rightarrow> [(pid, cid)] | _ \<Rightarrow> []) | _ \<Rightarrow> []))"

lemma watching_dispatch_other: "name \<noteq> ''Execute'' \<Longrightarrow> keeps (watching ws) (dispatch A name params)"
proof -
  assume name: "name \<noteq> ''Execute''"
  have each: "keeps (watching ws) (bus_Create A conf)" "keeps (watching ws) bus_List" "keeps (watching ws) bus_ListCapabilities"
      "keeps (watching ws) (bus_Suspend A cid)" "keeps (watching ws) (bus_Resume A cid)" "keeps (watching ws) (bus_Destroy A cid)"
      "keeps (watching ws) (bus_BindMount A cid src dst ro)" "keeps (watching ws) (bus_SetCapabilities A cid caps)"
    for conf cid src dst ro caps
    unfolding bus_Create_def bus_List_def bus_ListCapabilities_def bus_Suspend_def bus_Resume_def
      bus_Destroy_def bus_BindMount_def bus_SetCapabilities_def listContainers_def listCapabilities_def
      suspendContainer_def resumeContainer_def agent_bindMount_def setCapabilities_def
    by (intro keeps_intros watching_create watching_getContainer watching_shutdown watching_update)+
  show ?thesis using name unfolding dispatch_def
    by (intro keeps_if each keeps_ret) (simp_all add: each keeps_throw split: list.split variant.split)
qed

lemma method_watched:
  assumes run: "on_method_call A name params (a, h) = (r, (a', h'))"
  shows "m_watched a' = m_watched a @ (case r of Inl e \<Rightarrow> [] | Inr rs \<Rightarrow> map fst (started_by name params rs))"
proof -
  have w: "watching (m_watched a) (a, h)" by (simp add: watching_def)
  obtain d b k where disp: "dispatch A name params (a, h) = (d, (b, k))" by (rule run_exists)
  have after: "b = a'" "\<And>e. d = Inl e \<Longrightarrow> is_sc_error e \<Longrightarrow> r = Inr [ReturnError e]"
    "\<And>e. d = Inl e \<Longrightarrow> \<not> is_sc_error e \<Longrightarrow> r = Inl e" "\<And>rs. d = Inr rs \<Longrightarrow> r = Inr rs"
    using run disp by (auto simp: on_method_call_def catch_def ret_def split: sum.splits if_splits)
  show ?thesis
  proof (cases "\<exists>cid cmd dir out env. name = ''Execute'' \<and> params = [VInt cid, VString cmd, VString dir, VString out, VDict env]")
    case False
    have glib: "dispatch A name params = throw GlibError" if "name = ''Execute''"
      using False that by (auto simp: dispatch_def split: list.split variant.split)
    then have "keeps (watching (m_watched a)) (dispatch A name params)"
      by (cases "name = ''Execute''") (simp_all add: keeps_throw watching_dispatch_other)
    from keepsD [OF this w disp] have "m_watched a' = m_watched a" by (simp add: watching_def after(1))
    moreover have "started_by name params rs = []" if "r = Inr rs" for rs
    proof (cases "name = ''Execute''")
      case True
      with glib disp have "d = Inl GlibError" by (simp add: throw_def)
      with after(3) that show ?thesis by (simp add: is_sc_error_def)
    qed (simp add: started_by_def)
    ultimately show ?thesis by (simp split: sum.split)
  next
    case True
    then obtain cid cmd dir out env where p: "name = ''Execute''" "params = [VInt cid, VString cmd, VString dir, VString out, VDict env]"
      by blast
    obtain q b' k' where ex: "agent_execute A cid cmd dir out env (a, h) = (q, (b', k'))" by (rule run_exists)
    from tripleD [OF watching_execute w ex] disp ex have
      "case q of Inl e \<Rightarrow> d = Inl e \<and> m_watched b = m_watched a | Inr pid \<Rightarrow> d = Inr [ReturnInt pid] \<and> m_watched b = m_watched a @ [pid]"
      by (auto simp: p dispatch_def bus_Execute_def bnd_def ret_def watching_def split: sum.splits)
    then show ?thesis using after
      by (cases q; cases "is_sc_error (projl d)") (auto simp: p started_by_def)
  qed
qed

text \<open>The processes a run starts, in the order of the calls.\<close>

definition starts :: "agent_env \<Rightarrow> bus_event \<Rightarrow> adaptor \<Rightarrow> calls \<Rightarrow> (int \<times> int) list" where
  "starts A e s h = (case e of
     MethodCall name params \<Rightarrow> if \<not> ad_connected s then []
       else (case on_method_call A name params (ad_agent s, h) of
               (Inl e, t) \<Rightarrow> [] | (Inr rs, t) \<Rightarrow> started_by name params rs)
   | _ \<Rightarrow> [])"

fun started_each :: "agent_env \<Rightarrow> bus_event list \<Rightarrow> adaptor \<times> calls \<Rightarrow> (int \<times> int) list" where
  "started_each A [] s = []"
| "started_each A (e # es) s = starts A e (fst s) (snd s) @
     (case handle A e s of (Inl e, t) \<Rightarrow> [] | (Inr _, t) \<Rightarrow> started_each A es t)"

fun started_in :: "agent_env \<Rightarrow> bus_event list list \<Rightarrow> adaptor \<times> calls \<Rightarrow> (int \<times> int) list" where
  "started_in A [] s = []"
| "started_in A (es # its) s = (if ad_quit (fst s) then [] else started_each A es s @
     (case dispatch_all A es s of (Inl e, t) \<Rightarrow> [] | (Inr _, t) \<Rightarrow> started_in A its t))"

text \<open>The ends of processes that a run has reported, with the number of the process as the signal has it.\<close>

fun ends :: "message list \<Rightarrow> (int \<times> int) list" where
  "ends [] = []"
| "ends (ProcessStateChanged cid p alive code # ms) = (p, cid) # ends ms"
| "ends (Replies rs # ms) = ends ms"

definition as_sent :: "(int \<times> int) list \<Rightarrow> (int \<times> int) list" where
  "as_sent ls = map (\<lambda>(p, cid). (guint32 p, cid)) ls"

lemma ends_append [simp]: "ends (xs @ ys) = ends xs @ ends ys"
  by (induction xs rule: ends.induct) simp_all

lemma as_sent_append [simp]: "as_sent (xs @ ys) = as_sent xs @ as_sent ys" "as_sent [] = []"
  by (simp_all add: as_sent_def)

text \<open>The listeners there are and those that were called.\<close>

definition account :: "adaptor \<Rightarrow> (int \<times> int) multiset" where
  "account s = mset (as_sent (ad_listeners s)) + mset (ends (ad_sent s))"

lemma method_account:
  assumes "method_call A name params (s, h) = (r, (t, k))"
  shows "case on_method_call A name params (ad_agent s, h) of
      (Inl e, _) \<Rightarrow> account t = account s \<and> r = Inl e
    | (Inr rs, _) \<Rightarrow> account t = account s + mset (as_sent (started_by name params rs)) \<and> r = Inr ()"
proof -
  obtain q a h' where call: "on_method_call A name params (ad_agent s, h) = (q, (a, h'))" by (rule run_exists)
  have ls: "new_listeners params (ad_agent s) a = (case q of Inl e \<Rightarrow> [] | Inr rs \<Rightarrow> started_by name params rs)"
    using method_watched [OF call]
    by (auto simp: new_listeners_def started_by_def split: sum.split list.split variant.split reply.split)
  show ?thesis
    using assms by (cases q) (auto simp: method_call_def call ls send_def updm_def Let_def account_def)
qed

lemma emit_each:
  "ad_connected s \<Longrightarrow>
   for_each (\<lambda>(p, cid). ProcessStateChanged_emitter cid p False code) ls (s, h) =
     (Inr (), (s\<lparr>ad_sent := ad_sent s @ map (\<lambda>(p, cid). ProcessStateChanged cid (guint32 p) False (guint32 code)) ls\<rparr>, h))"
  by (induction ls arbitrary: s) (auto simp: act_defs ProcessStateChanged_emitter_def send_def)

lemma ends_changed: "ends (map (\<lambda>(p, cid). ProcessStateChanged cid (guint32 p) False code) ls) = as_sent ls"
  by (induction ls) (auto simp: as_sent_def)

lemma exit_account:
  assumes "child_exit pid status (s, h) = (Inr (), (t, k))" "ad_connected s \<or> ad_listeners s = []"
  shows "account t = account s \<and> ad_listeners t = filter (\<lambda>l. fst l \<noteq> pid) (ad_listeners s)"
proof (cases "ad_connected s")
  case True
  have "mset (as_sent (filter (\<lambda>l. fst l = pid) ls)) + mset (as_sent (filter (\<lambda>l. fst l \<noteq> pid) ls)) = mset (as_sent ls)" for ls
    by (induction ls) (auto simp: as_sent_def)
  then show ?thesis
    using assms(1) True by (auto simp: child_exit_def act_defs emit_each account_def ends_changed add.commute add.left_commute)
next
  case False
  then show ?thesis using assms by (auto simp: child_exit_def act_defs account_def)
qed

text \<open>Only a registered object has listeners.\<close>

definition linked :: "adaptor \<Rightarrow> bool" where
  "linked s \<longleftrightarrow> ad_connected s \<or> ad_listeners s = []"

lemma linked_start: "startup M path opts h = (Inr s, k) \<Longrightarrow> linked s \<and> account s = {#}"
  by (erule startup_agent) (simp add: linked_def account_def)

lemma handle_cases:
  assumes run: "handle A e (s, h) = (r, (t, k))" and l: "linked s"
  shows "linked t \<and> (r = Inr () \<longrightarrow> account t = account s + mset (as_sent (starts A e s h)))"
proof (cases e)
  case (MethodCall name params)
  show ?thesis
  proof (cases "ad_connected s")
    case True
    then have m: "method_call A name params (s, h) = (r, (t, k))" using run MethodCall by (simp add: act_defs)
    then have "ad_connected t"
      using True by (auto simp: method_call_def send_def updm_def Let_def split: prod.splits sum.splits)
    then show ?thesis using method_account [OF m] True MethodCall by (auto simp: linked_def starts_def split: sum.splits prod.splits)
  qed (use run MethodCall l in \<open>simp add: act_defs starts_def\<close>)
next
  case (ChildExit pid status)
  have r: "r = Inr ()" "ad_connected s \<longrightarrow> ad_connected t"
    using run l by (auto simp: ChildExit child_exit_def act_defs emit_each linked_def)
  with run ChildExit have "child_exit pid status (s, h) = (Inr (), (t, k))" by simp
  from exit_account [OF this l [unfolded linked_def]] r l show ?thesis by (auto simp: ChildExit linked_def starts_def)
qed (use run l in \<open>auto simp: act_defs on_bus_acquired_def onDBusNameAcquired_def onDBusError_def on_name_lost_def
    signalHandler_def linked_def account_def as_sent_def starts_def split: if_splits\<close>)

lemma dispatch_account:
  "dispatch_all A es (s, h) = (Inr (), (t, k)) \<Longrightarrow> linked s \<Longrightarrow>
   linked t \<and> account t = account s + mset (as_sent (started_each A es (s, h)))"
proof (induction es arbitrary: s h)
  case (Cons e es)
  obtain q u h' where e: "handle A e (s, h) = (q, (u, h'))" by (rule run_exists)
  with Cons.prems(1) have q: "q = Inr ()" and rest: "dispatch_all A es (u, h') = (Inr (), (t, k))"
    by (cases q; simp add: act_defs)+
  from handle_cases [OF e Cons.prems(2)] q have u: "linked u" and acc: "account u = account s + mset (as_sent (starts A e s h))"
    by blast+
  from Cons.IH [OF rest u] show ?case using acc by (simp add: e q add.assoc)
qed (simp add: act_defs)

lemma loop_account:
  "main_loop A its (s, h) = (Inr (), (t, k)) \<Longrightarrow> linked s \<Longrightarrow>
   account t = account s + mset (as_sent (started_in A its (s, h)))"
proof (induction its arbitrary: s h)
  case (Cons es its)
  obtain q u h' where es: "dispatch_all A es (s, h) = (q, (u, h'))" by (rule run_exists)
  show ?case
  proof (cases "ad_quit s")
    case False
    with Cons.prems(1) es have q: "q = Inr ()" and rest: "main_loop A its (u, h') = (Inr (), (t, k))"
      by (cases q; simp add: act_defs)+
    from dispatch_account [OF es [unfolded q] Cons.prems(2)] have u: "linked u"
      and acc: "account u = account s + mset (as_sent (started_each A es (s, h)))" by blast+
    from Cons.IH [OF rest u] show ?thesis using acc False by (simp add: es q add.assoc)
  qed (use Cons.prems in \<open>simp add: act_defs\<close>)
qed (simp add: act_defs)


section \<open>What the signal says\<close>

text \<open>For a process that exits with a code other than 0 the signal does not carry that code, as its
  description says, but the status that \<open>waitpid\<close> gives, from which the code would still have to be
  extracted, as \<open>waitForProcessTermination\<close> does for the program's own jobs.\<close>

theorem exit_code_is_wait_status:
  assumes "linked s" "(pid, cid) \<in> set (ad_listeners s)" "0 < code" "code < 256" "status = 256 * code"
    and "handle A (ChildExit pid status) (s, h) = (r, (t, k))"
  shows "WEXITSTATUS status = code \<and> r = Inr () \<and> pid \<notin> fst ` set (ad_listeners t) \<and>
    (\<exists>ms. ad_sent t = ad_sent s @ ms \<and> ProcessStateChanged cid (guint32 pid) False status \<in> set ms \<and>
       (\<forall>c p b. ProcessStateChanged c p b code \<notin> set ms))"
proof -
  have con: "ad_connected s" using assms(1,2) by (auto simp: linked_def)
  have st: "guint32 status = status" "status \<noteq> code" using assms(3-5) by (simp_all add: guint32_def)
  let ?ms = "map (\<lambda>(p, cid). ProcessStateChanged cid (guint32 p) False status) (filter (\<lambda>l. fst l = pid) (ad_listeners s))"
  have "ad_sent t = ad_sent s @ ?ms" "r = Inr ()" "ad_listeners t = filter (\<lambda>l. fst l \<noteq> pid) (ad_listeners s)"
    using assms(6) con by (auto simp: child_exit_def act_defs emit_each st)
  moreover have "ProcessStateChanged cid (guint32 pid) False status \<in> set ?ms" using assms(2) by force
  moreover have "ProcessStateChanged c p b code \<notin> set ?ms" for c p b using st(2) by auto
  moreover have "WEXITSTATUS status = code" using assms(3-5) by (simp add: WEXITSTATUS_def)
  ultimately show ?thesis by (intro conjI exI [of _ ?ms]) auto
qed

section \<open>From the command line to the exit status\<close>

definition quits :: "bus_event \<Rightarrow> bool" where
  "quits e \<longleftrightarrow> e \<in> {UnixSignal, NameLost, BusAcquired False}"

lemma handle_quits: "handle A e (s, h) = (r, (t, k)) \<Longrightarrow> ad_quit t \<Longrightarrow> ad_quit s \<or> quits e"
proof (cases e)
  case (MethodCall name params)
  assume run: "handle A e (s, h) = (r, (t, k))" and q: "ad_quit t"
  have "keeps (\<lambda>(x, w). ad_quit x = ad_quit s) (method_call A name params)"
    by (rule keepsI) (auto simp: method_call_def send_def updm_def Let_def split: prod.splits sum.splits)
  then have "keeps (\<lambda>(x, w). ad_quit x = ad_quit s) (handle A e)"
    unfolding MethodCall handle.simps by (intro keeps_intros)
  from keepsD [OF this _ run] q show ?thesis by simp
next
  case (ChildExit pid status)
  assume run: "handle A e (s, h) = (r, (t, k))" and q: "ad_quit t"
  have "keeps (\<lambda>(x, w). ad_quit x = ad_quit s) (handle A e)"
    unfolding ChildExit handle.simps child_exit_def ProcessStateChanged_emitter_def send_def
    by (intro keeps_intros keeps_case_prod keeps_updm) auto
  from keepsD [OF this _ run] q show ?thesis by simp
qed (auto simp: act_defs on_bus_acquired_def onDBusNameAcquired_def onDBusError_def on_name_lost_def signalHandler_def
    quits_def split: if_splits)

lemma dispatch_quits: "dispatch_all A es (s, h) = (r, (t, k)) \<Longrightarrow> ad_quit t \<Longrightarrow> ad_quit s \<or> (\<exists>e \<in> set es. quits e)"
proof (induction es arbitrary: s h)
  case (Cons e es)
  obtain q u h' where e: "handle A e (s, h) = (q, (u, h'))" by (rule run_exists)
  with Cons.prems(1) have "t = u \<or> dispatch_all A es (u, h') = (r, (t, k))" by (cases q) (auto simp: act_defs)
  then show ?case using Cons.IH Cons.prems(2) handle_quits [OF e] by auto
qed (simp add: act_defs)

lemma loop_quits: "main_loop A its (s, h) = (r, (t, k)) \<Longrightarrow> ad_quit t \<Longrightarrow> ad_quit s \<or> (\<exists>e \<in> set (concat its). quits e)"
proof (induction its arbitrary: s h)
  case (Cons es its)
  obtain q u h' where es: "dispatch_all A es (s, h) = (q, (u, h'))" by (rule run_exists)
  show ?case
  proof (cases "ad_quit s")
    case False
    with Cons.prems(1) es have "t = u \<or> main_loop A its (u, h') = (r, (t, k))" by (cases q) (auto simp: act_defs)
    then show ?thesis using Cons.IH [of u h'] Cons.prems(2) dispatch_quits [OF es] by (auto simp: Bex_def)
  qed simp
qed (simp add: act_defs)



section \<open>Examples\<close>

definition main_key_file :: key_file where
  "main_key_file = (let
       strings = [(SHARED_MOUNTS_DIR, ''/''), (LXC_CONFIG_PATH, ''/conf''), (BRIDGE_DEVICE, ''br0''), (BRIDGE_IP, ''10.0.3.1''),
         (BRIDGE_NETMASK, ''255.255.255.0''), (BRIDGE_NETADDR, ''10.0.3.0''), (SERVICE_MANIFEST_DIR, ''''),
         (DEFAULT_SERVICE_MANIFEST_DIR, '''')];
       ints = [(SHUTDOWN_TIMEOUT, 1), (BRIDGE_NETMASK_BITLENGTH, 24)];
       bools = [(CREATE_BRIDGE, False), (USE_SESSION_BUS, True)] in
     \<lparr>kf_groups = Some [SC_GROUP],
      kf_keys = (\<lambda>g. if g = SC_GROUP then Some (map fst strings @ map fst ints @ map fst bools) else None),
      kf_string = (\<lambda>g. map_of strings), kf_integer = (\<lambda>g. map_of ints), kf_boolean = (\<lambda>g. map_of bools)\<rparr>)"

text \<open>A shell parser that takes one command.\<close>

definition shell_agent :: "agent_env \<Rightarrow> agent_env" where
  "shell_agent A = A\<lparr>ag_platform := (ag_platform A)\<lparr>p_env := (p_env (ag_platform A))
     \<lparr>shell_parse_argv := (\<lambda>c. if c = ''cmd'' then Some [c] else None)\<rparr>\<rparr>\<rparr>"

definition main_example :: main_env where
  "main_example = \<lparr>mn_agent = shell_agent (agent_env_of (\<lambda>_. None)), mn_build = some_build, mn_config_file = ''/etc/agent.conf'',
     mn_load = (\<lambda>path. if path = ''/etc/agent.conf'' then Some main_key_file else None),
     mn_parse = (\<lambda>argv. if argv = [''agent''] then Some ('''', some_options\<lparr>opt_manifest_dir := ''''\<rparr>) else None)\<rparr>"

definition main_events :: "bus_event list list" where
  "main_events = [[BusAcquired True, NameAcquired], [MethodCall ''Create'' [VString ''[]'']],
     [MethodCall ''Execute'' [VInt 0, VString ''cmd'', VString '''', VString ''out'', VDict []]]]"

text \<open>The adaptor and the calls made when the program of the example has started.\<close>

definition main_start :: adaptor where
  "main_start = newAdaptor
     \<lparr>m_containers = [], m_containerIdPool = [0], m_filteredConfigStore = [], m_defaultConfigStore = [],
      m_containerConfig = \<lparr>shouldCreateBridge = False, bridgeDevice = ''br0'', bridgeIPAddress = ''10.0.3.1'',
        bridgeNetmask = ''255.255.255.0'', bridgeNetmaskBitLength = 24, bridgeNetAddr = ''10.0.3.0'',
        containerConfigPath = ''/conf'', sharedMountsDir = ''/'', containerShutdownTimeout = 1, writeBufferEnabled = False,
        temporaryFileSystemWriteBufferEnableds = False, temporaryFileSystemSize = 0\<rparr>,
      m_optionParser = \<lparr>o_writeBufferEnabled = False, o_temporaryFileSystemWriteBufferEnabled = False,
        o_temporaryFileSystemSize = 0\<rparr>,
      m_watched = [], m_utility = \<lparr>m_cleanupHandlers = [], m_createDirList = []\<rparr>\<rparr> True"

definition main_calls :: calls where "main_calls = [File (Stat ''/''), Lxc LxcListAll]"

lemma main_starts: "startup main_example '''' (some_options\<lparr>opt_manifest_dir := ''''\<rparr>) [] = (Inr main_start, main_calls)"
  by code_simp

lemma main_runs:
  "case main_loop (mn_agent main_example) (main_events @ [[ChildExit 77 256]]) (main_start, main_calls) of
     (Inl e, u) \<Rightarrow> False
   | (Inr x, (t, k)) \<Rightarrow> ad_sent t = [Replies [ReturnInt 0], Replies [ReturnInt 77], ProcessStateChanged 0 77 False 256] \<and>
       ad_listeners t = []"
  by code_simp

definition crashable :: "environment \<Rightarrow> int \<Rightarrow> string \<Rightarrow> adaptor \<Rightarrow> calls \<Rightarrow> bool" where
  "crashable E cid out s h = (ad_connected s \<and> \<not> ad_quit s \<and> 0 \<le> cid \<and> cid < int_max \<and>
     (case map_of (m_containers (ad_agent s)) cid of None \<Rightarrow> False
      | Some w \<Rightarrow> previouslyConfigured w \<and> sc_containerState w = Some READY \<and>
          fst (ensureContainerRunning E (sc_container w, File (OpenOutput out) # h)) = Inr True))"

text \<open>C19: a client can end the agent, and so lose all its containers: a call of \<open>Execute\<close> on a running container
  with a command line that Glib's shell parser refuses, such as one with an unbalanced quote, throws Glib's own
  exception, which the dispatcher does not catch.\<close>

theorem unparsable_command_ends_program:
  assumes "crashable (p_env (ag_platform A)) cid out s h" "shell_parse_argv (p_env (ag_platform A)) cmd = None"
  shows "fst (main_loop A ((MethodCall ''Execute'' [VInt cid, VString cmd, VString dir, VString out, VDict env] # es) # its) (s, h)) = Inl GlibError"
proof -
  let ?E = "p_env (ag_platform A)"
  obtain w where s: "ad_connected s" "\<not> ad_quit s" "0 \<le> cid" "cid < int_max" "map_of (m_containers (ad_agent s)) cid = Some w"
    "previouslyConfigured w" "sc_containerState w = Some READY"
    and r: "fst (ensureContainerRunning ?E (sc_container w, File (OpenOutput out) # h)) = Inr True"
    using assms(1) by (auto simp: crashable_def split: option.splits)
  obtain c k where run: "ensureContainerRunning ?E (sc_container w, File (OpenOutput out) # h) = (Inr True, (c, k))"
    using r by (metis prod.collapse)
  have "fst (on_method_call A ''Execute'' [VInt cid, VString cmd, VString dir, VString out, VDict env] (ad_agent s, h)) = Inl GlibError"
    using s assms(2)
    by (simp add: on_method_call_def dispatch_def bus_Execute_def agent_execute_def Let_def getContainer_def act_defs assert_run
        withContainer_def createCommandJob_def assertValidState_def job_setOutputFile_def sys_def runJobIn_def onContainer_def
        startCommandJob_def executeCommand_def run job_setEnvironmentVariables_def newJob_def is_sc_error_def)
  then obtain t k' where "on_method_call A ''Execute'' [VInt cid, VString cmd, VString dir, VString out, VDict env] (ad_agent s, h) =
      (Inl GlibError, (t, k'))"
    by (metis prod.collapse)
  with s show ?thesis by (simp add: act_defs method_call_def Let_def)
qed

lemma main_crashable:
  "case main_loop (mn_agent main_example) main_events (main_start, main_calls) of
     (Inl e, u) \<Rightarrow> False
   | (Inr x, (t, k)) \<Rightarrow> crashable (p_env (ag_platform (mn_agent main_example))) 0 ''out'' t k"
  by code_simp

section \<open>The properties on the examples\<close>


lemma exit_code_is_wait_status_witness:
  "\<exists>t. handle (mn_agent main_example) (ChildExit 77 768) (main_start\<lparr>ad_connected := True, ad_listeners := [(77, 0)]\<rparr>, main_calls) =
       (Inr (), (t, main_calls)) \<and>
     (\<exists>ms. ad_sent t = ms \<and> ProcessStateChanged 0 (guint32 77) False 768 \<in> set ms \<and> (\<forall>c p b. ProcessStateChanged c p b 3 \<notin> set ms))"
proof -
  let ?s = "main_start\<lparr>ad_connected := True, ad_listeners := [(77, 0)]\<rparr>"
  obtain t where run: "handle (mn_agent main_example) (ChildExit 77 768) (?s, main_calls) = (Inr (), (t, main_calls))"
    by (simp add: child_exit_def act_defs ProcessStateChanged_emitter_def send_def)
  have "linked ?s" "(77, 0) \<in> set (ad_listeners ?s)" "ad_sent ?s = []"
    by (simp_all add: linked_def main_start_def newAdaptor_def)
  with exit_code_is_wait_status [OF _ _ _ _ _ run, of 0 3] run show ?thesis
    by (intro exI [of _ t]) simp
qed

lemma unparsable_command_ends_program_witness:
  "\<exists>s h. main_loop (mn_agent main_example) main_events (main_start, main_calls) = (Inr (), (s, h)) \<and>
     fst (main_loop (mn_agent main_example)
       [[MethodCall ''Execute'' [VInt 0, VString [CHR 0x22], VString '''', VString ''out'', VDict []]]] (s, h)) = Inl GlibError"
proof -
  obtain r s h where loop: "main_loop (mn_agent main_example) main_events (main_start, main_calls) = (r, (s, h))"
    by (rule run_exists)
  then have r: "r = Inr ()" and c: "crashable (p_env (ag_platform (mn_agent main_example))) 0 ''out'' s h"
    using main_crashable by (auto split: sum.splits)
  have "shell_parse_argv (p_env (ag_platform (mn_agent main_example))) [CHR 0x22] = None"
    by (simp add: main_example_def shell_agent_def)
  from unparsable_command_ends_program [OF c this] loop r show ?thesis by blast
qed

end
