(* ===== verification/ConfigMemory.thy ===== *)
theory ConfigMemory
  imports StdMap
begin

text \<open>
  \<open>GatewayConfiguration\<close> of \<open>common/gatewayconfig.cpp\<close> once more, with the pointers and the reference
  counts that \<open>GatewayConfig\<close> leaves out: the map holds pointers to arrays of jansson, and every member
  function is the sequence of calls of jansson it makes. jansson is a parameter, a function from the
  calls made so far to the answer of the next one. \<open>owned\<close> is what the documentation of jansson says about references: loading and
  copying give the caller one, \<open>json_incref\<close> one more, \<open>json_decref\<close> takes one away, and
  \<open>json_array_append\<close> takes one of its own and leaves the caller's.
\<close>

section \<open>jansson\<close>

text \<open>A null pointer is 0.\<close>

type_synonym ptr = int

datatype json_call =
    JsonLoads string | JsonDeepCopy ptr | JsonArraySize ptr | JsonArrayGet ptr nat
  | JsonArrayAppend ptr ptr | JsonIncref ptr | JsonDecref ptr

text \<open>The calls with their answers, latest first.\<close>

type_synonym json_calls = "(json_call \<times> int) list"

type_synonym jansson = "json_calls \<Rightarrow> json_call \<Rightarrow> int"

definition jcall :: "jansson \<Rightarrow> json_call \<Rightarrow> (json_calls, int) act" where
  "jcall J c h = (Inr (J h c), (c, J h c) # h)"

section \<open>The member functions\<close>

type_synonym config_map = "(string, ptr) std_map"

text \<open>\<open>json_array_foreach\<close> in \<open>append\<close>: the size and the value are asked for in every round, so the loop takes
  fuel.\<close>

fun appendValues :: "jansson \<Rightarrow> nat \<Rightarrow> ptr \<Rightarrow> ptr \<Rightarrow> nat \<Rightarrow> (json_calls, bool) act" where
  "appendValues J 0 destArray sourceArray index = throw NoReturn"
| "appendValues J (Suc fuel) destArray sourceArray index =
     bnd (jcall J (JsonArraySize sourceArray)) (\<lambda>size.
       if size \<le> int index then ret True
       else bnd (jcall J (JsonArrayGet sourceArray index)) (\<lambda>v.
         if v = 0 then ret True
         else bnd (jcall J (JsonDeepCopy v)) (\<lambda>copy.
           bnd (jcall J (JsonArrayAppend destArray copy)) (\<lambda>r.
             if r < 0 then ret False else appendValues J fuel destArray sourceArray (Suc index)))))"

definition appendArray :: "jansson \<Rightarrow> nat \<Rightarrow> string \<Rightarrow> ptr \<Rightarrow> (config_map, json_calls, bool) meth" where
  "appendArray J fuel gid sourceArray =
     bnd (getm (\<lambda>m. map_of m gid)) (\<lambda>search. case search of
       Some destArray \<Rightarrow>
         bnd (ext (jcall J (JsonDeepCopy destArray))) (\<lambda>backupArray.
         bnd (ext (appendValues J fuel destArray sourceArray 0)) (\<lambda>ok.
           if ok then bnd (ext (jcall J (JsonDecref backupArray))) (\<lambda>_. ret True)
           else seq (updm (put gid backupArray))
             (bnd (ext (jcall J (JsonDecref destArray))) (\<lambda>_. ret False))))
     | None \<Rightarrow>
         bnd (ext (jcall J (JsonDeepCopy sourceArray))) (\<lambda>copy.
           seq (updm (put gid copy)) (ret True)))"

definition appendText :: "jansson \<Rightarrow> nat \<Rightarrow> string \<Rightarrow> string \<Rightarrow> (config_map, json_calls, bool) meth" where
  "appendText J fuel gid jsonConf =
     bnd (ext (jcall J (JsonLoads jsonConf))) (\<lambda>json.
       if json = 0 then ret False
       else bnd (appendArray J fuel gid json) (\<lambda>r.
         bnd (ext (jcall J (JsonDecref json))) (\<lambda>_. ret r)))"

text \<open>The entries are those of the source when the call is made: an append to an ID that is there keeps
  the map's keys.\<close>

definition appendConfiguration :: "jansson \<Rightarrow> nat \<Rightarrow> config_map \<Rightarrow> (config_map, json_calls, bool) meth" where
  "appendConfiguration J fuel source = all_ok (\<lambda>(gid, arr). appendArray J fuel gid arr) source"

definition copyConstructor :: "jansson \<Rightarrow> nat \<Rightarrow> config_map \<Rightarrow> (config_map, json_calls, unit) meth" where
  "copyConstructor J fuel gwConf =
     bnd (appendConfiguration J fuel gwConf) (\<lambda>ok. if \<not> ok then throw SoftwareContainerError else ret ())"

definition assignOperator :: "jansson \<Rightarrow> config_map \<Rightarrow> (config_map, json_calls, unit) meth" where
  "assignOperator J gwConf =
     seq (updm (\<lambda>_. gwConf))
       (for_each (\<lambda>item. bnd (ext (jcall J (JsonIncref (snd item)))) (\<lambda>_. ret ())) gwConf)"

text \<open>The destructor; the map goes with the object.\<close>

definition destructor :: "jansson \<Rightarrow> (config_map, json_calls, unit) meth" where
  "destructor J =
     bnd (getm (\<lambda>m. m)) (\<lambda>m.
       seq (for_each (\<lambda>it. bnd (ext (jcall J (JsonDecref (snd it)))) (\<lambda>_. ret ())) m) (updm (\<lambda>_. [])))"

definition configPointer :: "jansson \<Rightarrow> string \<Rightarrow> (config_map, json_calls, ptr) meth" where
  "configPointer J gid = bnd (getm (\<lambda>m. map_of m gid)) (\<lambda>search. case search of
       None \<Rightarrow> ret 0
     | Some arr \<Rightarrow> ext (jcall J (JsonDeepCopy arr)))"

section \<open>Programs over configurations\<close>

text \<open>Objects are numbered as they are made; a destroyed one keeps its number and its map is empty.
  \<open>given\<close> are the copies \<open>config\<close> has handed out, which the caller releases.\<close>

record config_heap =
  objs :: "config_map list"
  given :: "ptr list"
  jcalls :: json_calls

datatype config_op =
    New | Copy nat | Assign nat nat | Destroy nat
  | AppendArray nat string ptr | AppendText nat string string | AppendConfiguration nat nat
  | Config nat string | Release ptr

definition with_obj :: "nat \<Rightarrow> (config_map, json_calls, 'a) meth \<Rightarrow> (config_heap, 'a) act" where
  "with_obj i m s = (case m (objs s ! i, jcalls s) of
     (r, (x, h)) \<Rightarrow> (r, s\<lparr>objs := (objs s)[i := x], jcalls := h\<rparr>))"

definition with_calls :: "(json_calls, 'a) act \<Rightarrow> (config_heap, 'a) act" where
  "with_calls m s = (case m (jcalls s) of (r, h) \<Rightarrow> (r, s\<lparr>jcalls := h\<rparr>))"

text \<open>An operation on an object that is not there is no operation of a C++ program; it does nothing here.
  The object a constructor throws for does not come to be.\<close>

fun config_step :: "jansson \<Rightarrow> nat \<Rightarrow> config_op \<Rightarrow> (config_heap, unit) act" where
  "config_step J fuel New s = (Inr (), s\<lparr>objs := objs s @ [[]]\<rparr>)"
| "config_step J fuel (Copy j) s =
     (if j < length (objs s) then
        (case copyConstructor J fuel (objs s ! j) ([], jcalls s) of
           (Inl e, (x, h)) \<Rightarrow> (Inl e, s\<lparr>jcalls := h\<rparr>)
         | (Inr _, (x, h)) \<Rightarrow> (Inr (), s\<lparr>objs := objs s @ [x], jcalls := h\<rparr>))
      else (Inr (), s))"
| "config_step J fuel (Assign i j) s =
     (if i < length (objs s) \<and> j < length (objs s) then with_obj i (assignOperator J (objs s ! j)) s else (Inr (), s))"
| "config_step J fuel (Destroy i) s =
     (if i < length (objs s) then with_obj i (destructor J) s else (Inr (), s))"
| "config_step J fuel (AppendArray i gid arr) s =
     (if i < length (objs s) then with_obj i (bnd (appendArray J fuel gid arr) (\<lambda>_. ret ())) s else (Inr (), s))"
| "config_step J fuel (AppendText i gid txt) s =
     (if i < length (objs s) then with_obj i (bnd (appendText J fuel gid txt) (\<lambda>_. ret ())) s else (Inr (), s))"
| "config_step J fuel (AppendConfiguration i j) s =
     (if i < length (objs s) \<and> j < length (objs s)
      then with_obj i (bnd (appendConfiguration J fuel (objs s ! j)) (\<lambda>_. ret ())) s else (Inr (), s))"
| "config_step J fuel (Config i gid) s =
     (if i < length (objs s) then
        (case with_obj i (configPointer J gid) s of
           (Inl e, t) \<Rightarrow> (Inl e, t)
         | (Inr p, t) \<Rightarrow> (Inr (), if has_key gid (objs s ! i) then t\<lparr>given := p # given t\<rparr> else t))
      else (Inr (), s))"
| "config_step J fuel (Release p) s =
     (if p \<in> set (given s)
      then bnd (with_calls (jcall J (JsonDecref p))) (\<lambda>_. \<lambda>t. (Inr (), t\<lparr>given := remove1 p (given t)\<rparr>)) s
      else (Inr (), s))"

definition config_run :: "jansson \<Rightarrow> nat \<Rightarrow> config_op list \<Rightarrow> (config_heap, unit) act" where
  "config_run J fuel = for_each (config_step J fuel)"

definition no_objects :: config_heap where
  "no_objects = \<lparr>objs = [], given = [], jcalls = []\<rparr>"


section \<open>References\<close>

text \<open>The references to a pointer the program owns after some calls.\<close>

fun gains :: "json_call \<Rightarrow> int \<Rightarrow> ptr \<Rightarrow> int" where
  "gains (JsonLoads t) r p = of_bool (r = p)"
| "gains (JsonDeepCopy q) r p = of_bool (r = p)"
| "gains (JsonIncref q) r p = of_bool (q = p)"
| "gains (JsonDecref q) r p = - of_bool (q = p)"
| "gains _ r p = 0"

fun owned :: "json_calls \<Rightarrow> ptr \<Rightarrow> int" where
  "owned [] p = 0"
| "owned ((c, r) # h) p = owned h p + gains c r p"

text \<open>References are only released, and shared, while they are owned, and arrays only grow while the
  program owns them and what it puts into them.\<close>

fun safe_call :: "json_call \<Rightarrow> json_calls \<Rightarrow> bool" where
  "safe_call (JsonIncref q) h \<longleftrightarrow> 0 < owned h q"
| "safe_call (JsonDecref q) h \<longleftrightarrow> 0 < owned h q"
| "safe_call (JsonArrayAppend a v) h \<longleftrightarrow> 0 < owned h a \<and> 0 < owned h v"
| "safe_call _ h \<longleftrightarrow> True"

fun safe_calls :: "json_calls \<Rightarrow> bool" where
  "safe_calls [] \<longleftrightarrow> True"
| "safe_calls ((c, r) # h) \<longleftrightarrow> safe_call c h \<and> safe_calls h"

text \<open>What an object and a heap hold.\<close>

definition held :: "config_map \<Rightarrow> ptr \<Rightarrow> nat" where
  "held m p = count_list (map snd m) p"

definition held_by :: "config_map list \<Rightarrow> ptr \<Rightarrow> nat" where
  "held_by ms p = sum_list (map (\<lambda>m. held m p) ms)"

lemma held_simps [simp]: "held [] p = 0" "held ((k, q) # m) p = held m p + of_bool (q = p)"
  by (simp_all add: held_def)

lemma held_by_simps [simp]: "held_by [] p = 0" "held_by (m # ms) p = held m p + held_by ms p"
  "held_by (ms @ ns) p = held_by ms p + held_by ns p"
  by (simp_all add: held_by_def)

lemma ordered_absent: "ordered ((a, b) # m) \<Longrightarrow> k < a \<Longrightarrow> map_of m k = None"
  unfolding ordered_def by (force simp: map_of_eq_None_iff dest: order.strict_trans)

lemma held_put:
  "ordered m \<Longrightarrow> held (put k v m) p + (case map_of m k of None \<Rightarrow> 0 | Some q \<Rightarrow> of_bool (q = p)) = held m p + of_bool (v = p)"
proof (induction k v m rule: put.induct)
  case (2 k v a b m)
  then have "ordered m" by (simp add: ordered_def)
  with 2 show ?case by (auto simp: ordered_absent split: option.splits)
qed simp

lemma held_pos: "map_of m k = Some q \<Longrightarrow> 0 < held m q"
  by (induction m) (auto split: if_splits)

lemma sum_update:
  fixes f :: "'a \<Rightarrow> nat"
  shows "i < length ms \<Longrightarrow> sum_list (map f (ms[i := x])) + f (ms ! i) = sum_list (map f ms) + f x"
  by (induction ms arbitrary: i) (auto split: nat.split simp: nth_Cons')

lemma held_by_update:
  "i < length ms \<Longrightarrow> held_by (ms[i := x]) p + held (ms ! i) p = held_by ms p + held x p"
  unfolding held_by_def by (rule sum_update)

text \<open>An object with the calls, where \<open>R p\<close> references are spoken for by others.\<close>

definition backed :: "(ptr \<Rightarrow> int) \<Rightarrow> config_map \<times> json_calls \<Rightarrow> bool" where
  "backed R x \<longleftrightarrow> ordered (fst x) \<and> safe_calls (snd x) \<and> (\<forall>p. 0 \<le> R p \<and> R p + int (held (fst x) p) \<le> owned (snd x) p)"

lemma safe_nonneg: "safe_calls h \<Longrightarrow> 0 \<le> owned h p"
proof (induction h)
  case (Cons x h)
  obtain c r where "x = (c, r)" by force
  with Cons show ?case by (cases c) auto
qed simp

definition grown :: "(ptr \<Rightarrow> int) \<Rightarrow> ptr \<Rightarrow> json_calls \<Rightarrow> bool" where
  "grown R dest h \<longleftrightarrow> safe_calls h \<and> 0 < owned h dest \<and> (\<forall>p. R p \<le> owned h p)"

lemma grown_call: "grown R dest h \<Longrightarrow> \<forall>p. 0 \<le> gains c r p \<Longrightarrow> safe_call c h \<Longrightarrow> grown R dest ((c, r) # h)"
  unfolding grown_def by (auto intro: add_pos_nonneg add_increasing2)

lemma appendValues_grows: "grown R dest h \<Longrightarrow> grown R dest (snd (appendValues J fuel dest src index h))"
proof (induction fuel arbitrary: index h)
  case (Suc fuel)
  have "grown R dest ((JsonArrayAppend dest c, r) # (JsonDeepCopy v, c) # h)" if "grown R dest h" for c r v h
  proof (rule grown_call)
    show "grown R dest ((JsonDeepCopy v, c) # h)" using that by (rule grown_call) simp_all
    show "safe_call (JsonArrayAppend dest c) ((JsonDeepCopy v, c) # h)"
      using that safe_nonneg [of h c] by (auto simp: grown_def)
  qed simp
  then have cp: "grown R dest ((JsonArrayAppend dest c, r) # (JsonDeepCopy v, c) # (JsonArrayGet src index, v') # (JsonArraySize src, n) # h)"
    and "grown R dest ((JsonArrayGet src index, v') # (JsonArraySize src, n) # h)"
    and "grown R dest ((JsonArraySize src, n) # h)" for c r v v' n
    using Suc.prems by (simp_all add: grown_call)
  with Suc.IH show ?case by (simp add: act_defs jcall_def)
qed (simp add: act_defs)

text \<open>The rule for a method that makes a call of its own: what the call gives is spoken for by the rest.\<close>

lemma backed_call:
  assumes "backed R (m, h)" "safe_call c h" "\<forall>p. 0 \<le> R p + gains c r p"
  shows "backed (\<lambda>p. R p + gains c r p) (m, (c, r) # h)"
  using assms by (auto simp: backed_def algebra_simps)

lemma backed_gain: "backed R (m, h) \<Longrightarrow> backed R (m, (JsonLoads t, r) # h)"
  by (auto simp: backed_def intro: add_increasing2)

lemma backed_weaken: "backed R x \<Longrightarrow> \<forall>p. 0 \<le> R' p \<and> R' p \<le> R p \<Longrightarrow> backed R' x"
  unfolding backed_def by (meson add_mono order_refl order_trans)

lemma backed_owned: "backed R (m, h) \<Longrightarrow> map_of m gid = Some q \<Longrightarrow> 0 < owned h q"
proof -
  assume "backed R (m, h)" "map_of m gid = Some q"
  then have "0 \<le> R q" "R q + int (held m q) \<le> owned h q" "0 < held m q"
    by (auto simp: backed_def held_pos)
  then show ?thesis by linarith
qed

lemma backed_appendArray:
  assumes R: "backed R (m, h)"
  shows "backed R (snd (appendArray J fuel gid src (m, h)))"
proof (cases "map_of m gid")
  case None
  let ?c = "J h (JsonDeepCopy src)"
  have "int (held (put gid ?c m) p) = int (held m p) + of_bool (?c = p)" for p
    using held_put [of m gid ?c p] R None by (auto simp: backed_def)
  then show ?thesis using R None by (simp add: appendArray_def act_defs jcall_def backed_def)
next
  case (Some dest)
  let ?b = "J h (JsonDeepCopy dest)"
  let ?h1 = "(JsonDeepCopy dest, ?b) # h"
  let ?R = "\<lambda>p. R p + int (held m p) + of_bool (?b = p)"
  have "grown ?R dest ?h1"
    using R backed_owned [OF R Some] by (simp add: grown_def backed_def)
  from appendValues_grows [OF this] have g: "grown ?R dest (snd (appendValues J fuel dest src 0 ?h1))" .
  obtain r h2 where run: "appendValues J fuel dest src 0 ?h1 = (r, h2)" by force
  with g have h2: "safe_calls h2" "\<And>p. ?R p \<le> owned h2 p" by (auto simp: grown_def)
  have nonneg: "0 \<le> R p" for p using R by (simp add: backed_def)
  have pos: "0 < owned h2 ?b" "0 < owned h2 dest"
    using h2(2) [of ?b] nonneg [of ?b] g run by (simp_all add: grown_def)
  have le: "R p + int (held m p) \<le> owned h2 p - of_bool (?b = p)" for p using h2(2) [of p] by simp
  have le': "R p + int (held (put gid ?b m) p) \<le> owned h2 p - of_bool (dest = p)" for p
  proof -
    have "held (put gid ?b m) p + of_bool (dest = p) = held m p + of_bool (?b = p)"
      using held_put [of m gid ?b p] R Some by (simp add: backed_def)
    then have "int (held (put gid ?b m) p) + of_bool (dest = p) = int (held m p) + of_bool (?b = p)"
      by (metis of_nat_add of_nat_of_bool)
    then show ?thesis using h2(2) [of p] by linarith
  qed
  have le'': "R p + int (held m p) \<le> owned h2 p" for p using le [of p] by (simp add: of_bool_def split: if_splits)
  have "ordered m" using R by (simp add: backed_def)
  with le le' le'' h2(1) pos nonneg have "backed R (m, (JsonDecref ?b, d) # h2)"
    "backed R (put gid ?b m, (JsonDecref dest, d) # h2)" "backed R (m, h2)" for d
    by (simp_all add: backed_def)
  then show ?thesis
    using Some run by (auto simp: appendArray_def act_defs jcall_def split: sum.split)
qed

lemma keeps_appendArray: "keeps (backed R) (appendArray J fuel gid src)"
  by (rule keepsI) (auto simp: backed_appendArray)

lemma keeps_appendConfiguration: "keeps (backed R) (appendConfiguration J fuel src)"
  unfolding appendConfiguration_def by (intro keeps_intros keeps_appendArray)

lemma keeps_copyConstructor: "keeps (backed R) (copyConstructor J fuel src)"
  unfolding copyConstructor_def by (intro keeps_intros keeps_appendConfiguration)

lemma backed_appendText:
  assumes R: "backed R (m, h)"
  shows "backed R (snd (appendText J fuel gid txt (m, h)))"
proof -
  let ?j = "J h (JsonLoads txt)"
  let ?h1 = "(JsonLoads txt, ?j) # h"
  let ?R = "\<lambda>p. R p + gains (JsonLoads txt) ?j p"
  have nonneg: "0 \<le> R p" for p using R by (simp add: backed_def)
  then have R1: "backed ?R (m, ?h1)" using R by (intro backed_call) (simp_all add: add_nonneg_nonneg)
  obtain r m2 h2 where run: "appendArray J fuel gid ?j (m, ?h1) = (r, (m2, h2))" by (metis prod.collapse)
  have R2: "backed ?R (m2, h2)" using backed_appendArray [OF R1, of J fuel gid ?j] run by simp
  then have "?R ?j + int (held m2 ?j) \<le> owned h2 ?j" unfolding backed_def fst_conv snd_conv by blast
  then have "0 < owned h2 ?j" using nonneg [of ?j] by simp
  then have dec: "backed R (m2, (JsonDecref ?j, d) # h2)" for d
    using backed_call [OF R2, of "JsonDecref ?j" d] nonneg by simp
  have "backed R (m, ?h1)" "backed R (m2, h2)" using backed_weaken [OF R1] backed_weaken [OF R2] nonneg by simp_all
  then show ?thesis
    using run dec by (auto simp: appendText_def act_defs jcall_def split: sum.split)
qed

lemma keeps_appendText: "keeps (backed R) (appendText J fuel gid t)"
  by (rule keepsI) (auto simp: backed_appendText)

text \<open>Taking or giving back a reference to every entry of a map.\<close>

definition ref_each :: "jansson \<Rightarrow> (ptr \<Rightarrow> json_call) \<Rightarrow> config_map \<Rightarrow> (config_map, json_calls, unit) meth" where
  "ref_each J c m = for_each (\<lambda>it. bnd (ext (jcall J (c (snd it)))) (\<lambda>_. ret ())) m"

lemma increfs:
  assumes "safe_calls h" "\<forall>p \<in> set (map snd m). 0 < owned h p"
  shows "\<exists>h'. ref_each J JsonIncref m (x, h) = (Inr (), (x, h')) \<and> safe_calls h' \<and> (\<forall>p. owned h' p = owned h p + int (held m p))"
  using assms
proof (induction m arbitrary: h)
  case (Cons it m)
  let ?h = "(JsonIncref (snd it), J h (JsonIncref (snd it))) # h"
  have "\<forall>p \<in> set (map snd m). 0 < owned ?h p" using Cons.prems(2) by (auto simp: less_imp_le)
  with Cons.IH [of ?h] Cons.prems obtain h' where
    "ref_each J JsonIncref m (x, ?h) = (Inr (), (x, h'))" "safe_calls h'" "\<forall>p. owned h' p = owned ?h p + int (held m p)"
    by auto
  then show ?case by (cases it) (simp add: ref_each_def act_defs jcall_def)
qed (simp add: ref_each_def act_defs)

lemma decrefs:
  assumes "safe_calls h" "\<forall>p. int (held m p) \<le> owned h p"
  shows "\<exists>h'. ref_each J JsonDecref m (x, h) = (Inr (), (x, h')) \<and> safe_calls h' \<and> (\<forall>p. owned h' p = owned h p - int (held m p))"
  using assms
proof (induction m arbitrary: h)
  case (Cons it m)
  obtain k q where it: "it = (k, q)" by (cases it)
  let ?h = "(JsonDecref q, J h (JsonDecref q)) # h"
  have "0 < owned h q" using Cons.prems(2) [rule_format, of q] by (simp add: it)
  moreover have "int (held m p) \<le> owned ?h p" for p using Cons.prems(2) [rule_format, of p] by (simp add: it)
  ultimately obtain h' where
    "ref_each J JsonDecref m (x, ?h) = (Inr (), (x, h'))" "safe_calls h'" "\<forall>p. owned h' p = owned ?h p - int (held m p)"
    using Cons.IH [of ?h] Cons.prems(1) by auto
  then show ?case by (simp add: it ref_each_def act_defs jcall_def)
qed (simp add: ref_each_def act_defs)

lemma held_in: "p \<in> set (map snd m) \<longleftrightarrow> 0 < held m p"
  by (metis count_list_0_iff held_def neq0_conv)

text \<open>Assigning a map whose entries are owned, and destroying an object.\<close>

lemma backed_assign:
  assumes R: "backed R (m, h)" and src: "\<forall>p. int (held src p) \<le> owned h p" "ordered src" and le: "\<forall>p. R p \<le> owned h p"
  shows "backed R (snd (assignOperator J src (m, h)))"
proof -
  have "\<forall>p \<in> set (map snd src). 0 < owned h p"
  proof
    fix p assume "p \<in> set (map snd src)"
    then have "0 < int (held src p)" by (simp only: held_in of_nat_0_less_iff)
    then show "0 < owned h p" using src(1) [rule_format, of p] by linarith
  qed
  with R obtain h' where "ref_each J JsonIncref src (src, h) = (Inr (), (src, h'))" "safe_calls h'"
    "\<forall>p. owned h' p = owned h p + int (held src p)"
    using increfs [of h src J src] by (auto simp: backed_def)
  then show ?thesis
    using R src(2) le by (simp add: assignOperator_def act_defs ref_each_def backed_def)
qed

lemma backed_destructor:
  assumes R: "backed R (m, h)"
  shows "\<exists>h'. destructor J (m, h) = (Inr (), ([], h')) \<and> backed R ([], h') \<and> (\<forall>p. owned h' p = owned h p - int (held m p))"
proof -
  have "\<forall>p. int (held m p) \<le> owned h p"
    using R unfolding backed_def by (metis add_increasing fst_conv order_trans snd_conv order_refl)
  with R obtain h' where h': "ref_each J JsonDecref m (m, h) = (Inr (), (m, h'))" "safe_calls h'"
    "\<forall>p. owned h' p = owned h p - int (held m p)"
    using decrefs [of h m J m] by (auto simp: backed_def)
  moreover have "R p \<le> owned h p - int (held m p)" "0 \<le> R p" for p
    using R by (simp_all add: backed_def le_diff_eq)
  ultimately show ?thesis
    by (simp add: destructor_def act_defs ref_each_def backed_def)
qed

section \<open>No reference is missing\<close>

definition sound :: "config_heap \<Rightarrow> bool" where
  "sound s \<longleftrightarrow> (\<forall>m \<in> set (objs s). ordered m) \<and> safe_calls (jcalls s) \<and>
     (\<forall>p. int (held_by (objs s) p) + int (count_list (given s) p) \<le> owned (jcalls s) p)"

text \<open>What the other objects and the callers hold.\<close>

definition others :: "nat \<Rightarrow> config_heap \<Rightarrow> ptr \<Rightarrow> int" where
  "others i s p = int (held_by (objs s) p) - int (held (objs s ! i) p) + int (count_list (given s) p)"

lemma held_le: "i < length ms \<Longrightarrow> held (ms ! i) p \<le> held_by ms p"
  unfolding held_by_def by (rule member_le_sum_list) auto

lemma others_nonneg: "i < length (objs s) \<Longrightarrow> 0 \<le> others i s p"
  using held_le [of i "objs s" p] by (simp add: others_def)

lemma sound_backed:
  assumes "sound s" "i < length (objs s)"
  shows "backed (others i s) (objs s ! i, jcalls s)"
proof -
  have "others i s p + int (held (objs s ! i) p) \<le> owned (jcalls s) p" for p
    using assms(1) by (simp add: sound_def others_def)
  then show ?thesis using assms others_nonneg [OF assms(2)] by (simp add: sound_def backed_def)
qed

lemma backed_sound:
  assumes "backed (others i s) (x, h)" "sound s" "i < length (objs s)"
  shows "sound (s\<lparr>objs := (objs s)[i := x], jcalls := h\<rparr>)"
proof -
  have "int (held_by ((objs s)[i := x]) p) + int (count_list (given s) p) \<le> owned h p" for p
  proof -
    have "int (held_by ((objs s)[i := x]) p) + int (held (objs s ! i) p) = int (held_by (objs s) p) + int (held x p)"
      using held_by_update [OF assms(3), of x p] by (metis of_nat_add)
    moreover have "others i s p + int (held x p) \<le> owned h p" using assms(1) by (simp add: backed_def)
    ultimately show ?thesis unfolding others_def by linarith
  qed
  then show ?thesis
    using assms by (auto simp: sound_def backed_def dest: set_update_subset_insert [THEN subsetD])
qed

lemma keeps_with_obj:
  assumes "\<And>R. keeps (backed R) m" "sound s" "i < length (objs s)"
  shows "sound (snd (with_obj i m s))"
proof -
  obtain r x h where run: "m (objs s ! i, jcalls s) = (r, (x, h))" by (rule run_exists)
  have "backed (others i s) (x, h)" using keepsD [OF assms(1) sound_backed [OF assms(2,3)] run] .
  from backed_sound [OF this assms(2,3)] show ?thesis by (simp add: with_obj_def run)
qed

lemma keeps_bnd_unit: "(\<And>R. keeps (backed R) m) \<Longrightarrow> keeps (backed R) (bnd m (\<lambda>_. ret ()))"
  by (intro keeps_intros) auto

lemma sound_copy:
  assumes s: "sound s"
  shows "sound (snd (config_step J fuel (Copy j) s))"
proof (cases "j < length (objs s)")
  case True
  let ?R = "\<lambda>p. int (held_by (objs s) p) + int (count_list (given s) p)"
  obtain r x h where run: "copyConstructor J fuel (objs s ! j) ([], jcalls s) = (r, (x, h))" by (rule run_exists)
  have "backed ?R ([], jcalls s)" using s by (simp add: sound_def backed_def)
  from keepsD [OF keeps_copyConstructor this run] have b: "backed ?R (x, h)" .
  then have "?R p \<le> owned h p" for p unfolding backed_def fst_conv snd_conv by (meson add_increasing2 order_trans of_nat_0_le_iff order_refl le_add_same_cancel1)
  with b s True run show ?thesis by (cases r) (auto simp: sound_def backed_def algebra_simps)
qed (simp add: s)

lemma sound_assign:
  assumes s: "sound s" and i: "i < length (objs s)" "j < length (objs s)"
  shows "sound (snd (with_obj i (assignOperator J (objs s ! j)) s))"
proof -
  let ?m = "assignOperator J (objs s ! j)"
  obtain r x h where run: "?m (objs s ! i, jcalls s) = (r, (x, h))" by (rule run_exists)
  have all: "int (held_by (objs s) p) + int (count_list (given s) p) \<le> owned (jcalls s) p" for p
    using s by (simp add: sound_def)
  have "int (held (objs s ! j) p) \<le> owned (jcalls s) p" for p
    using all [of p] held_le [OF i(2), of p] by linarith
  moreover have "others i s p \<le> owned (jcalls s) p" for p
    using all [of p] unfolding others_def by linarith
  moreover have "ordered (objs s ! j)" using s i by (simp add: sound_def)
  ultimately have "backed (others i s) (snd (?m (objs s ! i, jcalls s)))"
    by (intro backed_assign sound_backed s i) simp_all
  from backed_sound [OF this [unfolded run snd_conv] s i(1)] show ?thesis by (simp add: with_obj_def run)
qed

lemma sound_destroy:
  assumes s: "sound s" and i: "i < length (objs s)"
  shows "sound (snd (with_obj i (destructor J) s))"
proof -
  from backed_destructor [OF sound_backed [OF s i]] obtain h where
    "destructor J (objs s ! i, jcalls s) = (Inr (), ([], h))" "backed (others i s) ([], h)" by blast
  with backed_sound [OF _ s i, of "[]" h] show ?thesis by (simp add: with_obj_def)
qed

lemma sound_config:
  assumes s: "sound s"
  shows "sound (snd (config_step J fuel (Config i gid) s))"
proof (cases "i < length (objs s) \<and> has_key gid (objs s ! i)")
  case True
  then obtain a where "map_of (objs s ! i) gid = Some a" by (auto simp: has_key_def)
  with s True show ?thesis
    by (auto simp: with_obj_def configPointer_def act_defs jcall_def has_key_def sound_def list_update_id)
next
  case False
  then have "config_step J fuel (Config i gid) s = (Inr (), s)"
    by (auto simp: with_obj_def configPointer_def act_defs has_key_def list_update_id)
  then show ?thesis using s by simp
qed

lemma count_remove1: "p \<in> set xs \<Longrightarrow> count_list (remove1 p xs) q + of_bool (p = q) = count_list xs q"
  by (induction xs) auto

lemma sound_release:
  assumes s: "sound s"
  shows "sound (snd (config_step J fuel (Release p) s))"
proof (cases "p \<in> set (given s)")
  case True
  let ?g = "given s" and ?h = "jcalls s"
  have cnt: "int (count_list (remove1 p ?g) q) = int (count_list ?g q) - of_bool (p = q)" for q
    using count_remove1 [OF True, of q] by (auto simp: of_bool_def split: if_splits)
  have all: "int (held_by (objs s) q) + int (count_list ?g q) \<le> owned ?h q" for q using s by (simp add: sound_def)
  have "0 < count_list ?g p" using True by (metis count_list_0_iff neq0_conv)
  then have "0 < owned ?h p" using all [of p] by linarith
  moreover have le: "int (held_by (objs s) q) + int (count_list (remove1 p ?g) q) \<le> owned ?h q - of_bool (p = q)" for q
    unfolding cnt using all [of q] by linarith
  ultimately show ?thesis
    using s True le by (simp add: bnd_def with_calls_def jcall_def sound_def)
qed (simp add: s)

lemma keeps_sound_step: "keeps sound (config_step J fuel op)"
proof (rule keepsI)
  fix s assume s: "sound s"
  show "sound (snd (config_step J fuel op s))"
  proof (cases op)
    case New
    then show ?thesis using s by (simp add: sound_def)
  next
    case (AppendArray i gid arr)
    then show ?thesis using s keeps_with_obj [OF keeps_bnd_unit [OF keeps_appendArray] s] by simp
  next
    case (AppendText i gid t)
    then show ?thesis using s keeps_with_obj [OF keeps_bnd_unit [OF keeps_appendText] s] by simp
  next
    case (AppendConfiguration i j)
    then show ?thesis using s keeps_with_obj [OF keeps_bnd_unit [OF keeps_appendConfiguration] s] by simp
  qed (use s sound_copy sound_assign sound_destroy sound_config sound_release in simp_all)
qed

text \<open>C7: whatever operations are run on configurations, and whatever jansson answers, every pointer in a
  live configuration or in the hands of a caller of \<open>config\<close> is backed by a reference of its own, and
  no call releases, shares or appends to an array the program has no reference to: there is no
  dangling pointer and no double release, not even in an operation that does not return.\<close>

theorem configuration_never_dangles:
  "let s = snd (config_run J fuel ops no_objects) in
     safe_calls (jcalls s) \<and> (\<forall>p. int (held_by (objs s) p) + int (count_list (given s) p) \<le> owned (jcalls s) p)"
proof -
  have "keeps sound (config_run J fuel ops)"
    unfolding config_run_def by (intro keeps_intros keeps_sound_step)
  moreover have "sound no_objects" by (simp add: no_objects_def sound_def)
  ultimately have "sound (snd (config_run J fuel ops no_objects))" by (rule keepsD2)
  then show ?thesis by (simp add: sound_def Let_def)
qed

section \<open>What is never released\<close>

text \<open>References taken less references released, and arrays appended to; a failed \<open>json_loads\<close> gives none.\<close>

fun change :: "json_call \<Rightarrow> int \<Rightarrow> int" where
  "change (JsonLoads t) r = of_bool (r \<noteq> 0)"
| "change (JsonDeepCopy q) r = 1"
| "change (JsonIncref q) r = 1"
| "change (JsonDecref q) r = - 1"
| "change _ r = 0"

fun balance :: "json_calls \<Rightarrow> int" where
  "balance [] = 0"
| "balance ((c, r) # h) = balance h + change c r"

fun is_append :: "json_call \<Rightarrow> bool" where
  "is_append (JsonArrayAppend a v) = True"
| "is_append _ = False"

definition appended :: "json_calls \<Rightarrow> nat" where
  "appended h = length (filter (\<lambda>(c, r). is_append c) h)"

definition leaked :: "config_heap \<Rightarrow> int" where
  "leaked s = balance (jcalls s) - int (sum_list (map length (objs s))) - int (length (given s))"

text \<open>An object's part of it: what stays the same where nothing but appended elements is lost.\<close>

definition level :: "int \<Rightarrow> config_map \<times> json_calls \<Rightarrow> bool" where
  "level n x \<longleftrightarrow> ordered (fst x) \<and> balance (snd x) - int (length (fst x)) - int (appended (snd x)) = n"

lemma length_put: "ordered m \<Longrightarrow> length (put k v m) = length m + (if map_of m k = None then 1 else 0)"
proof (induction k v m rule: put.induct)
  case (2 k v a b m)
  then have "ordered m" by (simp add: ordered_def)
  with 2 show ?case using ordered_absent [of a b m k] by auto
qed simp

lemma appended_simps [simp]: "appended [] = 0" "appended ((c, r) # h) = appended h + of_bool (is_append c)"
  by (simp_all add: appended_def)

lemma appendValues_level:
  "balance (snd (appendValues J fuel dest src index h)) - int (appended (snd (appendValues J fuel dest src index h)))
     = balance h - int (appended h)"
  by (induction fuel arbitrary: index h) (simp_all add: act_defs jcall_def)

lemma level_appendArray: "triple (level n) (appendArray J fuel gid src) (\<lambda>_. level n) (\<lambda>_ _. True)"
  unfolding triple_def
proof (intro allI impI)
  fix x assume x: "level n x"
  obtain m h where mh: "x = (m, h)" by force
  show "case appendArray J fuel gid src x of (Inl e, t) \<Rightarrow> True | (Inr a, t) \<Rightarrow> level n t"
  proof (cases "map_of m gid")
    case None
    then show ?thesis using x by (simp add: mh appendArray_def act_defs jcall_def level_def length_put)
  next
    case (Some dest)
    let ?h = "(JsonDeepCopy dest, J h (JsonDeepCopy dest)) # h"
    obtain r h2 where run: "appendValues J fuel dest src 0 ?h = (r, h2)" by force
    from appendValues_level [of J fuel dest src 0 ?h] have "balance h2 - int (appended h2) = balance h + 1 - int (appended h)"
      by (simp add: run)
    then show ?thesis
      using x Some by (auto simp: mh run appendArray_def act_defs jcall_def level_def length_put split: sum.split)
  qed
qed

lemma triple_all_ok: "(\<And>x. triple P (f x) (\<lambda>_. P) (\<lambda>_ _. True)) \<Longrightarrow> triple P (all_ok f xs) (\<lambda>_. P) (\<lambda>_ _. True)"
  by (induction xs) (auto intro!: triple_ret triple_andThen intro: triple_post)

lemma level_appendConfiguration: "triple (level n) (appendConfiguration J fuel src) (\<lambda>_. level n) (\<lambda>_ _. True)"
  unfolding appendConfiguration_def by (rule triple_all_ok) (auto intro: level_appendArray)

lemma level_copyConstructor: "triple (level n) (copyConstructor J fuel src) (\<lambda>_. level n) (\<lambda>_ _. True)"
  unfolding copyConstructor_def
  by (rule triple_bnd [OF level_appendConfiguration]) (auto intro!: triple_if triple_ret triple_throw)

lemma level_appendText: "triple (level n) (appendText J fuel gid t) (\<lambda>_. level n) (\<lambda>_ _. True)"
  unfolding triple_def
proof (intro allI impI)
  fix x assume x: "level n x"
  obtain m h where mh: "x = (m, h)" by force
  let ?j = "J h (JsonLoads t)"
  let ?h = "(JsonLoads t, ?j) # h"
  obtain r y k where run: "appendArray J fuel gid ?j (m, ?h) = (r, (y, k))" by (rule run_exists)
  have "?j \<noteq> 0 \<Longrightarrow> level (n + 1) (m, ?h)" using x by (simp add: mh level_def)
  with tripleD [OF level_appendArray _ run, of "n + 1"] x
  show "case appendText J fuel gid t x of (Inl e, t) \<Rightarrow> True | (Inr a, t) \<Rightarrow> level n t"
    by (auto simp: mh run appendText_def act_defs jcall_def level_def split: sum.splits)
qed

lemma ref_each_level:
  "(\<And>q r. change (c q) r = d) \<Longrightarrow> (\<And>q. \<not> is_append (c q)) \<Longrightarrow>
   \<exists>h'. ref_each J c m (x, h) = (Inr (), (x, h')) \<and> balance h' = balance h + d * int (length m) \<and> appended h' = appended h"
proof (induction m arbitrary: h)
  case (Cons it m)
  from Cons.IH [OF Cons.prems, of "(c (snd it), J h (c (snd it))) # h"] Cons.prems show ?case
    by (auto simp: ref_each_def act_defs jcall_def algebra_simps)
qed (simp add: ref_each_def act_defs)

lemma level_assign:
  assumes "level n (m, h)" "ordered src"
  shows "level (n + int (length m)) (snd (assignOperator J src (m, h)))"
proof -
  obtain h' where "ref_each J JsonIncref src (src, h) = (Inr (), (src, h'))"
    "balance h' = balance h + int (length src)" "appended h' = appended h"
    using ref_each_level [of JsonIncref 1 J src src h] by auto
  then show ?thesis using assms by (simp add: assignOperator_def act_defs ref_each_def level_def)
qed

lemma level_destructor: "level n (m, h) \<Longrightarrow> level n (snd (destructor J (m, h)))"
proof -
  assume n: "level n (m, h)"
  obtain h' where "ref_each J JsonDecref m (m, h) = (Inr (), (m, h'))"
    "balance h' = balance h - int (length m)" "appended h' = appended h"
    using ref_each_level [of JsonDecref "-1" J m m h] by auto
  then show ?thesis using n by (simp add: destructor_def act_defs ref_each_def level_def)
qed

definition lost :: "config_heap \<Rightarrow> int" where
  "lost s = leaked s - int (appended (jcalls s))"

text \<open>The entries an assignment overwrites.\<close>

fun overwritten :: "config_op \<Rightarrow> config_heap \<Rightarrow> nat" where
  "overwritten (Assign i j) s = (if i < length (objs s) \<and> j < length (objs s) then length (objs s ! i) else 0)"
| "overwritten _ s = 0"

lemma level_obj: "sound s \<Longrightarrow> i < length (objs s) \<Longrightarrow>
    level (balance (jcalls s) - int (length (objs s ! i)) - int (appended (jcalls s))) (objs s ! i, jcalls s)"
  by (simp add: level_def sound_def)

lemma lost_with_obj:
  assumes s: "sound s" "i < length (objs s)" and run: "m (objs s ! i, jcalls s) = (r, (x, h))"
    and lev: "level (balance (jcalls s) - int (length (objs s ! i)) - int (appended (jcalls s)) + d) (x, h)"
  shows "lost (snd (with_obj i m s)) = lost s + d"
proof -
  have "int (sum_list (map length ((objs s)[i := x]))) + int (length (objs s ! i)) = int (sum_list (map length (objs s))) + int (length x)"
    using sum_update [OF s(2), of length x] by (metis of_nat_add)
  then show ?thesis using lev by (simp add: with_obj_def run lost_def leaked_def level_def)
qed

lemma lost_with_obj_same:
  assumes s: "sound s" "i < length (objs s)" and m: "\<And>n. triple (level n) m (\<lambda>_. level n) (\<lambda>_ _. True)"
    and run: "with_obj i (bnd m (\<lambda>_. ret ())) s = (Inr (), t)"
  shows "lost t = lost s"
proof -
  obtain r x h where r: "m (objs s ! i, jcalls s) = (r, (x, h))" by (rule run_exists)
  from run r obtain a where a: "r = Inr a" "bnd m (\<lambda>_. ret ()) (objs s ! i, jcalls s) = (Inr (), (x, h))"
    by (cases r) (auto simp: with_obj_def bnd_def ret_def)
  with tripleD [OF m level_obj [OF s] r] lost_with_obj [where m = "bnd m (\<lambda>_. ret ())" and d = 0, OF s a(2)] run show ?thesis by simp
qed

lemma lost_step:
  assumes s: "sound s" and run: "config_step J fuel op s = (Inr (), t)"
  shows "lost t = lost s + int (overwritten op s)"
proof (cases op)
  case New
  with run show ?thesis by (auto simp: lost_def leaked_def)
next
  case (Copy j)
  obtain r x h where r: "copyConstructor J fuel (objs s ! j) ([], jcalls s) = (r, (x, h))" by (rule run_exists)
  have "level (balance (jcalls s) - int (appended (jcalls s))) ([], jcalls s)" by (simp add: level_def)
  from tripleD [OF level_copyConstructor this r] run Copy r show ?thesis
    by (auto simp: lost_def leaked_def level_def split: if_splits sum.splits)
next
  case (Assign i j)
  show ?thesis
  proof (cases "i < length (objs s) \<and> j < length (objs s)")
    case True
    then have j: "ordered (objs s ! j)" using s by (simp add: sound_def)
    obtain r x h where r: "assignOperator J (objs s ! j) (objs s ! i, jcalls s) = (r, (x, h))" by (rule run_exists)
    from level_assign [OF level_obj j] s True have
      "level (balance (jcalls s) - int (length (objs s ! i)) - int (appended (jcalls s)) + int (length (objs s ! i))) (x, h)"
      by (metis r snd_conv)
    from lost_with_obj [where m = "assignOperator J (objs s ! j)", OF s _ r this] True run Assign show ?thesis by simp
  qed (use run Assign in auto)
next
  case (Destroy i)
  show ?thesis
  proof (cases "i < length (objs s)")
    case True
    obtain r x h where r: "destructor J (objs s ! i, jcalls s) = (r, (x, h))" by (rule run_exists)
    from level_destructor [OF level_obj [OF s True], of J] lost_with_obj [where m = "destructor J" and d = 0, OF s True r] r run Destroy True
    show ?thesis by simp
  qed (use run Destroy in auto)
next
  case (AppendArray i gid arr)
  with run lost_with_obj_same [OF s _ level_appendArray] show ?thesis by (auto split: if_splits)
next
  case (AppendText i gid t)
  with run lost_with_obj_same [OF s _ level_appendText] show ?thesis by (auto split: if_splits)
next
  case (AppendConfiguration i j)
  with run lost_with_obj_same [OF s _ level_appendConfiguration] show ?thesis by (auto split: if_splits)
next
  case (Config i gid)
  with run show ?thesis
    by (auto simp: with_obj_def configPointer_def act_defs jcall_def has_key_def lost_def leaked_def
      split: if_splits option.splits)
next
  case (Release p)
  have "p \<in> set (given s) \<Longrightarrow> int (length (remove1 p (given s))) = int (length (given s)) - 1"
    using length_pos_if_in_set [of p "given s"] by (simp add: length_remove1 of_nat_diff Suc_le_eq)
  then show ?thesis
    using run Release by (auto simp: with_calls_def bnd_def jcall_def lost_def leaked_def split: if_splits)
qed

text \<open>The entries that the assignments of a run overwrite.\<close>

fun overwritten_in :: "jansson \<Rightarrow> nat \<Rightarrow> config_op list \<Rightarrow> config_heap \<Rightarrow> nat" where
  "overwritten_in J fuel [] s = 0"
| "overwritten_in J fuel (op # ops) s = overwritten op s + overwritten_in J fuel ops (snd (config_step J fuel op s))"

lemma lost_run:
  "sound s \<Longrightarrow> config_run J fuel ops s = (Inr (), t) \<Longrightarrow> lost t = lost s + int (overwritten_in J fuel ops s)"
proof (induction ops arbitrary: s)
  case (Cons op ops)
  obtain r u where step: "config_step J fuel op s = (r, u)" by force
  with Cons.prems(2) have r: "r = Inr ()" and rest: "config_run J fuel ops u = (Inr (), t)"
    by (cases r; simp add: config_run_def seq_def bnd_def)+
  have "sound u" using keepsD [OF keeps_sound_step Cons.prems(1) step] .
  from Cons.IH [OF this rest] lost_step [OF Cons.prems(1) step [unfolded r]] step show ?case by simp
qed (simp add: config_run_def ret_def)

text \<open>C20: after any operations that return, the references taken and not released are those held by
  the live configurations and the callers of \<open>config\<close>, one for every element that was appended to an array and one
  for every entry that an assignment overwrote. The last two belong to no variable any more: they
  are never released.\<close>

theorem configuration_leaks:
  assumes "config_run J fuel ops no_objects = (Inr (), s)"
  shows "balance (jcalls s) = int (sum_list (map length (objs s))) + int (length (given s)) +
    int (appended (jcalls s)) + int (overwritten_in J fuel ops no_objects)"
proof -
  have "sound no_objects" by (simp add: no_objects_def sound_def)
  from lost_run [OF this assms] show ?thesis by (simp add: lost_def leaked_def no_objects_def)
qed

section \<open>Appending an array to itself\<close>

text \<open>What jansson documents of arrays: the size of the array at a pointer grows by one with every append
  that succeeds, and an index below the size has a value.\<close>

fun grows :: "json_call \<Rightarrow> int \<Rightarrow> ptr \<Rightarrow> nat" where
  "grows (JsonArrayAppend a v) r p = of_bool (a = p \<and> 0 \<le> r)"
| "grows _ r p = 0"

fun size_after :: "(ptr \<Rightarrow> nat) \<Rightarrow> json_calls \<Rightarrow> ptr \<Rightarrow> nat" where
  "size_after n [] p = n p"
| "size_after n ((c, r) # h) p = size_after n h p + grows c r p"

definition honest :: "(ptr \<Rightarrow> nat) \<Rightarrow> ptr \<Rightarrow> jansson \<Rightarrow> bool" where
  "honest n a J \<longleftrightarrow> (\<forall>h. J h (JsonArraySize a) = int (size_after n h a)) \<and>
     (\<forall>h i. i < size_after n h a \<longrightarrow> J h (JsonArrayGet a i) \<noteq> 0)"

text \<open>No append fails for want of memory.\<close>

definition appends_succeed :: "jansson \<Rightarrow> bool" where
  "appends_succeed J \<longleftrightarrow> (\<forall>h a v. 0 \<le> J h (JsonArrayAppend a v))"

lemma appendValues_self_loops:
  assumes "honest n a J" "appends_succeed J"
  shows "index < size_after n h a \<Longrightarrow> fst (appendValues J fuel a a index h) = Inl NoReturn"
proof (induction fuel arbitrary: index h)
  case (Suc fuel)
  let ?h = "(JsonArraySize a, int (size_after n h a)) # h"
  have "J ?h (JsonArrayGet a index) \<noteq> 0" "J h (JsonArraySize a) = int (size_after n h a)"
    using assms(1) Suc.prems by (simp_all add: honest_def)
  with Suc.IH Suc.prems assms(2) show ?case
    by (auto simp: act_defs jcall_def appends_succeed_def not_less [symmetric])
qed (simp add: act_defs)

text \<open>With another array as the source the loop ends after as many rounds as that has elements.\<close>

lemma appendValues_returns:
  assumes "honest n src J" "src \<noteq> dest"
  shows "index \<le> size_after n h src \<Longrightarrow> size_after n h src < fuel + index \<Longrightarrow>
    \<exists>b. fst (appendValues J fuel dest src index h) = Inr b"
proof (induction fuel arbitrary: index h)
  case (Suc fuel)
  have "J h (JsonArraySize src) = int (size_after n h src)" using assms(1) by (simp add: honest_def)
  with Suc.IH Suc.prems assms(2) show ?case by (auto simp: act_defs jcall_def)
qed simp

lemma append_returns:
  assumes J: "honest n src J" and other: "map_of m gid \<noteq> Some src" and fuel: "size_after n h src < fuel"
  shows "\<exists>b. fst (appendArray J fuel gid src (m, h)) = Inr b"
proof (cases "map_of m gid")
  case (Some dest)
  let ?h = "(JsonDeepCopy dest, J h (JsonDeepCopy dest)) # h"
  obtain b where "fst (appendValues J fuel dest src 0 ?h) = Inr b"
    using appendValues_returns [OF J, of dest 0 ?h fuel] other Some fuel by auto
  then obtain k where "appendValues J fuel dest src 0 ?h = (Inr b, k)" by (metis prod.collapse)
  then show ?thesis using Some by (auto simp: appendArray_def act_defs jcall_def)
qed (auto simp: appendArray_def act_defs jcall_def)

lemma appendArray_self:
  assumes J: "honest n a J" "appends_succeed J" and m: "map_of m gid = Some a"
  shows "0 < size_after n h a \<Longrightarrow> fst (appendArray J fuel gid a (m, h)) = Inl NoReturn"
    and "size_after n h a = 0 \<Longrightarrow> fst (appendArray J fuel gid a (m, h)) = Inl NoReturn \<or>
      (\<exists>h'. appendArray J fuel gid a (m, h) = (Inr True, (m, h')) \<and> size_after n h' = size_after n h)"
proof -
  let ?h = "(JsonDeepCopy a, J h (JsonDeepCopy a)) # h"
  have sz: "J h (JsonArraySize a) = int (size_after n h a)" for h using J(1) by (simp add: honest_def)
  show "fst (appendArray J fuel gid a (m, h)) = Inl NoReturn" if "0 < size_after n h a"
  proof -
    have "fst (appendValues J fuel a a 0 ?h) = Inl NoReturn"
      using appendValues_self_loops [OF J, of 0 ?h fuel] that by simp
    then obtain k where "appendValues J fuel a a 0 ?h = (Inl NoReturn, k)" by (metis prod.collapse)
    then show ?thesis using m by (simp add: appendArray_def act_defs jcall_def)
  qed
  show "fst (appendArray J fuel gid a (m, h)) = Inl NoReturn \<or>
      (\<exists>h'. appendArray J fuel gid a (m, h) = (Inr True, (m, h')) \<and> size_after n h' = size_after n h)"
    if "size_after n h a = 0"
    using m that by (cases fuel) (auto simp: appendArray_def act_defs jcall_def sz)
qed

lemma appendConfiguration_self:
  assumes J: "\<forall>a. honest n a J" "appends_succeed J"
  shows "\<forall>(gid, a) \<in> set src. map_of m gid = Some a \<Longrightarrow> \<exists>(gid, a) \<in> set src. 0 < size_after n h a \<Longrightarrow>
    fst (appendConfiguration J fuel src (m, h)) = Inl NoReturn"
proof (induction src arbitrary: h)
  case (Cons it src)
  obtain gid a where it: "it = (gid, a)" by force
  have m: "map_of m gid = Some a" using Cons.prems(1) by (simp add: it)
  note self = appendArray_self [OF J(1) [rule_format] J(2) m]
  show ?case
  proof (cases "fst (appendArray J fuel gid a (m, h)) = Inl NoReturn")
    case True
    then obtain k where "appendArray J fuel gid a (m, h) = (Inl NoReturn, k)" by (metis prod.collapse)
    then show ?thesis by (simp add: it appendConfiguration_def andThen_def bnd_def)
  next
    case False
    then have z: "size_after n h a = 0" using self(1) by blast
    with self(2) False obtain h' where run: "appendArray J fuel gid a (m, h) = (Inr True, (m, h'))"
      and sz: "size_after n h' = size_after n h" by blast
    have "fst (appendConfiguration J fuel src (m, h')) = Inl NoReturn"
      using Cons.prems z by (intro Cons.IH) (auto simp: it sz)
    then show ?thesis by (simp add: it appendConfiguration_def andThen_def bnd_def run)
  qed
qed simp

text \<open>An instance: arrays start with one element, and what is new is above every pointer seen before.\<close>

fun highest :: "json_calls \<Rightarrow> int" where
  "highest [] = 0"
| "highest ((c, r) # h) = max (highest h) (max r (case c of JsonIncref q \<Rightarrow> q | _ \<Rightarrow> 0))"

definition jansson_example :: jansson where
  "jansson_example h c = (case c of
     JsonArraySize a \<Rightarrow> int (size_after (\<lambda>_. 1) h a) | JsonArrayAppend a v \<Rightarrow> 0 | _ \<Rightarrow> highest h + 1)"

lemma highest_nonneg: "0 \<le> highest h"
  by (induction h rule: highest.induct) auto

lemma owned_above: "highest h < p \<Longrightarrow> owned h p \<le> 0"
proof (induction h rule: highest.induct)
  case (2 c r h)
  then show ?case by (cases c) auto
qed simp

text \<open>Appending to a configuration one that shares its arrays, which is itself or one it was assigned
  from, does not return where any of the arrays has an element, as long as there is memory: the
  loop goes over the array it appends to.\<close>

theorem shared_append_never_returns:
  assumes "\<forall>a. honest n a J" "appends_succeed J"
    and "i < length (objs s)" "j < length (objs s)" "objs s ! i = objs s ! j" "ordered (objs s ! i)"
    and "\<exists>(gid, a) \<in> set (objs s ! i). 0 < size_after n (jcalls s) a"
  shows "fst (config_step J fuel (AppendConfiguration i j) s) = Inl NoReturn"
proof -
  let ?m = "objs s ! i"
  have "\<forall>(gid, a) \<in> set ?m. map_of ?m gid = Some a"
    using ordered_distinct [OF assms(6)] by (auto intro: map_of_is_SomeI)
  from appendConfiguration_self [OF assms(1,2) this assms(7)] obtain k
    where "appendConfiguration J fuel ?m (?m, jcalls s) = (Inl NoReturn, k)" by (metis prod.collapse)
  then show ?thesis using assms(3-5) by (cases k) (simp add: with_obj_def bnd_def)
qed

lemma jansson_example_laws: "\<forall>a. honest (\<lambda>_. 1) a jansson_example" "appends_succeed jansson_example"
  using highest_nonneg by (auto simp: honest_def appends_succeed_def jansson_example_def add_eq_0_iff)
     (metis add_eq_0_iff highest_nonneg neg_0_le_iff_le not_one_le_zero add.commute minus_minus)

lemma shared_append_never_returns_witness:
  "fst (config_step jansson_example 100 (AppendConfiguration 1 0)
     \<lparr>objs = [[(''env'', 5)], [(''env'', 5)]], given = [], jcalls = []\<rparr>) = Inl NoReturn"
  by (rule shared_append_never_returns [OF jansson_example_laws]) (simp_all add: ordered_def)

text \<open>Two configurations for one gateway and the object destroyed: the copy of the second one's element is
  left.\<close>

lemma configuration_leaks_witness:
  "let s = snd (config_run jansson_example 5
       [New, AppendText 0 ''env'' ''[1]'', AppendText 0 ''env'' ''[2]'', Destroy 0] no_objects) in
     objs s = [[]] \<and> given s = [] \<and> balance (jcalls s) = 1"
proof -
  let ?ops = "[New, AppendText 0 ''env'' ''[1]'', AppendText 0 ''env'' ''[2]'', Destroy 0]"
  let ?r = "config_run jansson_example 5 ?ops no_objects"
  have "fst ?r = Inr ()" by code_simp
  then have run: "?r = (Inr (), snd ?r)" by (metis prod.collapse)
  have "objs (snd ?r) = [[]]" by code_simp
  moreover have "given (snd ?r) = []" by code_simp
  moreover have "appended (jcalls (snd ?r)) = 1" by code_simp
  moreover have "overwritten_in jansson_example 5 ?ops no_objects = 0" by code_simp
  ultimately show ?thesis using configuration_leaks [OF run] by simp
qed

section \<open>Nothing is shared where assigned objects are dropped\<close>

text \<open>\<open>json_deep_copy\<close> gives a new array: one the program has no reference to.\<close>

definition fresh :: "jansson \<Rightarrow> bool" where
  "fresh J \<longleftrightarrow> (\<forall>h q. owned h (J h (JsonDeepCopy q)) \<le> 0)"

definition exclusive :: "config_heap \<Rightarrow> bool" where
  "exclusive s \<longleftrightarrow> (\<forall>p. held_by (objs s) p + count_list (given s) p \<le> 1)"

text \<open>An object beside the others.\<close>

definition alone :: "(ptr \<Rightarrow> int) \<Rightarrow> config_map \<times> json_calls \<Rightarrow> bool" where
  "alone R x \<longleftrightarrow> backed R x \<and> (\<forall>p. R p + int (held (fst x) p) \<le> 1)"

lemma alone_put:
  assumes a: "alone R (m, h)" and p: "owned h q \<le> 0"
  shows "R p + int (held (put gid q m) p) \<le> 1"
proof -
  have ord: "ordered m" and R: "R p + int (held m p) \<le> 1" "R p + int (held m p) \<le> owned h p" "0 \<le> R p"
    using a by (auto simp: alone_def backed_def)
  have "held (put gid q m) p \<le> held m p + of_bool (q = p)" using held_put [OF ord, of gid q p] by linarith
  then have le: "int (held (put gid q m) p) \<le> int (held m p) + of_bool (q = p)"
    by (metis of_nat_add of_nat_le_iff of_nat_of_bool)
  show ?thesis
  proof (cases "q = p")
    case True
    with p R(2) have "R p + int (held m p) \<le> 0" by simp
    with le True show ?thesis by simp
  qed (use le R(1) in simp)
qed

lemma keeps_alone_append:
  assumes J: "fresh J"
  shows "keeps (alone R) (appendArray J fuel gid src)"
proof (rule keepsI)
  fix x assume x: "alone R x"
  obtain m h where mh: "x = (m, h)" by force
  let ?t = "snd (appendArray J fuel gid src x)"
  have b: "backed R ?t" using x backed_appendArray by (simp add: alone_def mh)
  have new: "owned h (J h (JsonDeepCopy q)) \<le> 0" for q using J by (simp add: fresh_def)
  have "fst ?t = m \<or> (\<exists>q. fst ?t = put gid (J h (JsonDeepCopy q)) m)"
    by (auto simp: mh appendArray_def act_defs jcall_def split: option.split sum.split prod.split)
  then have "R p + int (held (fst ?t) p) \<le> 1" for p
    using x alone_put [OF x [unfolded mh] new] by (auto simp: mh alone_def)
  with b show "alone R ?t" by (simp add: alone_def)
qed

lemma keeps_alone_appendConfiguration: "fresh J \<Longrightarrow> keeps (alone R) (appendConfiguration J fuel src)"
  unfolding appendConfiguration_def by (auto intro!: keeps_intros keeps_alone_append)

lemma keeps_alone_copyConstructor: "fresh J \<Longrightarrow> keeps (alone R) (copyConstructor J fuel src)"
  unfolding copyConstructor_def by (intro keeps_intros keeps_alone_appendConfiguration)

lemma keeps_alone_appendText:
  assumes J: "fresh J"
  shows "keeps (alone R) (appendText J fuel gid t)"
proof (rule keepsI)
  fix x assume x: "alone R x"
  obtain m h where mh: "x = (m, h)" by force
  let ?j = "J h (JsonLoads t)"
  let ?h = "(JsonLoads t, ?j) # h"
  have b: "backed R (snd (appendText J fuel gid t x))" using x backed_appendText by (simp add: alone_def mh)
  have "backed R (m, ?h)"
    using x backed_gain [of R m h] by (simp add: alone_def mh)
  then have a: "alone R (m, ?h)" using x by (simp add: alone_def mh)
  obtain r y k where run: "appendArray J fuel gid ?j (m, ?h) = (r, (y, k))" by (rule run_exists)
  have "alone R (y, k)" using keepsD [OF keeps_alone_append [OF J] a run] .
  then have "R p + int (held (fst (snd (appendText J fuel gid t x))) p) \<le> 1" for p
    using x run by (auto simp: mh appendText_def act_defs jcall_def alone_def split: sum.split)
  with b show "alone R (snd (appendText J fuel gid t x))" by (simp add: alone_def)
qed

lemma exclusive_others: "i < length (objs s) \<Longrightarrow> sound s \<Longrightarrow> exclusive s \<Longrightarrow> alone (others i s) (objs s ! i, jcalls s)"
proof -
  assume i: "i < length (objs s)" and s: "sound s" "exclusive s"
  have "others i s p + int (held (objs s ! i) p) \<le> 1" for p
    using s(2) [unfolded exclusive_def, rule_format, of p] by (simp add: others_def)
  with sound_backed [OF s(1) i] show ?thesis by (simp add: alone_def)
qed

lemma alone_exclusive:
  assumes "alone (others i s) (x, h)" "i < length (objs s)"
  shows "exclusive (s\<lparr>objs := (objs s)[i := x], jcalls := h\<rparr>)"
proof -
  have "held_by ((objs s)[i := x]) p + count_list (given s) p \<le> 1" for p
  proof -
    have "int (held_by ((objs s)[i := x]) p) + int (held (objs s ! i) p) = int (held_by (objs s) p) + int (held x p)"
      using held_by_update [OF assms(2), of x p] by (metis of_nat_add)
    moreover have "others i s p + int (held x p) \<le> 1" using assms(1) by (simp add: alone_def)
    ultimately show ?thesis unfolding others_def by linarith
  qed
  then show ?thesis by (simp add: exclusive_def)
qed

lemma exclusive_with_obj:
  assumes "\<And>R. keeps (alone R) m" "sound s" "exclusive s" "i < length (objs s)"
  shows "exclusive (snd (with_obj i m s))"
proof -
  obtain r x h where run: "m (objs s ! i, jcalls s) = (r, (x, h))" by (rule run_exists)
  have "alone (others i s) (x, h)" using keepsD [OF assms(1) exclusive_others [OF assms(4,2,3)] run] .
  from alone_exclusive [OF this assms(4)] show ?thesis by (simp add: with_obj_def run)
qed

text \<open>After an assignment: clearing the source leaves nothing shared.\<close>

definition pending :: "nat \<Rightarrow> config_heap \<Rightarrow> bool" where
  "pending j s \<longleftrightarrow> (\<forall>p. held_by ((objs s)[j := []]) p + count_list (given s) p \<le> 1)"

lemma exclusive_pending: "exclusive s \<Longrightarrow> pending j s"
proof -
  assume s: "exclusive s"
  have "held_by ((objs s)[j := []]) p + count_list (given s) p \<le> 1" for p
  proof (cases "j < length (objs s)")
    case True
    then show ?thesis
      using held_by_update [OF True, of "[]" p] s [unfolded exclusive_def, rule_format, of p] by simp
  qed (use s in \<open>simp add: exclusive_def list_update_beyond\<close>)
  then show ?thesis by (simp add: pending_def)
qed

lemma assign_run: "\<exists>h'. assignOperator J src (m, h) = (Inr (), (src, h'))"
proof -
  obtain h' where "ref_each J JsonIncref src (src, h) = (Inr (), (src, h'))"
    using ref_each_level [of JsonIncref 1 J src src h] by auto
  then show ?thesis by (simp add: assignOperator_def act_defs ref_each_def)
qed

lemma pending_assign:
  assumes s: "exclusive s" and ij: "i \<noteq> j"
  shows "pending j (snd (config_step J fuel (Assign i j) s))"
proof (cases "i < length (objs s) \<and> j < length (objs s)")
  case True
  let ?os = "objs s" and ?src = "objs s ! j"
  have "held_by (?os[i := ?src, j := []]) p \<le> held_by ?os p" for p
    using held_by_update [of j "?os[i := ?src]" "[]" p] held_by_update [of i ?os ?src p] True ij
    by (simp add: nth_list_update)
  then have "held_by (?os[i := ?src, j := []]) p + count_list (given s) p \<le> 1" for p
    using s unfolding exclusive_def by (meson add_le_mono1 order_trans)
  then show ?thesis using True assign_run [of J ?src "?os ! i" "jcalls s"] by (auto simp: with_obj_def pending_def)
qed (use s exclusive_pending in auto)

lemma exclusive_destroy:
  assumes s: "sound s" "pending j s"
  shows "exclusive (snd (config_step J fuel (Destroy j) s))"
proof (cases "j < length (objs s)")
  case True
  from backed_destructor [OF sound_backed [OF s(1) True]] obtain h where
    "destructor J (objs s ! j, jcalls s) = (Inr (), ([], h))" by blast
  with s(2) True show ?thesis by (simp add: with_obj_def exclusive_def pending_def)
qed (use s in \<open>simp add: exclusive_def pending_def list_update_beyond\<close>)

lemma keeps_alone_unit: "(\<And>R. keeps (alone R) m) \<Longrightarrow> keeps (alone R) (bnd m (\<lambda>_. ret ()))"
  by (intro keeps_intros) auto

lemma exclusive_copy:
  assumes J: "fresh J" and s: "sound s" "exclusive s"
  shows "exclusive (snd (config_step J fuel (Copy j) s))"
proof (cases "j < length (objs s)")
  case True
  let ?R = "\<lambda>p. int (held_by (objs s) p) + int (count_list (given s) p)"
  obtain r x h where run: "copyConstructor J fuel (objs s ! j) ([], jcalls s) = (r, (x, h))" by (rule run_exists)
  have le: "?R p \<le> 1" for p using s(2) unfolding exclusive_def by (metis of_nat_1 of_nat_add of_nat_le_iff)
  then have "alone ?R ([], jcalls s)" using s(1) by (simp add: sound_def backed_def alone_def)
  from keepsD [OF keeps_alone_copyConstructor [OF J] this run] have "alone ?R (x, h)" .
  then have new: "?R p + int (held x p) \<le> 1" for p by (simp add: alone_def)
  have "held_by (objs s) p + held x p + count_list (given s) p \<le> 1" for p using new [of p] by linarith
  with s(2) True run show ?thesis by (cases r) (auto simp: exclusive_def)
qed (simp add: s)

lemma exclusive_config:
  assumes J: "fresh J" and s: "sound s" "exclusive s"
  shows "exclusive (snd (config_step J fuel (Config i gid) s))"
proof (cases "i < length (objs s) \<and> has_key gid (objs s ! i)")
  case True
  then obtain a where a: "map_of (objs s ! i) gid = Some a" by (auto simp: has_key_def)
  let ?p = "J (jcalls s) (JsonDeepCopy a)"
  have "owned (jcalls s) ?p \<le> 0" using J by (simp add: fresh_def)
  moreover have "int (held_by (objs s) ?p) + int (count_list (given s) ?p) \<le> owned (jcalls s) ?p"
    using s(1) by (simp add: sound_def)
  ultimately have "held_by (objs s) ?p = 0" "count_list (given s) ?p = 0" by linarith+
  with s(2) a True show ?thesis
    by (auto simp: with_obj_def configPointer_def act_defs jcall_def has_key_def exclusive_def list_update_id)
next
  case False
  then have "config_step J fuel (Config i gid) s = (Inr (), s)"
    by (auto simp: with_obj_def configPointer_def act_defs has_key_def list_update_id)
  then show ?thesis using s by simp
qed

lemma exclusive_release:
  assumes s: "exclusive s"
  shows "exclusive (snd (config_step J fuel (Release p) s))"
proof -
  have "held_by (objs s) q + count_list (remove1 p (given s)) q \<le> 1" for q
  proof (cases "p \<in> set (given s)")
    case True
    then show ?thesis using count_remove1 [OF True, of q] s [unfolded exclusive_def, rule_format, of q] by linarith
  qed (use s in \<open>simp add: exclusive_def remove1_idem\<close>)
  with s show ?thesis by (simp add: exclusive_def bnd_def with_calls_def jcall_def)
qed

lemma exclusive_step:
  assumes J: "fresh J" and s: "sound s" "exclusive s" and op: "\<forall>i j. op \<noteq> Assign i j"
  shows "exclusive (snd (config_step J fuel op s))"
proof (cases op)
  case New
  then show ?thesis using s by (simp add: exclusive_def)
next
  case (Destroy i)
  then show ?thesis using exclusive_destroy [OF s(1) exclusive_pending [OF s(2)]] by simp
next
  case (AppendArray i gid arr)
  then show ?thesis using s exclusive_with_obj [OF keeps_alone_unit [OF keeps_alone_append [OF J]] s] by simp
next
  case (AppendText i gid t)
  then show ?thesis using s exclusive_with_obj [OF keeps_alone_unit [OF keeps_alone_appendText [OF J]] s] by simp
next
  case (AppendConfiguration i j)
  then show ?thesis using s exclusive_with_obj [OF keeps_alone_unit [OF keeps_alone_appendConfiguration [OF J]] s] by simp
qed (use op exclusive_copy [OF J s] exclusive_config [OF J s] exclusive_release [OF s(2)] in simp_all)

text \<open>As in \<open>BaseConfigStore::parseGatewayConfigs\<close>: an object is assigned from a local variable whose scope
  ends with the assignment.\<close>

fun disciplined :: "config_op list \<Rightarrow> bool" where
  "disciplined [] \<longleftrightarrow> True"
| "disciplined (op # ops) \<longleftrightarrow>
     (case op of Assign i j \<Rightarrow> i \<noteq> j \<and> ops \<noteq> [] \<and> hd ops = Destroy j | _ \<Rightarrow> True) \<and> disciplined ops"

lemma exclusive_run:
  assumes J: "fresh J"
  shows "sound s \<Longrightarrow> exclusive s \<or> (\<exists>j rest. ops = Destroy j # rest \<and> pending j s) \<Longrightarrow> disciplined ops \<Longrightarrow>
    config_run J fuel ops s = (Inr (), t) \<Longrightarrow> exclusive t"
proof (induction ops arbitrary: s)
  case (Cons op ops)
  obtain r u where step: "config_step J fuel op s = (r, u)" by force
  with Cons.prems(4) have rest: "config_run J fuel ops u = (Inr (), t)"
    by (cases r; simp add: config_run_def seq_def bnd_def)+
  have "sound u" using keepsD [OF keeps_sound_step Cons.prems(1) step] .
  moreover have "exclusive u \<or> (\<exists>j rest. ops = Destroy j # rest \<and> pending j u)"
  proof (cases "\<exists>i j. op = Assign i j")
    case True
    then obtain i j where op: "op = Assign i j" by blast
    with Cons.prems(3) have d: "i \<noteq> j" "ops = Destroy j # tl ops" by (auto simp: neq_Nil_conv)
    have "exclusive s" using Cons.prems(2) op by simp
    from pending_assign [OF this d(1), of J fuel] have "pending j u" using step by (simp add: op del: config_step.simps)
    with d(2) show ?thesis by metis
  next
    case False
    have u: "u = snd (config_step J fuel op s)" using step by simp
    have "exclusive u" using Cons.prems(2)
    proof
      assume "exclusive s"
      from exclusive_step [OF J Cons.prems(1) this] False show ?thesis unfolding u by blast
    next
      assume "\<exists>j rest. op # ops = Destroy j # rest \<and> pending j s"
      then obtain j where "op = Destroy j" "pending j s" by blast
      with exclusive_destroy [OF Cons.prems(1)] show ?thesis unfolding u by blast
    qed
    then show ?thesis ..
  qed
  moreover have "disciplined ops" using Cons.prems(3) by simp
  ultimately show ?case using Cons.IH [OF _ _ _ rest] by blast
qed (simp add: config_run_def ret_def)

text \<open>Where every assignment is from an object that is destroyed next, as the one assignment of the
  program is, no array is ever in two configurations, or in one and with a caller of \<open>config\<close>: every
  configuration is a value of its own.\<close>

theorem configurations_unshared:
  assumes "fresh J" "disciplined ops" "config_run J fuel ops no_objects = (Inr (), s)"
  shows "held_by (objs s) p + count_list (given s) p \<le> 1"
proof -
  have "sound no_objects" "exclusive no_objects" by (simp_all add: no_objects_def sound_def exclusive_def)
  with exclusive_run [OF assms(1) _ _ assms(2,3)] have "exclusive s" by blast
  then show ?thesis by (simp add: exclusive_def)
qed

lemma jansson_example_fresh: "fresh jansson_example"
  unfolding fresh_def by (intro allI owned_above) (simp add: jansson_example_def)

lemma configurations_unshared_witness:
  "let ops = [New, AppendText 0 ''env'' ''[1]'', New, Assign 1 0, Destroy 0, Copy 1, Config 2 ''env''];
       s = snd (config_run jansson_example 5 ops no_objects) in
     length (objs s) = 3 \<and> length (given s) = 1 \<and> (\<forall>p. held_by (objs s) p + count_list (given s) p \<le> 1)"
proof -
  let ?ops = "[New, AppendText 0 ''env'' ''[1]'', New, Assign 1 0, Destroy 0, Copy 1, Config 2 ''env'']"
  let ?r = "config_run jansson_example 5 ?ops no_objects"
  have "fst ?r = Inr ()" by code_simp
  then have run: "?r = (Inr (), snd ?r)" by (metis prod.collapse)
  have "length (objs (snd ?r)) = 3 \<and> length (given (snd ?r)) = 1" by code_simp
  moreover have "disciplined ?ops" by simp
  ultimately show ?thesis using configurations_unshared [OF jansson_example_fresh _ run] by simp
qed

end
