(* ===== verification/Mounts.thy ===== *)
theory Mounts
  imports LxcContainer
begin

text \<open>
  The mounts of a container over its life. The record of the calls and their answers tells how many
  mounts at a path have been made and not undone; the toolkit's cleanup handlers tell how many the
  program will undo. The theory relates the two for the operations of \<open>FileToolkitWithUndo\<close> and
  \<open>Container\<close>: nothing is mounted that no handler stands for, and the destructor leaves no mount.
\<close>

section \<open>What is mounted\<close>

text \<open>A successful call of \<open>mount\<close> makes a mount at its target, unless it changes one that is there or moves
  one within the container; a successful \<open>umount\<close> takes one away.\<close>

definition changes_mount :: "mount_flag list \<Rightarrow> bool" where
  "changes_mount flags \<longleftrightarrow> (\<exists>flag \<in> set flags. flag \<in> {MS_REMOUNT, MS_UNBINDABLE, MS_SHARED, MS_MOVE})"

fun effect :: "call \<Rightarrow> string \<Rightarrow> int" where
  "effect (Mnt (MountCall src dst fstype flags opts)) p = (if p = dst \<and> \<not> changes_mount flags then 1 else 0)"
| "effect (Mnt (Umount dst)) p = (if p = dst then -1 else 0)"
| "effect (Mnt (Umount2 dst flag)) p = (if p = dst then -1 else 0)"
| "effect _ p = 0"

text \<open>The mounts at a path less the unmounts, over the calls made so far.\<close>

fun balance :: "environment \<Rightarrow> calls \<Rightarrow> string \<Rightarrow> int" where
  "balance E [] p = 0"
| "balance E (c # h) p = balance E h p + (if fst (answer E h c) = 0 then effect c p else 0)"

lemma balance_Cons: "balance E (c # h) = (\<lambda>p. balance E h p + (if fst (answer E h c) = 0 then effect c p else 0))"
  by (rule ext) simp

lemma balance_other [simp]:
  "balance E (File f # h) = balance E h" "balance E (Lxc l # h) = balance E h" "balance E (Proc q # h) = balance E h"
  "balance E (Mnt (SetMntent x) # h) = balance E h" "balance E (Mnt GetMntent # h) = balance E h"
  "changes_mount flags \<Longrightarrow> balance E (Mnt (MountCall src dst fstype flags opts) # h) = balance E h"
  by (rule ext; simp)+

lemma changes_mount_simps [simp]:
  "\<not> changes_mount []" "\<not> changes_mount [MS_BIND]" "changes_mount [MS_UNBINDABLE]" "changes_mount [MS_SHARED]"
  "changes_mount [MS_MOVE]" "changes_mount [MS_REMOUNT, MS_RDONLY, MS_BIND]"
  by (simp_all add: changes_mount_def)

text \<open>What the kernel promises: a mount that is there can be detached, and its propagation can be set.\<close>

definition detaches :: "environment \<Rightarrow> bool" where
  "detaches E \<longleftrightarrow> (\<forall>h p. 0 < balance E h p \<longrightarrow> fst (answer E h (Mnt (Umount2 p MNT_DETACH))) = 0)"

definition propagates :: "environment \<Rightarrow> bool" where
  "propagates E \<longleftrightarrow> (\<forall>h p flag. flag \<in> {MS_UNBINDABLE, MS_SHARED} \<longrightarrow>
     fst (answer E h (Mnt (MountCall p p '''' [flag] ''''))) = 0)"

section \<open>Calls that leave the mounts alone\<close>

definition mount_free :: "environment \<Rightarrow> (calls, 'a) act \<Rightarrow> bool" where
  "mount_free E m \<longleftrightarrow> (\<forall>b. keeps (\<lambda>h. balance E h = b) m)"

lemma mount_freeD: "mount_free E m \<Longrightarrow> m h = (r, h') \<Longrightarrow> balance E h' = balance E h"
  using keepsD [of "\<lambda>k. balance E k = balance E h" m h r h'] by (simp add: mount_free_def)

lemma mount_free_basic [simp]: "mount_free E (ret a)" "mount_free E (throw e)"
  "mount_free E (sys E (File f))" "mount_free E (sys E (Lxc l))" "mount_free E (sys E (Proc q))"
  "mount_free E (sys E (Mnt (SetMntent x)))" "mount_free E (sysText E (Mnt GetMntent))"
  "mount_free E (sysText E (File f))" "mount_free E (sysText E (Lxc l))"
  "changes_mount flags \<Longrightarrow> mount_free E (sys E (Mnt (MountCall src dst fstype flags opts)))"
  by (simp_all add: mount_free_def keeps_def ret_def throw_def sys_def sysText_def)

lemma mount_free_bnd: "mount_free E m \<Longrightarrow> (\<And>a. mount_free E (f a)) \<Longrightarrow> mount_free E (bnd m f)"
  by (simp add: mount_free_def keeps_bnd)

lemma mount_free_seq: "mount_free E m \<Longrightarrow> mount_free E n \<Longrightarrow> mount_free E (seq m n)"
  by (simp add: mount_free_def keeps_seq)

lemma mount_free_andThen: "mount_free E m \<Longrightarrow> mount_free E n \<Longrightarrow> mount_free E (andThen m n)"
  by (simp add: mount_free_def keeps_andThen)

lemma mount_free_if: "(b \<Longrightarrow> mount_free E m) \<Longrightarrow> (\<not> b \<Longrightarrow> mount_free E n) \<Longrightarrow> mount_free E (if b then m else n)"
  by simp

lemma mount_free_case: "(\<And>a b. mount_free E (f a b)) \<Longrightarrow> mount_free E (case x of (a, b) \<Rightarrow> f a b)"
  by (cases x) simp

lemma mount_free_option: "mount_free E m \<Longrightarrow> (\<And>a. mount_free E (f a)) \<Longrightarrow> mount_free E (case x of None \<Rightarrow> m | Some a \<Rightarrow> f a)"
  by (cases x) simp_all

lemmas mount_free_rules = mount_free_bnd mount_free_seq mount_free_andThen mount_free_if mount_free_case mount_free_option
  mount_free_basic

lemma mount_free_files: "mount_free E (getStat E p)" "mount_free E (isDirectory E p)" "mount_free E (existsInFileSystem E p)"
  "mount_free E (touch E p)" "mount_free E (writeToFile E p txt')" "mount_free E (recursiveDelete E p)"
  "mount_free E (recursiveCopy E p q)"
  unfolding isDirectory_def existsInFileSystem_def getStat_def touch_def writeToFile_def recursiveDelete_def recursiveCopy_def
  by (intro mount_free_rules)+

lemma mount_free_destroyCreateDir: "mount_free E (destroyCreateDir E dirs)"
proof -
  have "mount_free E (cleanAll E (map DirectoryCleanUp ds))" for ds
    by (induction ds) (auto intro!: mount_free_rules mount_free_files)
  then show ?thesis by (simp add: destroyCreateDir_def)
qed

lemma mount_free_command: "mount_free E (command_function E args dir)"
  unfolding command_function_def by (intro mount_free_rules)

lemma mount_free_job: "mount_free E f \<Longrightarrow> mount_free E (function_job f)"
  unfolding function_job_def by (intro mount_free_rules)

lemma mount_free_entry: "mount_free E f \<Longrightarrow> mount_free E (executeInContainerEntryFunction E f)"
  unfolding executeInContainerEntryFunction_def unlimitCoreDump_def by (intro mount_free_rules)

lemma mount_free_checkMounted: "mount_free E (checkMounted E fuel path)"
proof -
  have "mount_free E (mountedLoop E fuel path)" by (induction fuel) (auto intro!: mount_free_rules)
  then show ?thesis unfolding checkMounted_def by (intro mount_free_rules)
qed

lemma mount_free_createParentDirectories: "mount_free E (createParentDirectories E path)"
proof -
  have "mount_free E (missingPaths E fuel path paths)" for fuel path paths
    by (induction fuel arbitrary: path paths) (auto intro!: mount_free_rules mount_free_files)
  moreover have "mount_free E (makePaths E ps)" for ps
    by (induction ps) (auto intro!: mount_free_rules)
  ultimately show ?thesis unfolding createParentDirectories_def by (intro mount_free_rules)
qed


section \<open>Balances and handlers\<close>

text \<open>Assertions over the object and the mounts.\<close>

definition holds :: "environment \<Rightarrow> ('o \<Rightarrow> (string \<Rightarrow> int) \<Rightarrow> bool) \<Rightarrow> 'o \<times> calls \<Rightarrow> bool" where
  "holds E P s \<longleftrightarrow> P (fst s) (balance E (snd s))"

lemma holds_pair [simp]: "holds E P (t, h) \<longleftrightarrow> P t (balance E h)"
  by (simp add: holds_def)

definition up :: "(string \<Rightarrow> int) \<Rightarrow> string \<Rightarrow> string \<Rightarrow> int" where
  "up b p = b(p := b p + 1)"

lemma keeps_holds_ext: "mount_free E m \<Longrightarrow> keeps (holds E P) (ext m)"
  by (rule keepsI) (auto simp: ext_def mount_freeD split: prod.splits)

lemma keeps_holds_lxc: "keeps (holds E P) (lxc E call)"
  unfolding lxc_def by (intro keeps_intros keeps_holds_ext mount_free_basic)

lemma keeps_holds_ensure: "keeps (holds E P) (ensureContainerRunning E)"
  unfolding ensureContainerRunning_def waitForState_def lxcText_def
  by (intro keeps_intros keeps_holds_lxc keeps_holds_ext mount_free_basic)

lemma keeps_holds_executeFunction: "mount_free E f \<Longrightarrow> keeps (holds E P) (executeFunction E f pid vars a b c)"
  unfolding executeFunction_def
  by (intro keeps_intros keeps_holds_ensure keeps_holds_lxc keeps_holds_ext mount_free_entry)

lemma keeps_holds_executeSync: "mount_free E f \<Longrightarrow> keeps (holds E P) (executeSync E f pid)"
  unfolding executeSync_def waitForFunction_def
  by (intro keeps_intros keeps_holds_executeFunction keeps_holds_ext mount_free_basic mount_free_job)

lemma triple_mount:
  "triple (\<lambda>h. balance E h = b) (mount E src dst fstype flags opts)
     (\<lambda>r h. balance E h = (if r = 0 \<and> \<not> changes_mount flags then up b dst else b)) X"
  by (auto simp: triple_def mount_def sys_def up_def fun_eq_iff)

lemma triple_ext:
  assumes "\<And>t. triple (\<lambda>h. P (t, h)) m (\<lambda>a h. Q a (t, h)) (\<lambda>e h. X e (t, h))"
  shows "triple P (ext m) Q X"
  using assms unfolding triple_def ext_def by (force split: prod.splits sum.splits)

lemma triple_mount_ext:
  "triple (holds E (\<lambda>t c. J t \<and> c = b)) (ext (mount E src dst fstype flags opts))
     (\<lambda>r. holds E (\<lambda>t c. J t \<and> c = (if r = 0 \<and> \<not> changes_mount flags then up b dst else b))) X"
  by (rule triple_ext) (auto simp: triple_def mount_def sys_def up_def fun_eq_iff)

text \<open>A function with a local \<open>CreateDir\<close>: what it creates first may mount, and so may the rest of it.\<close>

definition indifferent :: "('a toolkit_scheme \<Rightarrow> (string \<Rightarrow> int) \<Rightarrow> bool) \<Rightarrow> bool" where
  "indifferent P \<longleftrightarrow> (\<forall>t b ds. P t b \<longrightarrow> P (t\<lparr>m_createDirList := ds\<rparr>) b)"

lemma indifferentI: "(\<And>t b ds. P t b \<Longrightarrow> P (t\<lparr>m_createDirList := ds\<rparr>) b) \<Longrightarrow> indifferent P"
  by (simp add: indifferent_def)

lemma triple_scoped_mounts:
  assumes create: "\<And>t b. P t b \<Longrightarrow> triple (holds E (\<lambda>_ c. c = b)) create
      (\<lambda>ok. holds E (\<lambda>_ c. if ok then R t c else F t c)) (\<lambda>e. holds E (\<lambda>_ c. X e t c))"
    and rest: "triple (holds E R) rest (\<lambda>ok. holds E (\<lambda>t c. if ok then S t c else F t c)) (\<lambda>e. holds E (X e))"
    and commit: "\<And>t b. S t b \<Longrightarrow> Q (commit t) b"
    and indiff: "indifferent S"
  shows "triple (holds E P) (scopedCreateDir E create rest commit) (\<lambda>ok. holds E (\<lambda>t c. if ok then Q t c else F t c)) (\<lambda>e. holds E (X e))"
  unfolding triple_def
proof (intro allI impI)
  fix s assume P: "holds E P s"
  obtain t h where s: "s = (t, h)" by force
  obtain r dirs h1 where cr: "create ([], h) = (r, (dirs, h1))" by (rule run_exists)
  obtain q t2 h2 where re: "rest (t, h1) = (q, (t2, h2))" by (rule run_exists)
  have clean: "balance E (snd (destroyCreateDir E dirs k)) = balance E k" for k
    using mount_freeD [OF mount_free_destroyCreateDir] by (metis prod.collapse)
  from P have "P t (balance E h)" by (simp add: s)
  from tripleD [OF create [OF this] _ cr]
  have 1: "case r of Inl e \<Rightarrow> X e t (balance E h1) | Inr ok \<Rightarrow> if ok then R t (balance E h1) else F t (balance E h1)"
    by (auto split: sum.splits if_splits)
  have 2: "case q of Inl e \<Rightarrow> X e t2 (balance E h2) | Inr ok \<Rightarrow> if ok then S t2 (balance E h2) else F t2 (balance E h2)"
    if "r = Inr True" using tripleD [OF rest _ re] 1 that by (auto split: sum.splits)
  have 3: "S t2 (balance E h2) \<Longrightarrow> Q (commit (t2\<lparr>m_createDirList := ds\<rparr>)) (balance E h2)" for ds
    using commit indiff by (simp add: indifferent_def)
  show "case scopedCreateDir E create rest commit s of (Inl e, t) \<Rightarrow> holds E (X e) t
      | (Inr ok, t) \<Rightarrow> holds E (\<lambda>t c. if ok then Q t c else F t c) t"
  proof (cases "r = Inr True")
    case True
    then show ?thesis using 2 3 by (cases q) (auto simp: scopedCreateDir_def s cr re clean)
  next
    case False
    then show ?thesis using 1 by (cases r) (auto simp: scopedCreateDir_def s cr clean)
  qed
qed

section \<open>The operations of the toolkit\<close>

lemma keeps_createDirectoryIn: "keeps (holds E (\<lambda>_ c. c = b)) (createDirectoryIn E fuel path)"
  by (induction fuel arbitrary: path)
    (auto intro!: keeps_intros keeps_holds_ext mount_free_files keeps_updm mount_free_basic)

lemma keeps_createDirectory: "keeps (holds E (\<lambda>_ c. c = b)) (createDirectory E path)"
  unfolding createDirectory_def by (rule keeps_createDirectoryIn)

text \<open>A step that leaves the object and the mounts as they are, before the rest.\<close>

lemma still_bnd:
  assumes "keeps (holds E P) m" "\<And>a. triple (holds E P) (k a) Q (\<lambda>e. holds E (X e))" "\<And>e t c. P t c \<Longrightarrow> X e t c"
  shows "triple (holds E P) (bnd m k) Q (\<lambda>e. holds E (X e))"
  by (rule triple_bnd [OF triple_post [OF triple_keeps [OF assms(1)]] assms(2)]) (auto simp: holds_def assms(3))

lemma still_andThen:
  assumes "keeps (holds E P) m" "triple (holds E P) n (\<lambda>ok. holds E (Q ok)) (\<lambda>e. holds E (X e))"
    "\<And>e t c. P t c \<Longrightarrow> X e t c" "\<And>t c. P t c \<Longrightarrow> Q False t c"
  shows "triple (holds E P) (andThen m n) (\<lambda>ok. holds E (Q ok)) (\<lambda>e. holds E (X e))"
  unfolding andThen_def
  by (rule still_bnd) (auto simp: assms holds_def intro!: triple_ret)

lemma mount_bnd:
  assumes "\<And>r. triple (holds E (\<lambda>t c. J t \<and> c = (if r = 0 \<and> \<not> changes_mount flags then up b dst else b))) (k r) Q X"
  shows "triple (holds E (\<lambda>t c. J t \<and> c = b)) (bnd (ext (mount E src dst fstype flags opts)) k) Q X"
  by (rule triple_bnd [OF triple_mount_ext assms])

lemma triple_body:
  "triple (holds E (\<lambda>_ c. True \<and> c = b)) (bindMountBody E src dst root ro buffered)
     (\<lambda>ok. holds E (\<lambda>_ c. if ok then c = up b dst else c \<in> {b, up b dst})) (\<lambda>_. holds E (\<lambda>_ c. c = b))"
proof -
  let ?b = "holds E (\<lambda>_ c. True \<and> c = b) :: create_dir \<times> calls \<Rightarrow> bool"
  have temp: "keeps ?b (createTempDirectoryFromTemplate E t)" for t
    unfolding createTempDirectoryFromTemplate_def
    by (intro keeps_intros keeps_holds_ext mount_free_basic keeps_updm) simp
  have dirs: "keeps ?b (bindMountDirs E root)"
    unfolding bindMountDirs_def Let_def by (intro keeps_intros temp)
  have first: "triple ?b (if overlay
            then bnd (bindMountDirs E root) (\<lambda>(upper, work). ext (mount E ''overlay'' dst f [] (overlayOptions src upper work)))
            else ext (mount E src dst f [MS_BIND] ''''))
      (\<lambda>r. holds E (\<lambda>_ c. True \<and> c = (if r = 0 then up b dst else b))) (\<lambda>_. holds E (\<lambda>_ c. c = b))" for overlay f
    using triple_mount_ext [where E = E and J = "\<lambda>_. True" and b = b and flags = "[]"] triple_mount_ext [where E = E and J = "\<lambda>_. True" and b = b and flags = "[MS_BIND]"] 
    by (intro triple_if still_bnd dirs) (auto split: prod.split)
  have remount: "triple (holds E (\<lambda>_ c. True \<and> c = (if r = 0 then up b dst else b)))
      (if r \<noteq> 0 then ret False
       else if ro \<and> \<not> buffered
       then bnd (ext (mount E src dst f [MS_REMOUNT, MS_RDONLY, MS_BIND] '''')) (\<lambda>r. ret (r = 0))
       else ret True)
      (\<lambda>ok. holds E (\<lambda>_ c. if ok then c = up b dst else c \<in> {b, up b dst})) (\<lambda>_. holds E (\<lambda>_ c. c = b))" for r f
    by (cases "r = 0") (auto simp: holds_def intro!: triple_if mount_bnd [where J = "\<lambda>_. True", simplified] triple_ret)
  show ?thesis
    unfolding bindMountBody_def Let_def
    by (intro still_andThen still_bnd [OF keeps_if] triple_bnd [OF first remount] keeps_intros keeps_holds_ext mount_free_files)
      auto
qed


text \<open>What the mounting functions of the toolkit leave: on success exactly one mount more at the target; a
  failed \<open>bindMount\<close> may leave it too.\<close>

lemma triple_bindMount:
  assumes "indifferent (\<lambda>t _. J t)"
  shows "triple (holds E (\<lambda>t c. J t \<and> c = b)) (bindMount E src dst root ro buffered)
    (\<lambda>ok. holds E (\<lambda>t c. if ok then J t \<and> c = up b dst else J t \<and> c \<in> {b, up b dst}))
    (\<lambda>e. holds E (\<lambda>t c. J t \<and> c = b))"
  unfolding bindMount_def withCreateDir_def
proof (rule triple_scoped_mounts [where R = "\<lambda>t c. J t \<and> c = up b dst" and S = "\<lambda>t c. J t \<and> c = up b dst"])
  fix t c assume "J t \<and> c = b"
  then show "triple (holds E (\<lambda>_ d. d = c)) (bindMountBody E src dst root ro buffered)
      (\<lambda>ok. holds E (\<lambda>_ c. if ok then J t \<and> c = up b dst else J t \<and> c \<in> {b, up b dst}))
      (\<lambda>e. holds E (\<lambda>_ c. J t \<and> c = b))"
    by (intro triple_post [OF triple_pre [OF triple_body [of E b src dst root ro buffered]]]) (auto simp: holds_def split: if_splits)
qed (use assms in \<open>auto simp: indifferent_def intro: triple_ret\<close>)

lemma triple_overlayMount:
  assumes "indifferent (\<lambda>t _. J t)"
  shows "triple (holds E (\<lambda>t c. J t \<and> c = b)) (overlayMount E lower upper work dst)
    (\<lambda>ok. holds E (\<lambda>t c. if ok then (\<exists>t'. J t' \<and> t = addHandler (OverlaySyncCleanup upper lower) (addHandler (MountCleanUp dst) t'))
         \<and> c = up b dst else J t \<and> c = b))
    (\<lambda>e. holds E (\<lambda>t c. J t \<and> c = b))"
  unfolding overlayMount_def withCreateDir_def
proof (rule triple_scoped_mounts [where R = "\<lambda>t c. J t \<and> c = up b dst" and S = "\<lambda>t c. J t \<and> c = up b dst"])
  fix t c assume "J t \<and> c = b"
  then show "triple (holds E (\<lambda>_ d. d = c)) (andThen (createDirectory E lower) (andThen (createDirectory E upper)
       (andThen (createDirectory E work) (andThen (createDirectory E dst)
         (bnd (ext (mount E ''overlay'' dst ''overlay'' [] (overlayOptions lower upper work))) (\<lambda>r. ret (r = 0)))))))
      (\<lambda>ok. holds E (\<lambda>_ c. if ok then J t \<and> c = up b dst else J t \<and> c = b))
      (\<lambda>e. holds E (\<lambda>_ c. J t \<and> c = b))"
    by (intro still_andThen keeps_createDirectory mount_bnd [where J = "\<lambda>_. True", simplified] triple_ret)
      (auto simp: holds_def)
qed (use assms in \<open>auto simp: indifferent_def intro: triple_ret\<close>)

lemma triple_tmpfsMount:
  assumes "indifferent (\<lambda>t _. J t)"
  shows "triple (holds E (\<lambda>t c. J t \<and> c = b)) (tmpfsMount E dst n)
    (\<lambda>ok. holds E (\<lambda>t c. if ok then (\<exists>t'. J t' \<and> t = addHandler (MountCleanUp dst) t') \<and> c = up b dst
       else J t \<and> c = b))
    (\<lambda>e. holds E (\<lambda>t c. J t \<and> c = b))"
  unfolding tmpfsMount_def withCreateDir_def
proof (rule triple_scoped_mounts [where R = "\<lambda>t c. J t \<and> c = up b dst" and S = "\<lambda>t c. J t \<and> c = up b dst"])
  fix t c assume "J t \<and> c = b"
  moreover have "mount_free E (countEntries E d k)" for d k
    unfolding mount_free_def
    by (induction E d k rule: countEntries.induct)
      (subst countEntries.simps, intro allI keeps_intros, auto simp: mount_free_basic [unfolded mount_free_def])
  then have "mount_free E (isDirectoryEmpty E dst)" unfolding isDirectoryEmpty_def by (intro mount_free_rules)
  ultimately show "triple (holds E (\<lambda>_ d. d = c)) (andThen (createDirectory E dst)
       (bnd (ext (isDirectoryEmpty E dst)) (\<lambda>_.
         bnd (ext (mount E ''tmpfs'' dst ''tmpfs'' [] (''size='' @ to_string n))) (\<lambda>r. ret (r = 0)))))
      (\<lambda>ok. holds E (\<lambda>_ c. if ok then J t \<and> c = up b dst else J t \<and> c = b))
      (\<lambda>e. holds E (\<lambda>_ c. J t \<and> c = b))"
    by (intro still_andThen still_bnd keeps_createDirectory keeps_holds_ext mount_bnd [where J = "\<lambda>_. True", simplified] triple_ret)
      (auto simp: holds_def)
qed (use assms in \<open>auto simp: indifferent_def intro: triple_ret\<close>)

text \<open>A shared mount point has its handler once its propagation is set.\<close>

lemma triple_createSharedMountPoint:
  assumes "propagates E"
  shows "triple (holds E (\<lambda>t c. J t \<and> c = b)) (createSharedMountPoint E path)
    (\<lambda>ok. holds E (\<lambda>t c. if ok then (\<exists>t'. J t' \<and> t = addHandler (MountCleanUp path) t') \<and> c = up b path
       else J t \<and> c = b))
    (\<lambda>e. holds E (\<lambda>t c. J t \<and> c = b))"
  using assms
  by (auto simp: triple_def createSharedMountPoint_def mount_def act_defs sys_def propagates_def up_def fun_eq_iff)


section \<open>Binding into the container\<close>

text \<open>A program that has lost its way has no mounts to answer for.\<close>

abbreviation lost :: "exn \<Rightarrow> bool" where
  "lost e \<equiv> e \<in> {UndefinedBehaviour, NoReturn}"

definition throws_lost :: "('s, 'a) act \<Rightarrow> bool" where
  "throws_lost m \<longleftrightarrow> triple (\<lambda>_. True) m (\<lambda>_ _. True) (\<lambda>e _. lost e)"

lemma throws_lost_bnd: "throws_lost m \<Longrightarrow> (\<And>a. throws_lost (k a)) \<Longrightarrow> throws_lost (bnd m k)"
  unfolding throws_lost_def by (rule triple_bnd)

lemma throws_lost_basic [simp]: "throws_lost (ret a)" "lost e \<Longrightarrow> throws_lost (throw e)" "throws_lost (getm f)"
  "throws_lost (updm u)" "throws_lost (sys E c)" "throws_lost (sysText E c)"
  by (auto simp: throws_lost_def triple_def act_defs sys_def sysText_def)

lemma throws_lost_ext: "throws_lost m \<Longrightarrow> throws_lost (ext m)"
  by (auto simp: throws_lost_def triple_def ext_def split: sum.splits prod.splits)

lemma throws_lost_seq: "throws_lost m \<Longrightarrow> throws_lost n \<Longrightarrow> throws_lost (seq m n)"
  by (simp add: seq_def throws_lost_bnd)

lemma throws_lost_if: "(b \<Longrightarrow> throws_lost m) \<Longrightarrow> (\<not> b \<Longrightarrow> throws_lost n) \<Longrightarrow> throws_lost (if b then m else n)"
  by simp

lemma throws_lost_case: "(\<And>a b. throws_lost (f a b)) \<Longrightarrow> throws_lost (case x of (a, b) \<Rightarrow> f a b)"
  by (cases x) simp

lemma throws_lost_option: "throws_lost m \<Longrightarrow> (\<And>a. throws_lost (f a)) \<Longrightarrow> throws_lost (case x of None \<Rightarrow> m | Some a \<Rightarrow> f a)"
  by (cases x) simp_all

lemmas throws_lost_rules = throws_lost_bnd throws_lost_seq throws_lost_if throws_lost_case throws_lost_option throws_lost_ext
  throws_lost_basic

lemma throws_lost_files: "throws_lost (isDirectory E p)" "throws_lost (touch E p)" "throws_lost (mount E s d f fl opts)"
  unfolding isDirectory_def getStat_def touch_def mount_def by (intro throws_lost_rules)+

lemma throws_lost_lxc: "throws_lost (lxc E call)"
  unfolding lxc_def by (intro throws_lost_rules) simp

lemma throws_lost_ensure: "throws_lost (ensureContainerRunning E)"
  unfolding ensureContainerRunning_def waitForState_def lxcText_def
  by (intro throws_lost_rules throws_lost_lxc) simp

lemma throws_lost_executeSync:
  assumes "throws_lost f"
  shows "throws_lost (executeSync E f pid)"
  unfolding executeSync_def waitForFunction_def executeFunction_def executeInContainerEntryFunction_def unlimitCoreDump_def function_job_def
  by (intro throws_lost_rules throws_lost_ensure throws_lost_lxc assms)

lemma throws_lost_createParentDirectories: "throws_lost (createParentDirectories E path)"
proof -
  have "throws_lost (missingPaths E fuel path paths)" for fuel path paths
    by (induction fuel arbitrary: path paths) (auto intro!: throws_lost_rules throws_lost_files)
  moreover have "throws_lost (makePaths E ps)" for ps
    by (induction ps) (auto intro!: throws_lost_rules)
  ultimately show ?thesis unfolding createParentDirectories_def by (intro throws_lost_rules)
qed

lemma triple_lost:
  assumes "keeps (holds E P) m" "throws_lost m"
  shows "triple (holds E P) m (\<lambda>_. holds E P) (\<lambda>e. holds E (\<lambda>t c. lost e \<or> X t c))"
  using assms unfolding throws_lost_def triple_def keeps_def holds_def
  by (fastforce split: sum.splits prod.splits)

lemma triple_moveMount:
  "triple (holds E P) (moveMount E path tempOnHost tempIn) (\<lambda>_. holds E P) (\<lambda>e. holds E (\<lambda>t c. lost e \<or> X t c))"
proof (rule triple_lost)
  show "keeps (holds E P) (moveMount E path tempOnHost tempIn)"
    unfolding moveMount_def mount_def
    by (intro keeps_intros keeps_holds_executeSync keeps_holds_ext mount_free_createParentDirectories mount_free_files
      mount_free_bnd mount_free_basic changes_mount_simps)
  show "throws_lost (moveMount E path tempOnHost tempIn)"
    unfolding moveMount_def
    by (intro throws_lost_rules throws_lost_executeSync throws_lost_createParentDirectories throws_lost_files)
qed

lemma triple_remount:
  "triple (holds E P) (remountReadOnlyInContainer E path) (\<lambda>_. holds E P) (\<lambda>e. holds E (\<lambda>t c. lost e \<or> X t c))"
proof (rule triple_lost)
  show "keeps (holds E P) (remountReadOnlyInContainer E path)"
    unfolding remountReadOnlyInContainer_def mount_def
    by (intro keeps_intros keeps_holds_executeSync mount_free_basic changes_mount_simps)
  show "throws_lost (remountReadOnlyInContainer E path)"
    unfolding remountReadOnlyInContainer_def by (intro throws_lost_rules throws_lost_executeSync throws_lost_files)
qed

lemma triple_core:
  assumes "indifferent (\<lambda>t _. J t)"
  shows "triple (holds E (\<lambda>t c. J t \<and> c = b)) (bindMountCore E src dst temp ro)
    (\<lambda>ok. holds E (\<lambda>t c. J t \<and> (if ok then c = up b temp else c \<in> {b, up b temp})))
    (\<lambda>e. holds E (\<lambda>t c. lost e \<or> J t \<and> c = b))"
proof -
  have after: "triple (holds E (\<lambda>t c. J t \<and> c = up b temp))
      (andThen (if q then moveMount E dst temp tempIn else ret True) (if ro then remountReadOnlyInContainer E dst else ret True))
      (\<lambda>ok. holds E (\<lambda>t c. J t \<and> (if ok then c = up b temp else c \<in> {b, up b temp})))
      (\<lambda>e. holds E (\<lambda>t c. lost e \<or> J t \<and> c = b))" for q tempIn
    by (intro triple_andThen [where R = "holds E (\<lambda>t c. J t \<and> c = up b temp)"] triple_if
        triple_post [OF triple_moveMount [where X = "\<lambda>_ _. False"]] triple_post [OF triple_remount [where X = "\<lambda>_ _. False"]] triple_ret)
      (auto simp: holds_def split: if_splits)
  have inner: "triple (holds E (\<lambda>t c. J t \<and> c = b))
      (andThen (bindMount E src temp root ro buffered)
         (andThen (if q then moveMount E dst temp tempIn else ret True) (if ro then remountReadOnlyInContainer E dst else ret True)))
      (\<lambda>ok. holds E (\<lambda>t c. J t \<and> (if ok then c = up b temp else c \<in> {b, up b temp})))
      (\<lambda>e. holds E (\<lambda>t c. lost e \<or> J t \<and> c = b))" for root buffered q tempIn
    by (rule triple_andThen [OF triple_post [OF triple_bindMount [OF assms]] after])
      (auto simp: holds_def split: if_splits)
  show ?thesis
    unfolding bindMountCore_def Let_def
    by (intro still_andThen [OF keeps_holds_ensure] still_bnd [OF keeps_getm] triple_if inner triple_throw triple_ret)
      (auto simp: holds_def)
qed


text \<open>Undoing a mount: a mount that is there goes, and of several the last one.\<close>

definition rolled :: "(string \<Rightarrow> int) \<Rightarrow> string \<Rightarrow> (string \<Rightarrow> int) \<Rightarrow> bool" where
  "rolled b path c \<longleftrightarrow> (\<forall>p. p \<noteq> path \<longrightarrow> c p = b p) \<and> c path \<le> max 0 (b path)"

lemma rolled_refl: "rolled b path b"
  by (simp add: rolled_def)

lemma clean_mount:
  assumes "detaches E" "clean E (MountCleanUp path) h = (r, h')"
  shows "(\<forall>p. p \<noteq> path \<longrightarrow> balance E h' p = balance E h p) \<and>
    (if 0 < balance E h path then balance E h' path = balance E h path - 1 else balance E h' path \<le> balance E h path)"
proof (cases "fst (answer E h (Mnt (Umount2 path MNT_DETACH))) = 0")
  case True
  then show ?thesis using assms(2) by (auto simp: act_defs sys_def)
next
  case False
  moreover from this assms(1) have "\<not> 0 < balance E h path" by (auto simp: detaches_def)
  ultimately show ?thesis using assms(2) by (auto simp: act_defs sys_def)
qed

lemma clean_mount_rolled:
  assumes "detaches E" "clean E (MountCleanUp path) h = (r, h')" "balance E h \<in> {b, up b path}"
  shows "rolled b path (balance E h')"
  using clean_mount [OF assms(1,2)] assms(3) by (auto simp: rolled_def up_def max_def split: if_splits)

lemma clean_mount_returns: "fst (clean E (MountCleanUp path) h) \<noteq> Inl e"
  by (simp add: act_defs sys_def)

lemma triple_mountOrRollback:
  assumes "indifferent (\<lambda>t _. J t)" "detaches E"
  shows "triple (holds E (\<lambda>t c. J t \<and> c = b)) (mountOrRollback E src dst temp ro)
    (\<lambda>ok. holds E (\<lambda>t c. if ok then J t \<and> c = up b temp else J t \<and> rolled b temp c))
    (\<lambda>e. holds E (\<lambda>t c. lost e \<or> J t \<and> rolled b temp c))"
  unfolding mountOrRollback_def
proof (rule triple_bnd [OF triple_post [OF triple_core [OF assms(1)], where Q' = "\<lambda>ok. holds E (\<lambda>t c. J t \<and> (if ok then c = up b temp else c \<in> {b, up b temp}))"]])
  fix ok
  have "triple (holds E (\<lambda>t c. J t \<and> c \<in> {b, up b temp})) (bnd (ext (clean E (MountCleanUp temp))) (\<lambda>_. ret False))
      (\<lambda>ok. holds E (\<lambda>t c. if ok then J t \<and> c = up b temp else J t \<and> rolled b temp c)) X" for X
    unfolding triple_def
  proof (intro allI impI)
    fix s :: "container \<times> calls" assume "holds E (\<lambda>t c. J t \<and> c \<in> {b, up b temp}) s"
    then obtain t h where s: "s = (t, h)" "J t" "balance E h \<in> {b, up b temp}" by (cases s) auto
    obtain r h' where run: "clean E (MountCleanUp temp) h = (r, h')" by force
    then obtain a where "r = Inr a" using clean_mount_returns [of E temp h] by (cases r) force+
    with run clean_mount_rolled [OF assms(2) run s(3)] s
    show "case bnd (ext (clean E (MountCleanUp temp))) (\<lambda>_. ret False) s of (Inl e, t) \<Rightarrow> X e t
        | (Inr ok, t) \<Rightarrow> holds E (\<lambda>t c. if ok then J t \<and> c = up b temp else J t \<and> rolled b temp c) t"
      by (simp add: bnd_def ext_def ret_def del: clean.simps)
  qed
  then show "triple (holds E (\<lambda>t c. J t \<and> (if ok then c = up b temp else c \<in> {b, up b temp})))
      (if ok then ret True else bnd (ext (clean E (MountCleanUp temp))) (\<lambda>_. ret False))
      (\<lambda>ok. holds E (\<lambda>t c. if ok then J t \<and> c = up b temp else J t \<and> rolled b temp c))
      (\<lambda>e. holds E (\<lambda>t c. lost e \<or> J t \<and> rolled b temp c))"
    by (cases ok) (auto simp: holds_def intro!: triple_ret)
qed (auto simp: holds_def rolled_refl)

lemma keeps_prepareTarget: "keeps (holds E (\<lambda>_ c. c = b)) (prepareTarget E isDir temp known)"
  unfolding prepareTarget_def
  by (intro keeps_intros keeps_createDirectory keeps_holds_ext mount_free_files)

text \<open>The handlers of an object and, for a container, its root.\<close>

definition handlers_root :: "cleanup_handler list \<Rightarrow> string \<Rightarrow> container \<Rightarrow> bool" where
  "handlers_root hs root t \<longleftrightarrow> m_cleanupHandlers t = hs \<and> c_containerRoot t = root"

definition mount_added :: "cleanup_handler list \<Rightarrow> string \<Rightarrow> cleanup_handler list \<Rightarrow> bool" where
  "mount_added hs path hs' \<longleftrightarrow> (\<exists>file_handler \<in> {[], [FileCleanUp path]}. hs' = hs @ file_handler @ [MountCleanUp path])"

lemma triple_bindMountInContainer:
  assumes "detaches E" and temp: "temp = buildPath E (buildPath E root GATEWAYS_PATH) (baseName E dst)"
  shows "triple (holds E (\<lambda>t c. handlers_root hs root t \<and> c = b)) (container_bindMountInContainer E fuel src dst ro)
    (\<lambda>ok. holds E (\<lambda>t c. if ok then mount_added hs temp (m_cleanupHandlers t) \<and> c = up b temp
        else handlers_root hs root t \<and> rolled b temp c))
    (\<lambda>e. holds E (\<lambda>t c. lost e \<or> handlers_root hs root t \<and> rolled b temp c))"
proof -
  let ?P = "\<lambda>t c. handlers_root hs root t \<and> c = b"
  let ?X = "\<lambda>e t c. lost e \<or> handlers_root hs root t \<and> rolled b temp c"
  let ?Q = "\<lambda>ok t c. if ok then mount_added hs temp (m_cleanupHandlers t) \<and> c = up b temp
        else handlers_root hs root t \<and> rolled b temp c"
  have J: "indifferent (\<lambda>t _. handlers_root hs root t)" by (simp add: indifferent_def handlers_root_def)
  have scoped: "triple (holds E ?P) (scopedCreateDir E (prepareTarget E isDir temp known)
      (mountOrRollback E src dst temp ro)
      (\<lambda>c. addHandler (MountCleanUp temp) (if isDir then c else addHandler (FileCleanUp temp) c)))
      (\<lambda>ok. holds E (?Q ok)) (\<lambda>e. holds E (?X e))" for isDir known
  proof (rule triple_scoped_mounts [where R = ?P and S = "\<lambda>t c. handlers_root hs root t \<and> c = up b temp"])
    show "triple (holds E (\<lambda>_ d. d = c)) (prepareTarget E isDir temp known)
      (\<lambda>ok. holds E (\<lambda>_ c. if ok then handlers_root hs root t \<and> c = b else handlers_root hs root t \<and> rolled b temp c))
      (\<lambda>e. holds E (\<lambda>_ c. lost e \<or> handlers_root hs root t \<and> rolled b temp c))"
      if "handlers_root hs root t \<and> c = b" for t c
      using that by (intro triple_post [OF triple_keeps [OF keeps_prepareTarget]]) (auto simp: holds_def rolled_refl)
  qed (use J triple_mountOrRollback [OF J assms(1)] in
    \<open>auto simp: indifferent_def handlers_root_def mount_added_def addHandler_def\<close>)
  have gate: "triple (holds E ?P) (bnd (getm (\<lambda>c. c)) k) (\<lambda>ok. holds E (?Q ok)) (\<lambda>e. holds E (?X e))"
    if "\<And>c. gatewaysDir E c = buildPath E root GATEWAYS_PATH \<Longrightarrow> triple (holds E ?P) (k c) (\<lambda>ok. holds E (?Q ok)) (\<lambda>e. holds E (?X e))" for k
    using that by (auto simp: triple_def bnd_def getm_def gatewaysDir_def handlers_root_def holds_def)
  show ?thesis
    unfolding container_bindMountInContainer_def Let_def
    by (intro still_andThen gate still_bnd keeps_holds_ext keeps_intros keeps_holds_executeSync
        mount_free_files mount_free_checkMounted)
     (simp_all add: rolled_refl temp [symmetric] scoped [simplified] cong: if_cong split del: if_split)
qed


section \<open>Every mount has its handler\<close>

definition handlers_for :: "'a toolkit_scheme \<Rightarrow> string \<Rightarrow> int" where
  "handlers_for t p = int (count_list (m_cleanupHandlers t) (MountCleanUp p))"

lemma handlers_for_simps [simp]:
  "handlers_for (addHandler c t) p = handlers_for t p + (if c = MountCleanUp p then 1 else 0)"
  "handlers_for (t\<lparr>m_createDirList := ds\<rparr>) p = handlers_for t p"
  by (simp_all add: handlers_for_def addHandler_def)

definition covered :: "'a toolkit_scheme \<Rightarrow> (string \<Rightarrow> int) \<Rightarrow> bool" where
  "covered t b \<longleftrightarrow> (\<forall>p. b p \<le> handlers_for t p)"

lemma handlers_nonneg: "0 \<le> handlers_for t p"
  by (simp add: handlers_for_def)

lemma covered_rolled: "covered t b \<Longrightarrow> rolled b path c \<Longrightarrow> covered t c"
  using handlers_nonneg [of t path] unfolding covered_def rolled_def
  by (metis max.absorb1 max.absorb2 nle_le order_trans)

lemma covered_same: "covered t b \<Longrightarrow> m_cleanupHandlers t' = m_cleanupHandlers t \<Longrightarrow> covered t' b"
  by (simp add: covered_def handlers_for_def)

lemma covered_added: "covered t b \<Longrightarrow> mount_added (m_cleanupHandlers t) path (m_cleanupHandlers t') \<Longrightarrow> c = up b path \<Longrightarrow> covered t' c"
  by (auto simp: covered_def mount_added_def handlers_for_def up_def)

text \<open>A method that keeps what is mounted covered by the handlers.\<close>

definition accounted :: "environment \<Rightarrow> 'a container_meth \<Rightarrow> bool" where
  "accounted E m \<longleftrightarrow> triple (holds E covered) m (\<lambda>_. holds E covered) (\<lambda>e. holds E (\<lambda>t c. lost e \<or> covered t c))"

lemma accounted_keeps: "keeps (holds E covered) m \<Longrightarrow> accounted E m"
  unfolding accounted_def by (rule triple_post [OF triple_keeps]) (auto simp: holds_def)

lemma accounted_bnd: "accounted E m \<Longrightarrow> (\<And>a. accounted E (k a)) \<Longrightarrow> accounted E (bnd m k)"
  unfolding accounted_def by (rule triple_bnd)

lemma accounted_seq: "accounted E m \<Longrightarrow> accounted E n \<Longrightarrow> accounted E (seq m n)"
  by (simp add: seq_def accounted_bnd)

lemma accounted_basic: "accounted E (ret a)" "accounted E (throw e)" "accounted E (getm f)" "accounted E (lxc E call)"
  "accounted E (ensureContainerRunning E)"
  by (intro accounted_keeps keeps_intros keeps_holds_lxc keeps_holds_ensure)+

lemma accounted_andThen: "accounted E m \<Longrightarrow> accounted E n \<Longrightarrow> accounted E (andThen m n)"
  by (simp add: andThen_def accounted_bnd accounted_basic)

lemma accounted_if: "(b \<Longrightarrow> accounted E m) \<Longrightarrow> (\<not> b \<Longrightarrow> accounted E n) \<Longrightarrow> accounted E (if b then m else n)"
  by simp

lemma accounted_case: "(\<And>a b. accounted E (f a b)) \<Longrightarrow> accounted E (case x of (a, b) \<Rightarrow> f a b)"
  by (cases x) simp

lemma accounted_option: "accounted E m \<Longrightarrow> (\<And>a. accounted E (f a)) \<Longrightarrow> accounted E (case x of None \<Rightarrow> m | Some a \<Rightarrow> f a)"
  by (cases x) simp_all

lemma accounted_ext: "mount_free E m \<Longrightarrow> accounted E (ext m)"
  by (rule accounted_keeps) (rule keeps_holds_ext)

lemma accounted_umount: "accounted E (ext (sys E (Mnt (Umount p))))"
  by (rule accounted_keeps) (auto simp: keeps_def ext_def sys_def covered_def intro: order_trans [rotated])

lemma accounted_updm: "(\<And>t. m_cleanupHandlers (f t) = m_cleanupHandlers t) \<Longrightarrow> accounted E (updm f)"
  by (rule accounted_keeps) (auto simp: keeps_def updm_def intro: covered_same)

lemma accounted_setState: "accounted E (setState st)"
  unfolding setState_def by (rule accounted_updm) simp

lemmas accounted_rules = accounted_bnd accounted_seq accounted_andThen accounted_if accounted_case accounted_option
  accounted_basic accounted_setState

text \<open>From the handlers and mounts before to those after.\<close>

lemma accountedI:
  assumes "\<And>(t0 :: container) b. covered t0 b \<Longrightarrow> triple (holds E (\<lambda>t c. handlers_root (m_cleanupHandlers t0) (c_containerRoot t0) t \<and> c = b)) m
    (\<lambda>_. holds E covered) (\<lambda>e. holds E (\<lambda>t c. lost e \<or> covered t c))"
  shows "accounted E m"
  unfolding accounted_def triple_def
proof (intro allI impI)
  fix s :: "container \<times> calls" assume cov: "holds E covered s"
  obtain t h where s: "s = (t, h)" by force
  show "case m s of (Inl e, t) \<Rightarrow> holds E (\<lambda>t c. lost e \<or> covered t c) t | (Inr a, t) \<Rightarrow> holds E covered t"
    using assms [of t "balance E h"] cov unfolding triple_def by (simp add: s handlers_root_def)
qed

lemma indifferent_root: "indifferent (\<lambda>t _. handlers_root hs root t)"
  by (simp add: indifferent_def handlers_root_def)

lemma covered_root: "covered t0 b \<Longrightarrow> handlers_root (m_cleanupHandlers t0) root t \<Longrightarrow> covered t b"
  by (auto simp: handlers_root_def intro: covered_same)

lemma covered_up: "covered t b \<Longrightarrow> covered (addHandler (MountCleanUp path) t) (up b path)"
  by (simp add: covered_def up_def)

lemma covered_sync: "covered t b \<Longrightarrow> covered (addHandler (OverlaySyncCleanup upper lower) t) b"
  by (simp add: covered_def)

lemma accounted_bindMount: "detaches E \<Longrightarrow> accounted E (container_bindMountInContainer E fuel src dst ro)"
  by (rule accountedI, rule triple_post [OF triple_bindMountInContainer])
    (auto simp: holds_def intro: covered_added covered_rolled [OF covered_root] split: if_splits)

lemma accounted_overlay: "accounted E (overlayMount E lower upper work dst)"
  by (rule accountedI, rule triple_post [OF triple_overlayMount [OF indifferent_root]])
    (auto simp: holds_def intro!: covered_up covered_sync intro: covered_root split: if_splits)

lemma accounted_initialize:
  assumes "propagates E"
  shows "accounted E (container_initialize E)"
proof -
  have "accounted E (scopedCreateDir E (createDirectory E path) (createSharedMountPoint E path) (c_state_update (\<lambda>_. PREPARED)))" for path
  proof (rule accountedI)
    fix t0 :: container and b assume cov: "covered t0 b"
    let ?J = "handlers_root (m_cleanupHandlers t0) (c_containerRoot t0)"
    have done_: "covered t c" if "(\<exists>t'. ?J t' \<and> t = addHandler (MountCleanUp path) t') \<and> c = up b path" for t c
      using that cov by (auto intro!: covered_up intro: covered_root)
    have cr: "triple (holds E (\<lambda>_ d. d = c)) (createDirectory E path) (\<lambda>ok. holds E (\<lambda>_ c. if ok then ?J t \<and> c = b else covered t c))
        (\<lambda>e. holds E (\<lambda>_ c. lost e \<or> covered t c))" if "?J t \<and> c = b" for t c
      using that cov by (intro triple_post [OF triple_keeps [OF keeps_createDirectory]]) (auto simp: holds_def intro: covered_root)
    have mount: "triple (holds E (\<lambda>t c. ?J t \<and> c = b)) (createSharedMountPoint E path)
        (\<lambda>ok. holds E (\<lambda>t c. if ok then covered t c else covered t c)) (\<lambda>e. holds E (\<lambda>t c. lost e \<or> covered t c))"
      by (rule triple_post [OF triple_createSharedMountPoint [OF assms]])
        (use cov in \<open>auto simp: holds_def intro: done_ covered_root split: if_splits\<close>)
    have "triple (holds E (\<lambda>t c. ?J t \<and> c = b)) (scopedCreateDir E (createDirectory E path) (createSharedMountPoint E path)
        (c_state_update (\<lambda>_. PREPARED))) (\<lambda>ok. holds E (\<lambda>t c. if ok then covered t c else covered t c))
        (\<lambda>e. holds E (\<lambda>t c. lost e \<or> covered t c))"
      by (rule triple_scoped_mounts [OF cr mount]) (auto simp: indifferent_def covered_def handlers_for_def)
    then show "triple (holds E (\<lambda>t c. ?J t \<and> c = b)) (scopedCreateDir E (createDirectory E path) (createSharedMountPoint E path)
        (c_state_update (\<lambda>_. PREPARED))) (\<lambda>_. holds E covered) (\<lambda>e. holds E (\<lambda>t c. lost e \<or> covered t c))"
      unfolding if_cancel .
  qed
  then show ?thesis unfolding container_initialize_def by (intro accounted_rules)
qed


text \<open>The operations of the container.\<close>

lemma accounted_executeFunction: "mount_free E f \<Longrightarrow> accounted E (executeFunction E f pid vars a b c)"
  by (intro accounted_keeps keeps_holds_executeFunction)

lemma accounted_waitForState: "accounted E (waitForState E state timeout)"
  unfolding waitForState_def lxcText_def by (intro accounted_rules accounted_ext mount_free_basic)

lemma accounted_shutdown: "accounted E (container_shutdown E timeout)"
  unfolding container_shutdown_def container_stop_def
  by (intro accounted_rules accounted_ext accounted_waitForState mount_free_basic)

lemma accounted_destroy: "accounted E (container_destroy E timeout)"
  unfolding container_destroy_def
  by (intro accounted_rules accounted_shutdown accounted_umount)

lemma accounted_rollback: "accounted E (rollbackCreate E)"
  unfolding rollbackCreate_def by (intro accounted_rules accounted_updm) simp

lemma accounted_create: "accounted E (container_create E root templ)"
  unfolding container_create_def mountRootFS_def
  by (intro accounted_rules accounted_ext accounted_overlay accounted_rollback accounted_updm mount_free_basic) simp_all

lemma accounted_writeToFile: "accounted E (toolkit_writeToFile E path content)"
proof -
  have "accounted E (markFileForDeletion path)"
    unfolding markFileForDeletion_def
    by (rule accounted_keeps) (auto simp: keeps_def updm_def covered_def)
  then show ?thesis
    unfolding toolkit_writeToFile_def by (intro accounted_rules accounted_ext mount_free_files)
qed

fun mounts_nothing :: "environment \<Rightarrow> container_op \<Rightarrow> bool" where
  "mounts_nothing E (OpExecuteFunction f vars) \<longleftrightarrow> mount_free E f"
| "mounts_nothing E _ \<longleftrightarrow> True"

lemma accounted_done: "accounted E m \<Longrightarrow> accounted E (done_with m)"
  unfolding done_with_def by (intro accounted_rules)

lemma accounted_perform:
  assumes "detaches E" "propagates E" "mounts_nothing E op"
  shows "accounted E (perform E op)"
proof (cases op)
  case (OpExecuteFunction f vars)
  with assms show ?thesis by (auto intro!: accounted_done accounted_executeFunction mount_free_job)
next
  case (OpExecuteCommand command vars dir)
  show ?thesis unfolding OpExecuteCommand perform.simps executeCommand_def
    by (intro accounted_done accounted_rules accounted_executeFunction mount_free_command)
qed (auto intro!: accounted_done accounted_initialize accounted_create accounted_shutdown accounted_destroy accounted_bindMount assms
  accounted_rules accounted_ext accounted_waitForState accounted_updm accounted_writeToFile mount_free_basic
  simp: container_start_def container_stop_def container_suspend_def container_resume_def container_setCgroupItem_def
    container_mountDevice_def container_setEnvironmentVariable_def)

section \<open>The destructor\<close>

lemma clean_returns: "\<exists>ok. fst (clean E c h) = Inr ok"
  by (cases c) (auto simp: act_defs sys_def existsInFileSystem_def getStat_def recursiveDelete_def recursiveCopy_def)

lemma cleanAll_mounts:
  assumes "detaches E"
  shows "cleanAll E hs h = (r, h') \<Longrightarrow> r = Inr () \<and>
    (\<forall>p. balance E h' p \<le> max 0 (balance E h p - int (count_list hs (MountCleanUp p))))"
proof (induction hs arbitrary: h)
  case Nil
  then show ?case by (simp add: ret_def)
next
  case (Cons c hs)
  obtain q k where cl: "clean E c h = (q, k)" by force
  obtain ok where q: "q = Inr ok" using clean_returns [of E c h] cl by auto
  have rest: "cleanAll E hs k = (r, h')" using Cons.prems cl q by (simp add: bnd_def)
  have step: "balance E k p \<le> (if c = MountCleanUp p then max (balance E h p - 1) 0 else balance E h p)" for p
  proof (cases "\<exists>path. c = MountCleanUp path")
    case True
    then obtain path where c: "c = MountCleanUp path" by blast
    from clean_mount [OF assms cl [unfolded c]] show ?thesis by (auto simp: c max_def split: if_splits)
  next
    case False
    then have "mount_free E (clean E c)" by (cases c) (auto intro!: mount_free_rules mount_free_files)
    from mount_freeD [OF this cl] False show ?thesis by auto
  qed
  from Cons.IH [OF rest] have r: "r = Inr ()"
    and le: "balance E h' p \<le> max 0 (balance E k p - int (count_list hs (MountCleanUp p)))" for p by auto
  have "balance E h' p \<le> max 0 (balance E h p - int (count_list (c # hs) (MountCleanUp p)))" for p
    using le [of p] step [of p] by (auto simp: max_def split: if_splits)
  with r show ?case by blast
qed

lemma destroyCreateDir_run: "\<exists>h'. destroyCreateDir E dirs h = (Inr (), h') \<and> balance E h' = balance E h"
proof -
  obtain r h' where run: "destroyCreateDir E dirs h = (r, h')" by force
  have "\<exists>h'. cleanAll E cs h = (Inr (), h')" for cs h
  proof (induction cs arbitrary: h)
    case (Cons c cs)
    obtain ok k where "clean E c h = (Inr ok, k)" using clean_returns [of E c h] by (metis prod.collapse)
    with Cons show ?case by (simp add: bnd_def)
  qed (simp add: ret_def)
  then have "r = Inr ()" using run unfolding destroyCreateDir_def by (metis fst_conv)
  with run mount_freeD [OF mount_free_destroyCreateDir run] show ?thesis by simp
qed

lemma destroyToolkit_mounts:
  assumes "detaches E" "covered t (balance E h)"
  shows "\<exists>h'. destroyToolkit E t h = (Inr (), h') \<and> (\<forall>p. balance E h' p \<le> 0)"
proof -
  obtain r k where cl: "cleanAll E (rev (m_cleanupHandlers t)) h = (r, k)" by force
  have "balance E k p \<le> 0" for p
    using cleanAll_mounts [OF assms(1) cl] assms(2) unfolding covered_def handlers_for_def
    by (metis count_list_rev diff_le_0_iff_le max.absorb1 order_trans)
  moreover have "\<exists>h'. for_each (destroyCreateDir E) xs k = (Inr (), h') \<and> balance E h' = balance E k" for xs k
  proof (induction xs arbitrary: k)
    case (Cons x xs)
    obtain k' where "destroyCreateDir E x k = (Inr (), k')" "balance E k' = balance E k" using destroyCreateDir_run by blast
    with Cons [of k'] show ?case by (auto simp: seq_def bnd_def)
  qed (simp add: ret_def)
  ultimately show ?thesis using cl cleanAll_mounts [OF assms(1) cl]
    by (fastforce simp: destroyToolkit_def seq_def bnd_def)
qed


text \<open>The destructor of the container reaches that of the toolkit.\<close>

lemma quiet_shutdown: "quiet (container_shutdown E timeout)"
  unfolding container_shutdown_def container_stop_def waitForState_def lxc_def lxcText_def setState_def
  by (intro quiet_rules)

lemma shutdown_returns:
  assumes "started (part c)" "container_shutdown E timeout (c, h) = (r, t)"
  shows "\<exists>ok. r = Inr ok \<and> started (part (fst t))"
proof -
  obtain q where run: "perform E (OpShutdown timeout) (c, h) = (q, t)" and q: "\<And>e. r = Inl e \<Longrightarrow> q = Inl e"
    using assms(2) by (cases r) (auto simp: done_with_def bnd_def ret_def)
  from perform_moves [OF run] assms(1) have "started (part (fst t))" "q \<noteq> Inl UndefinedBehaviour" by (auto simp: okay_def)
  moreover have "r = Inl e \<Longrightarrow> e = UndefinedBehaviour" for e
    using quiet_shutdown assms(2) unfolding quiet_def by (metis fst_conv)
  ultimately show ?thesis using q by (cases r) auto
qed

lemma keeps_handle:
  "keeps (\<lambda>s. c_hasContainer (fst s)) (container_shutdown E timeout)"
  "keeps (\<lambda>s. c_hasContainer (fst s)) (container_destroy E timeout)"
proof -
  let ?I = "\<lambda>s :: container \<times> calls. c_hasContainer (fst s)"
  have st: "keeps ?I (setState s)" for s unfolding setState_def by (rule keeps_updm) simp
  have lx: "keeps ?I (lxc E call)" "keeps ?I (waitForState E s t)" for call s t
    by (auto simp: waitForState_def lxcText_def lxc_def intro!: keeps_intros keeps_ext)
  show sh: "keeps ?I (container_shutdown E timeout)"
    unfolding container_shutdown_def container_stop_def by (intro keeps_intros st lx keeps_ext) simp_all
  show "keeps ?I (container_destroy E timeout)"
    unfolding container_destroy_def by (intro keeps_intros st lx sh keeps_ext) simp_all
qed

lemma accounted_run:
  assumes "accounted E m" "covered c (balance E h)" "m (c, h) = (r, (c', h'))" "\<And>e. r = Inl e \<Longrightarrow> \<not> lost e"
  shows "covered c' (balance E h')"
  using tripleD [OF assms(1) [unfolded accounted_def] _ assms(3)] assms(2,4) by (cases r) auto

text \<open>One of the two steps of the destructor before the handle goes.\<close>

lemma destructor_step:
  assumes m: "m = container_shutdown E timeout \<or> m = container_destroy E timeout"
    and "started (part c)" "c_hasContainer c" "covered c (balance E h)"
  shows "\<exists>ok c' h'. (if b then m else ret True) (c, h) = (Inr ok, (c', h')) \<and> started (part c') \<and> c_hasContainer c' \<and>
    covered c' (balance E h')"
proof (cases b)
  case True
  obtain r c' h' where run: "m (c, h) = (r, (c', h'))" by (rule run_exists)
  have ok: "\<exists>ok. r = Inr ok \<and> started (part c')"
    using m assms(2) run shutdown_returns [of c E timeout h r "(c', h')"] destroy_returns [of c E timeout h r "(c', h')"] by auto
  have "keeps (\<lambda>s. c_hasContainer (fst s)) m" "accounted E m"
    using m keeps_handle accounted_shutdown accounted_destroy by auto
  with True ok run assms(3,4) accounted_run [of E m c h r c' h'] keepsD [of "\<lambda>s. c_hasContainer (fst s)" m "(c, h)"]
  show ?thesis by fastforce
qed (use assms in \<open>auto simp: ret_def\<close>)

lemma destroyContainer_mounts:
  assumes "detaches E" "started (part c)" "covered c (balance E h)"
  shows "\<exists>c' h'. destroyContainer E (c, h) = (Inr (), (c', h')) \<and> (\<forall>p. balance E h' p \<le> 0)"
proof -
  have last: "\<exists>c' h'. bnd (getm (\<lambda>c. c)) (\<lambda>c. ext (destroyToolkit E c)) (d, k) = (Inr (), (c', h')) \<and> (\<forall>p. balance E h' p \<le> 0)"
    if "covered d (balance E k)" for d :: container and k
    using destroyToolkit_mounts [OF assms(1) that] by (auto simp: bnd_def getm_def ext_def)
  show ?thesis
  proof (cases "c_hasContainer c")
    case False
    with last [OF assms(3)] show ?thesis by (simp add: destroyContainer_def act_defs)
  next
    case True
    let ?t = "c_shutdownTimeout c"
    obtain ok1 c1 h1 where 1: "(if STARTED \<le> c_state c then container_shutdown E ?t else ret True) (c, h) = (Inr ok1, (c1, h1))"
      "started (part c1)" "c_hasContainer c1" "covered c1 (balance E h1)"
      using destructor_step [OF disjI1 [OF refl] assms(2) True assms(3)] by blast
    obtain ok2 c2 h2 where 2: "(if CONTAINER_CREATED \<le> c_state c1 then container_destroy E ?t else ret True) (c1, h1) = (Inr ok2, (c2, h2))"
      "c_hasContainer c2" "covered c2 (balance E h2)"
      using destructor_step [OF disjI2 [OF refl] 1(2-4)] by blast
    have cov: "covered (c2\<lparr>c_hasContainer := False\<rparr>) (balance E (Lxc LxcPut # h2))"
      using 2(3) by (simp add: covered_same [of c2])
    have get: "bnd (getm f) k (d, j) = k (f d) (d, j)" for f and k :: "'b \<Rightarrow> 'c container_meth" and d j
      by (simp add: bnd_def getm_def)
    have put: "bnd (lxc E LxcPut) (\<lambda>_. updm (c_hasContainer_update (\<lambda>_. False))) (c2, h2) =
        (Inr (), (c2\<lparr>c_hasContainer := False\<rparr>, Lxc LxcPut # h2))"
      using 2(2) by (simp add: lxc_def act_defs sys_def)
    have "destroyContainer E (c, h) = bnd (getm (\<lambda>c. c)) (\<lambda>c. ext (destroyToolkit E c)) (c2\<lparr>c_hasContainer := False\<rparr>, Lxc LxcPut # h2)"
      unfolding destroyContainer_def get seq_def
      by (subst bnd_run(1) [where a = "()" and t = "(c2\<lparr>c_hasContainer := False\<rparr>, Lxc LxcPut # h2)"]) (simp_all only: True if_True bnd_run(1) [where m = "if STARTED \<le> c_state c then container_shutdown E ?t else ret True", OF 1(1)] get bnd_run(1) [where m = "if CONTAINER_CREATED \<le> c_state c1 then container_destroy E ?t else ret True", OF 2(1)] put)
    with last [OF cov] show ?thesis by simp
  qed
qed


section \<open>Properties\<close>

text \<open>A step of a run: an operation as its caller has to call it, that returns or throws, and whose functions
  for the container do not mount.\<close>

inductive mount_step :: "environment \<Rightarrow> container \<times> calls \<Rightarrow> container \<times> calls \<Rightarrow> bool" for E where
  "allowed op (c_state (fst s)) \<Longrightarrow> mounts_nothing E op \<Longrightarrow> perform E op s = (r, t) \<Longrightarrow> r \<noteq> Inl NoReturn \<Longrightarrow> mount_step E s t"

inductive_cases mount_stepE: "mount_step E s t"

lemma run_covered:
  assumes "(mount_step E)\<^sup>*\<^sup>* s t" "detaches E" "propagates E" "started (part (fst s))" "covered (fst s) (balance E (snd s))"
  shows "started (part (fst t)) \<and> covered (fst t) (balance E (snd t))"
  using assms(1)
proof (induction rule: rtranclp_induct)
  case (step t u)
  from step.hyps(2) obtain op r where op: "allowed op (c_state (fst t))" "mounts_nothing E op" "perform E op t = (r, u)" "r \<noteq> Inl NoReturn"
    by (blast elim: mount_stepE)
  from perform_moves [OF op(3) _ op(1)] step.IH have "started (part (fst u))" "r \<noteq> Inl UndefinedBehaviour" by (auto simp: okay_def)
  moreover from this op(4) step.IH
  have "covered (fst u) (balance E (snd u))"
    using accounted_run [OF accounted_perform [OF assms(2,3) op(2)], of "fst t" "snd t" r "fst u" "snd u"] op(3) by auto
  ultimately show ?case by simp
qed (use assms in auto)


text \<open>A machine in which every path is there, \<open>/host\<close> a file and all else directories, and every call succeeds.\<close>

definition mount_env :: environment where
  "mount_env = (lxc_env 0 0)\<lparr>answer := (\<lambda>h c. (case c of
      File (Stat p) \<Rightarrow> (if p = ''/host'' then S_IFREG else S_IFDIR, '''') | _ \<Rightarrow> answer (lxc_env 0 0) h c)),
     path_get_basename := (\<lambda>p. rev (takeWhile (\<lambda>c. c \<noteq> CHR ''/'') (rev p)))\<rparr>"

lemma mount_env_kernel: "detaches mount_env" "propagates mount_env"
  by (auto simp: detaches_def propagates_def mount_env_def lxc_env_def plain_env_def)

definition shared_container :: "container \<times> calls" where
  "shared_container = snd (perform mount_env OpInitialize (newContainer ''SC-0'' '''' ''/sc'' False 1, []))"


text \<open>A request to mount at a path that is not absolute is refused, but only after its directory under
  that of the gateways has been settled on by the last part of the path alone, and the refusal
  unmounts what is mounted there: the mount of an earlier request for a path that ends alike is gone,
  though its handlers stay.\<close>

theorem refused_mount_undoes_another:
  assumes "c_state c = STARTED" "c_hasContainer c" "dst \<noteq> ''''" "hd dst \<noteq> CHR ''/''"
    and "temp = buildPath E (gatewaysDir E c) (baseName E dst)" "pathInList temp c" "0 < balance E h temp" "detaches E"
    and "\<And>h. fst (answer E h (File (Stat src))) = S_IFREG" "\<And>h. fst (answer E h (Lxc LxcIsRunning)) = 1"
    and "\<And>h vs. 1 \<le> fst (answer E h (Lxc (LxcAttach vs (-1) 1 2)))" "\<And>h. fst (answer E h (Mnt GetMntent)) = 0"
    and "\<And>h. fst (answer E h (Proc Getrlimit)) = 0" "\<And>h. fst (answer E h (Proc Setrlimit)) = 0"
    and "\<And>h pid. fst (answer E h (Proc (WaitPid pid))) = 0"
  shows "\<exists>h'. container_bindMountInContainer E (Suc fuel) src dst ro (c, h) = (Inr False, (c, h')) \<and>
    balance E h' temp = balance E h temp - 1"
proof -
  have ens: "ensureContainerRunning E (c, k) = (Inr True, (c, Lxc LxcIsRunning # k))" for k
    using assms(1,2,10) by (simp add: ensureContainerRunning_def lxc_def act_defs sys_def)
  have check: "\<exists>k'. bnd (executeSync E (checkMounted E (Suc fuel) dst) INVALID_PID) (\<lambda>(ok, _). ret ok) (c, k) = (Inr True, (c, k')) \<and>
      balance E k' = balance E k" for k
  proof -
    have pid: "\<not> fst (answer E g (Lxc (LxcAttach vs (-1) 1 2))) < 1" for g vs using assms(11) [of g vs] by simp
    have inner: "executeInContainerEntryFunction E (function_job (checkMounted E (Suc fuel) dst)) g =
        (Inr (Some 0), Mnt GetMntent # Mnt (SetMntent ''/proc/mounts'') # Proc Setrlimit # Proc Getrlimit # g)" for g
      using assms(12-14)
      by (simp add: executeInContainerEntryFunction_def unlimitCoreDump_def function_job_def checkMounted_def act_defs sys_def sysText_def split_beta)
    obtain r d k' where run: "bnd (executeSync E (checkMounted E (Suc fuel) dst) INVALID_PID) (\<lambda>(ok, _). ret ok) (c, k) = (r, (d, k'))"
      by (rule run_exists)
    have "r = Inr True \<and> d = c"
      using run pid assms(2,15)
      by (simp add: executeSync_def executeFunction_def waitForFunction_def bnd_def ens getm_def ret_def ext_def lxc_def sys_def inner
        WEXITSTATUS_def exit_status_def)
    moreover have "keeps (holds E (\<lambda>_ b. b = balance E k)) (bnd (executeSync E (checkMounted E (Suc fuel) dst) INVALID_PID) (\<lambda>(ok, _). ret ok))"
      by (intro keeps_intros keeps_holds_executeSync mount_free_checkMounted)
    from keepsD [OF this _ run] have "balance E k' = balance E k" by simp
    ultimately show ?thesis using run by blast
  qed
  obtain h1 where h1: "bnd (executeSync E (checkMounted E (Suc fuel) dst) INVALID_PID) (\<lambda>(ok, _). ret ok) (c, File (Stat src) # h) =
      (Inr True, (c, h1))" "balance E h1 = balance E h" using check [of "File (Stat src) # h"] by auto
  let ?k = "Lxc LxcIsRunning # File (Stat src) # h1"
  obtain q h2 where cl: "clean E (MountCleanUp temp) ?k = (q, h2)" by force
  obtain ok where q: "q = Inr ok" using clean_returns [of E "MountCleanUp temp" ?k] cl by auto
  have roll: "mountOrRollback E src dst temp ro (c, File (Stat src) # h1) = (Inr False, (c, h2))"
    using assms(3,4) cl q by (simp add: mountOrRollback_def bindMountCore_def andThen_def bnd_def ens ret_def ext_def del: clean.simps)
  have bal: "balance E h2 temp = balance E h temp - 1"
    using clean_mount [OF assms(8) cl] assms(7) h1(2) by simp
  have there: "ext (existsInFileSystem E src) (c, h) = (Inr True, (c, File (Stat src) # h))"
    using assms(9) by (simp add: existsInFileSystem_def getStat_def act_defs sys_def stat_defs)
  have gate: "bnd (getm (\<lambda>c. c)) k (c, g) = k c (c, g)" for k :: "container \<Rightarrow> bool container_meth" and g
    by (simp add: bnd_def getm_def)
  have plain: "ext (isDirectory E src) (c, g) = (Inr False, (c, File (Stat src) # g))" for g
    using assms(9) by (simp add: ext_def isDirectory_run stat_defs)
  have "container_bindMountInContainer E (Suc fuel) src dst ro (c, h) = (Inr False, (c, snd (destroyCreateDir E [] h2)))"
    using roll
    by (simp add: container_bindMountInContainer_def andThen_run(1) [where m = "ext (existsInFileSystem E src)", OF there] Let_def gate bnd_run(1) [where m = "ext (isDirectory E src)", OF plain]
      andThen_run(1) [where m = "bnd (executeSync E (checkMounted E (Suc fuel) dst) INVALID_PID) (\<lambda>(ok, _). ret ok)", OF h1(1)]
      scopedCreateDir_def prepareTarget_def ret_def assms(5) [symmetric] assms(6))
  moreover have "destroyCreateDir E [] h2 = (Inr (), h2)" by (simp add: destroyCreateDir_def ret_def)
  ultimately show ?thesis using bal by simp
qed


lemma mount_env_answers:
  "fst (answer mount_env h (File (Stat ''/host''))) = S_IFREG" "fst (answer mount_env h (Lxc LxcIsRunning)) = 1"
  "1 \<le> fst (answer mount_env h (Lxc (LxcAttach vs a b d)))" "fst (answer mount_env h (Mnt GetMntent)) = 0"
  "fst (answer mount_env h (Proc Getrlimit)) = 0" "fst (answer mount_env h (Proc Setrlimit)) = 0"
  "fst (answer mount_env h (Proc (WaitPid pid))) = 0"
  by (simp_all add: mount_env_def lxc_env_def plain_env_def)

definition first_mount :: "(exn + bool) \<times> container \<times> calls" where
  "first_mount = container_bindMountInContainer mount_env 2 ''/host'' ''/etc/conf'' False (running_container, [])"

theorem refused_mount_undoes_another_witness:
  "fst first_mount = Inr True \<and> balance mount_env (snd (snd first_mount)) ''/sc//gateways/conf'' = 1 \<and>
   (\<exists>h'. container_bindMountInContainer mount_env (Suc 1) ''/host'' ''conf'' False (snd first_mount) = (Inr False, (fst (snd first_mount), h')) \<and>
     balance mount_env h' ''/sc//gateways/conf'' = 0 \<and>
     MountCleanUp ''/sc//gateways/conf'' \<in> set (m_cleanupHandlers (fst (snd first_mount))))"
proof -
  obtain r c h where run: "first_mount = (r, (c, h))" by (cases first_mount) auto
  have ev: "fst first_mount = Inr True" "balance mount_env (snd (snd first_mount)) ''/sc//gateways/conf'' = 1"
    "c_state (fst (snd first_mount)) = STARTED" "c_hasContainer (fst (snd first_mount))"
    "pathInList ''/sc//gateways/conf'' (fst (snd first_mount))"
    "buildPath mount_env (gatewaysDir mount_env (fst (snd first_mount))) (baseName mount_env ''conf'') = ''/sc//gateways/conf''"
    "MountCleanUp ''/sc//gateways/conf'' \<in> set (m_cleanupHandlers (fst (snd first_mount)))"
    by code_simp+
  note ev' = ev [unfolded run fst_conv snd_conv]
  have "\<exists>h'. container_bindMountInContainer mount_env (Suc 1) ''/host'' ''conf'' False (c, h) = (Inr False, (c, h')) \<and>
      balance mount_env h' ''/sc//gateways/conf'' = balance mount_env h ''/sc//gateways/conf'' - 1"
    by (rule refused_mount_undoes_another [OF _ _ _ _ _ _ _ mount_env_kernel(1)])
      (simp_all add: mount_env_answers ev' del: One_nat_def)
  then show ?thesis unfolding run fst_conv snd_conv using ev' by auto
qed

text \<open>What \<open>createSharedMountPoint\<close> has mounted stays, with no handler, where its propagation cannot be set:
  the promise \<open>propagates\<close> is needed.\<close>

lemma shared_mount_point_leak:
  assumes "fst (answer E h (Mnt (MountCall path path '''' [MS_BIND] ''''))) = 0"
    and "\<And>h. fst (answer E h (Mnt (MountCall path path '''' [MS_UNBINDABLE] ''''))) \<noteq> 0"
  shows "\<exists>h'. createSharedMountPoint E path (t, h) = (Inr False, (t, h')) \<and> balance E h' path = balance E h path + 1"
  using assms by (simp add: createSharedMountPoint_def mount_def act_defs sys_def)

end
