(* ===== verification/FileTree.thy ===== *)
theory FileTree
  imports FileToolkit
begin

text \<open>
  \<open>RecursiveCopy\<close> and \<open>RecursiveDelete\<close> of \<open>common/\<close> on the files themselves. In \<open>FileToolkit\<close> a walk
  over a directory is one call, \<open>Ftw\<close> or \<open>Nftw\<close>; here its callbacks \<open>copyFile\<close> and \<open>deleteFile\<close> act on a
  file system. What the walks of the C library visit is a parameter, the list of the visited paths;
  that a walk lists a directory in the documented order is a hypothesis of the properties.
\<close>

section \<open>Files\<close>

text \<open>A file system lists its entries by the names on the way from the root. \<open>Special\<close> is an entry that
  cannot be opened, as the character device with which overlayfs marks a deleted file, or a file without
  read permission; a link leads to a path from the root.\<close>

datatype node = Dir | Plain string | Special | Link "string list"

type_synonym files = "(string list \<times> node) list"

definition set_node :: "string list \<Rightarrow> node \<Rightarrow> files \<Rightarrow> files" where
  "set_node p n fs = (p, n) # filter (\<lambda>e. fst e \<noteq> p) fs"

definition drop_node :: "string list \<Rightarrow> files \<Rightarrow> files" where
  "drop_node p fs = filter (\<lambda>e. fst e \<noteq> p) fs"

lemma node_of_filter: "map_of (filter (\<lambda>e. fst e \<noteq> p) fs) q = (if q = p then None else map_of fs q)"
  by (induction fs) auto

lemma node_of_set [simp]: "map_of (set_node p n fs) = (map_of fs)(p \<mapsto> n)"
  by (auto simp: set_node_def node_of_filter)

lemma node_of_drop [simp]: "map_of (drop_node p fs) = (map_of fs)(p := None)"
  by (auto simp: drop_node_def node_of_filter)

text \<open>The names of a path, and the entry a path leads to, links followed; whether a link at its end is
  followed too is a matter of the call. The kernel follows 40 links at most.\<close>

fun split_slash :: "string \<Rightarrow> string list" where
  "split_slash [] = [[]]"
| "split_slash (c # cs) = (if c = CHR ''/'' then [] # split_slash cs
     else (case split_slash cs of [] \<Rightarrow> [[c]] | w # ws \<Rightarrow> (c # w) # ws))"

definition components :: "string \<Rightarrow> string list" where
  "components path = filter (\<lambda>c. c \<noteq> []) (split_slash path)"

function locate :: "nat \<Rightarrow> files \<Rightarrow> bool \<Rightarrow> string list \<Rightarrow> string list \<Rightarrow> string list option" where
  "locate n fs follow d [] = Some d"
| "locate n fs follow d (c # cs) = (case map_of fs (d @ [c]) of
     Some (Link t) \<Rightarrow>
       if cs = [] \<and> \<not> follow then Some (d @ [c])
       else (case n of 0 \<Rightarrow> None | Suc m \<Rightarrow> locate m fs follow [] (t @ cs))
   | Some Dir \<Rightarrow> locate n fs follow (d @ [c]) cs
   | _ \<Rightarrow> if cs = [] then Some (d @ [c]) else None)"
  by pat_completeness auto
termination
  by (relation "measures [\<lambda>(n, fs, follow, d, cs). n, \<lambda>(n, fs, follow, d, cs). length cs]") auto

definition MAXSYMLINKS :: nat where "MAXSYMLINKS = 40"

definition at_path :: "files \<Rightarrow> bool \<Rightarrow> string \<Rightarrow> string list option" where
  "at_path fs follow path = locate MAXSYMLINKS fs follow [] (components path)"

section \<open>System calls\<close>

definition has_parent :: "files \<Rightarrow> string list \<Rightarrow> bool" where
  "has_parent fs p \<longleftrightarrow> p \<noteq> [] \<and> (butlast p = [] \<or> map_of fs (butlast p) = Some Dir)"

definition is_empty_dir :: "files \<Rightarrow> string list \<Rightarrow> bool" where
  "is_empty_dir fs p \<longleftrightarrow> list_all (\<lambda>(q, _). q = [] \<or> butlast q \<noteq> p) fs"

text \<open>\<open>mkdir\<close>, which fails where something is there, and \<open>remove\<close>, which fails at a directory with entries.\<close>

definition make_dir :: "string \<Rightarrow> files \<Rightarrow> files" where
  "make_dir path fs = (case at_path fs False path of
     Some p \<Rightarrow> if map_of fs p = None \<and> has_parent fs p then set_node p Dir fs else fs
   | None \<Rightarrow> fs)"

definition remove_path :: "string \<Rightarrow> files \<Rightarrow> files" where
  "remove_path path fs = (case at_path fs False path of
     Some p \<Rightarrow> (case map_of fs p of
         None \<Rightarrow> fs
       | Some Dir \<Rightarrow> if is_empty_dir fs p then drop_node p fs else fs
       | Some _ \<Rightarrow> drop_node p fs)
   | None \<Rightarrow> fs)"

text \<open>Opening a file to write empties it or creates it; what can be read of a path.\<close>

definition open_to_write :: "string \<Rightarrow> files \<Rightarrow> (string list \<times> files) option" where
  "open_to_write path fs = (case at_path fs True path of
     Some p \<Rightarrow> (case map_of fs p of
         Some (Plain _) \<Rightarrow> Some (p, set_node p (Plain '''') fs)
       | None \<Rightarrow> if has_parent fs p then Some (p, set_node p (Plain '''') fs) else None
       | _ \<Rightarrow> None)
   | None \<Rightarrow> None)"

definition content :: "string \<Rightarrow> files \<Rightarrow> string" where
  "content path fs = (case at_path fs True path of
     Some p \<Rightarrow> (case map_of fs p of Some (Plain d) \<Rightarrow> d | _ \<Rightarrow> '''') | None \<Rightarrow> '''')"

section \<open>The callbacks\<close>

datatype type_flag = FTW_F | FTW_D | FTW_DNR | FTW_NS

text \<open>\<open>copyFile\<close>: the stream that is read is opened before the one that is written, and read after it. A
  stream that could not be opened reads as empty. The result is always 0.\<close>

definition copyFile :: "environment \<Rightarrow> string \<Rightarrow> string \<Rightarrow> string \<times> type_flag \<Rightarrow> files \<Rightarrow> files" where
  "copyFile E srcRoot dstRoot = (\<lambda>(srcPath, typeflag) fs.
     let dstPath = copyTarget E srcRoot dstRoot srcPath in
     case typeflag of
       FTW_D \<Rightarrow> make_dir dstPath fs
     | FTW_F \<Rightarrow> (case open_to_write dstPath fs of
           None \<Rightarrow> fs
         | Some (p, opened) \<Rightarrow> set_node p (Plain (content srcPath opened)) opened)
     | _ \<Rightarrow> fs)"

definition deleteFile :: "string \<Rightarrow> files \<Rightarrow> files" where
  "deleteFile deletePath fs = remove_path deletePath fs"

text \<open>The walks: the callbacks never stop them.\<close>

definition copy_tree :: "environment \<Rightarrow> (string \<times> type_flag) list \<Rightarrow> string \<Rightarrow> string \<Rightarrow> files \<Rightarrow> files" where
  "copy_tree E visited src dst = fold (copyFile E src dst) visited"

definition delete_tree :: "string list \<Rightarrow> files \<Rightarrow> files" where
  "delete_tree visited = fold deleteFile visited"

section \<open>Paths\<close>

text \<open>The path a walk forms for an entry below its root.\<close>

definition path_string :: "string \<Rightarrow> string list \<Rightarrow> string" where
  "path_string root names = root @ concat (map (\<lambda>c. CHR ''/'' # c) names)"

definition name_ok :: "string \<Rightarrow> bool" where
  "name_ok c \<longleftrightarrow> c \<noteq> [] \<and> CHR ''/'' \<notin> set c"

lemma split_slash_ne: "split_slash s \<noteq> []"
  by (cases s) (auto split: list.splits)

lemma split_slash_append: "split_slash (s @ CHR ''/'' # t) = split_slash s @ split_slash t"
proof (induction s)
  case (Cons c s)
  then show ?case using split_slash_ne [of s] by (auto split: list.splits)
qed simp

lemma split_slash_name: "CHR ''/'' \<notin> set c \<Longrightarrow> split_slash c = [c]"
  by (induction c) auto

lemma components_path_string: "list_all name_ok cs \<Longrightarrow> components (path_string root cs) = components root @ cs"
proof (induction cs rule: rev_induct)
  case (snoc c cs)
  have "path_string root (cs @ [c]) = path_string root cs @ CHR ''/'' # c" by (simp add: path_string_def)
  with snoc show ?case by (simp add: components_def split_slash_append split_slash_name name_ok_def)
qed (simp add: path_string_def)

text \<open>A path whose directories are there leads to the entry of its names.\<close>

lemma locate_plain:
  assumes "\<And>k. 0 < k \<Longrightarrow> k < length cs \<Longrightarrow> map_of fs (d @ take k cs) = Some Dir"
    and "\<And>t. follow \<Longrightarrow> map_of fs (d @ cs) \<noteq> Some (Link t)"
  shows "locate n fs follow d cs = Some (d @ cs)"
  using assms
proof (induction cs arbitrary: d)
  case (Cons c cs)
  show ?case
  proof (cases cs)
    case Nil
    with Cons.prems(2) show ?thesis by (auto split: option.splits node.splits)
  next
    case (Cons c' cs')
    have dir: "map_of fs (d @ [c]) = Some Dir" using Cons.prems(1) [of 1] Cons by simp
    have "locate n fs follow (d @ [c]) cs = Some ((d @ [c]) @ cs)"
      by (rule Cons.IH) (use Cons.prems(1) [of "Suc k" for k] Cons.prems(2) in auto)
    with dir show ?thesis by simp
  qed
qed simp


definition plain_dir :: "files \<Rightarrow> string list \<Rightarrow> bool" where
  "plain_dir fs p \<longleftrightarrow> list_all (\<lambda>k. map_of fs (take k p) = Some Dir) [1..<Suc (length p)]"

lemma plain_dirD: "plain_dir fs p \<Longrightarrow> 0 < k \<Longrightarrow> k \<le> length p \<Longrightarrow> map_of fs (take k p) = Some Dir"
  by (auto simp: plain_dir_def list_all_iff)

lemma plain_dir_keeps:
  "plain_dir fs p \<Longrightarrow> (\<And>q. map_of fs q = Some Dir \<Longrightarrow> map_of fs' q = Some Dir) \<Longrightarrow> plain_dir fs' p"
  by (auto simp: plain_dir_def list_all_iff)

lemma at_path_plain:
  assumes "plain_dir fs (components root)" "list_all name_ok cs" "cs \<noteq> []"
    and "\<And>k. 0 < k \<Longrightarrow> k < length cs \<Longrightarrow> map_of fs (components root @ take k cs) = Some Dir"
    and "\<And>t. follow \<Longrightarrow> map_of fs (components root @ cs) \<noteq> Some (Link t)"
  shows "at_path fs follow (path_string root cs) = Some (components root @ cs)"
proof -
  have "locate MAXSYMLINKS fs follow [] (components root @ cs) = Some ([] @ components root @ cs)"
  proof (rule locate_plain)
    fix k assume k: "0 < k" "k < length (components root @ cs)"
    show "map_of fs ([] @ take k (components root @ cs)) = Some Dir"
    proof (cases "k \<le> length (components root)")
      case True
      then show ?thesis using plain_dirD [OF assms(1)] k by simp
    next
      case False
      then show ?thesis using assms(4) [of "k - length (components root)"] k by simp
    qed
  qed (use assms(5) in simp)
  then show ?thesis by (simp add: at_path_def components_path_string [OF assms(2)])
qed

lemma at_path_root:
  assumes "plain_dir fs (components root)"
  shows "at_path fs follow (path_string root []) = Some (components root)"
proof -
  have "map_of fs (components root) \<noteq> Some (Link t)" if "components root \<noteq> []" for t
    using plain_dirD [OF assms, of "length (components root)"] that by simp
  moreover have "locate MAXSYMLINKS fs follow [] (components root) = Some ([] @ components root)" if "components root \<noteq> []"
    using plain_dirD [OF assms] calculation that by (intro locate_plain) auto
  ultimately have "locate MAXSYMLINKS fs follow [] (components root) = Some (components root)"
    by (cases "components root = []") simp_all
  then show ?thesis by (simp add: at_path_def path_string_def)
qed

section \<open>Copying\<close>

text \<open>What a walk down a directory lists: every entry once, by its names below the root of the walk, and
  after the directory it is in.\<close>

definition walks_down :: "(string list \<times> type_flag) list \<Rightarrow> bool" where
  "walks_down w \<longleftrightarrow> distinct (map fst w) \<and> list_all (\<lambda>(cs, _). list_all name_ok cs) w \<and>
     list_all (\<lambda>i. fst (w ! i) = [] \<or> (butlast (fst (w ! i)), FTW_D) \<in> set (take i w)) [0..<length w]"

definition flags_right :: "files \<Rightarrow> string list \<Rightarrow> (string list \<times> type_flag) list \<Rightarrow> bool" where
  "flags_right fs src w \<longleftrightarrow> list_all (\<lambda>(cs, f). case map_of fs (src @ cs) of
     Some Dir \<Rightarrow> f = FTW_D | Some (Plain _) \<Rightarrow> f = FTW_F | Some Special \<Rightarrow> f = FTW_F | _ \<Rightarrow> False) w"

text \<open>Source and target have no entry in common, and where the target has something it is of the same
  kind.\<close>

definition can_merge :: "files \<Rightarrow> string list \<Rightarrow> string list \<Rightarrow> (string list \<times> type_flag) list \<Rightarrow> bool" where
  "can_merge fs src dst w \<longleftrightarrow> list_all (\<lambda>(cs, f). list_all (\<lambda>(ds, _). src @ cs \<noteq> dst @ ds) w \<and>
     (case map_of fs (dst @ cs) of None \<Rightarrow> True | Some Dir \<Rightarrow> f = FTW_D | Some (Plain _) \<Rightarrow> f = FTW_F | _ \<Rightarrow> False)) w"

text \<open>The merge a copy is for: what is in the source is in the target, all else is as it was.\<close>

definition merged :: "(string list \<times> type_flag) list \<Rightarrow> string list \<Rightarrow> string list \<Rightarrow> files \<Rightarrow> string list \<Rightarrow> node option" where
  "merged w src dst fs q = (case find (\<lambda>(cs, _). q = dst @ cs) w of
     None \<Rightarrow> map_of fs q
   | Some (cs, _) \<Rightarrow> (case map_of fs (src @ cs) of Some Special \<Rightarrow> Some (Plain '''') | n \<Rightarrow> n))"

lemma walks_down_snoc:
  "walks_down (w @ [(cs, f)]) \<longleftrightarrow> walks_down w \<and> cs \<notin> fst ` set w \<and> list_all name_ok cs \<and>
     (cs = [] \<or> (butlast cs, FTW_D) \<in> set w)"
  by (auto simp: walks_down_def list_all_iff nth_append)

lemma walked_prefixes:
  assumes "walks_down w" "(cs, f) \<in> set w" "k < length cs"
  shows "(take k cs, FTW_D) \<in> set w"
proof -
  have step: "(butlast ds, FTW_D) \<in> set w" if ds: "(ds, g) \<in> set w" "ds \<noteq> []" for ds g
  proof -
    obtain i where "i < length w" "w ! i = (ds, g)" using ds(1) by (metis in_set_conv_nth)
    with assms(1) ds(2) have "(butlast ds, FTW_D) \<in> set (take i w)" by (force simp: walks_down_def list_all_iff)
    then show ?thesis by (rule in_set_takeD)
  qed
  show ?thesis using assms(2,3)
  proof (induction "length cs" arbitrary: cs f)
    case (Suc n)
    then have ne: "cs \<noteq> []" by auto
    from step [OF Suc.prems(1) ne] have b: "(butlast cs, FTW_D) \<in> set w" .
    show ?case
    proof (cases "k = n")
      case True
      with Suc.hyps(2) have "k = length cs - 1" by simp
      with b show ?thesis by (simp add: butlast_conv_take)
    next
      case False
      with Suc.prems(2) Suc.hyps(2) have k: "k < length (butlast cs)" by simp
      from Suc.hyps(1) [OF _ b k] Suc.hyps(2) k show ?thesis by (simp add: take_butlast)
    qed
  qed simp
qed

lemma copyTarget_path:
  assumes "build_filename E dst (path_string [] cs) = path_string dst cs"
  shows "copyTarget E src dst (path_string src cs) = path_string dst cs"
proof -
  have "\<exists>n \<in> {0..length (path_string src cs)}. take (length src) (drop n (path_string src cs)) = src"
    by (rule bexI [of _ 0]) (simp_all add: path_string_def)
  then show ?thesis using assms by (simp add: copyTarget_def path_string_def buildPath_def)
qed

text \<open>No callback of the copy touches a directory.\<close>

lemma make_dir_keeps: "map_of fs q = Some n \<Longrightarrow> map_of (make_dir path fs) q = Some n"
  by (auto simp: make_dir_def split: option.splits)

lemma copyFile_keeps_dirs: "map_of fs q = Some Dir \<Longrightarrow> map_of (copyFile E src dst x fs) q = Some Dir"
  by (auto simp: copyFile_def Let_def open_to_write_def make_dir_keeps split: prod.splits type_flag.splits option.splits node.splits if_splits)

lemma find_snoc: "find P (xs @ [x]) = (case find P xs of None \<Rightarrow> if P x then Some x else None | r \<Rightarrow> r)"
  by (induction xs) auto

lemma merged_snoc:
  assumes "cs \<notin> fst ` set w"
  shows "merged (w @ [(cs, f)]) src dst fs = (merged w src dst fs)
     (dst @ cs := (case map_of fs (src @ cs) of Some Special \<Rightarrow> Some (Plain '''') | n \<Rightarrow> n))"
proof (rule ext)
  fix q
  have "find (\<lambda>(ds, _). dst @ cs = dst @ ds) w = None" using assms by (auto simp: find_None_iff image_iff)
  then show "merged (w @ [(cs, f)]) src dst fs q = ((merged w src dst fs)
     (dst @ cs := (case map_of fs (src @ cs) of Some Special \<Rightarrow> Some (Plain '''') | n \<Rightarrow> n))) q"
    by (auto simp: merged_def find_snoc split: option.splits)
qed

lemma flags_rightD:
  assumes "flags_right fs src w" "(cs, f) \<in> set w"
  shows "f = FTW_D \<and> map_of fs (src @ cs) = Some Dir \<or>
    f = FTW_F \<and> ((\<exists>d. map_of fs (src @ cs) = Some (Plain d)) \<or> map_of fs (src @ cs) = Some Special)"
proof -
  have "case map_of fs (src @ cs) of Some Dir \<Rightarrow> f = FTW_D | Some (Plain _) \<Rightarrow> f = FTW_F | Some Special \<Rightarrow> f = FTW_F | _ \<Rightarrow> False"
    using assms by (auto simp: flags_right_def list_all_iff)
  then show ?thesis by (auto split: option.splits node.splits)
qed

lemma copy_tree_merges:
  assumes build: "\<And>cs. build_filename E dst (path_string [] cs) = path_string dst cs"
    and roots: "plain_dir fs (components src)" "plain_dir fs (components dst)" "components dst \<noteq> []"
    and full: "flags_right fs (components src) w" "can_merge fs (components src) (components dst) w"
  shows "walks_down v \<Longrightarrow> set v \<subseteq> set w \<Longrightarrow>
    map_of (copy_tree E (map (\<lambda>(cs, f). (path_string src cs, f)) v) src dst fs) = merged v (components src) (components dst) fs \<and>
    (\<forall>q. map_of fs q = Some Dir \<longrightarrow> map_of (copy_tree E (map (\<lambda>(cs, f). (path_string src cs, f)) v) src dst fs) q = Some Dir)"
proof (induction v rule: rev_induct)
  case Nil
  show ?case by (auto simp: copy_tree_def merged_def)
next
  case (snoc x v)
  obtain cs f where x: "x = (cs, f)" by force
  let ?S = "components src" and ?D = "components dst"
  let ?visit = "map (\<lambda>(cs, f). (path_string src cs, f))"
  define fs' where "fs' = copy_tree E (?visit v) src dst fs"
  have w: "walks_down v" and new: "cs \<notin> fst ` set v" and names: "list_all name_ok cs"
    and parent: "cs = [] \<or> (butlast cs, FTW_D) \<in> set v" and walk: "walks_down (v @ [(cs, f)])"
    using snoc.prems(1) walks_down_snoc [of v cs f] by (auto simp: x)
  have sub: "set v \<subseteq> set w" "(cs, f) \<in> set w" using snoc.prems(2) by (auto simp: x)
  from snoc.IH [OF w sub(1)] have IH: "map_of fs' = merged v ?S ?D fs" and dirs: "\<And>q. map_of fs q = Some Dir \<Longrightarrow> map_of fs' q = Some Dir"
    by (auto simp: fs'_def)
  have step: "copy_tree E (?visit (v @ [x])) src dst fs = copyFile E src dst (path_string src cs, f) fs'"
    by (simp add: copy_tree_def fs'_def x)
  have flag: "f = FTW_D \<and> map_of fs (?S @ cs) = Some Dir \<or>
      f = FTW_F \<and> ((\<exists>d. map_of fs (?S @ cs) = Some (Plain d)) \<or> map_of fs (?S @ cs) = Some Special)"
    by (rule flags_rightD [OF full(1) sub(2)])
  have apart: "?S @ ds \<noteq> ?D @ es" if "(ds, g) \<in> set w" "(es, g') \<in> set w" for ds es g g'
    using full(2) that by (fastforce simp: can_merge_def list_all_iff)
  have kind: "case map_of fs (?D @ cs) of None \<Rightarrow> True | Some Dir \<Rightarrow> f = FTW_D | Some (Plain _) \<Rightarrow> f = FTW_F | _ \<Rightarrow> False"
    using full(2) sub(2) by (fastforce simp: can_merge_def list_all_iff)
  have target: "map_of fs' (?D @ cs) = map_of fs (?D @ cs)"
  proof -
    have "find (\<lambda>(ds, _). ?D @ cs = ?D @ ds) v = None" using new by (auto simp: find_None_iff image_iff)
    then show ?thesis by (simp add: IH merged_def)
  qed
  have source: "map_of fs' (?S @ ds) = map_of fs (?S @ ds)" if "(ds, g) \<in> set w" for ds g
  proof -
    have "find (\<lambda>(es, _). ?S @ ds = ?D @ es) v = None" using apart [OF that] sub(1) by (fastforce simp: find_None_iff)
    then show ?thesis by (simp add: IH merged_def)
  qed
  have walked: "(take k cs, FTW_D) \<in> set v" if "k < length cs" for k
    using walked_prefixes [OF walk, of cs f k] that by auto
  have srcdir: "map_of fs' (?S @ take k cs) = Some Dir" if "k < length cs" for k
  proof -
    have "(take k cs, FTW_D) \<in> set w" using walked [OF that] sub(1) by blast
    moreover from flags_rightD [OF full(1) this] have "map_of fs (?S @ take k cs) = Some Dir" by simp
    ultimately show ?thesis using source by simp
  qed
  have dstdir: "map_of fs' (?D @ take k cs) = Some Dir" if "k < length cs" for k
  proof -
    have k: "(take k cs, FTW_D) \<in> set v" by (rule walked [OF that])
    then obtain ds g where "find (\<lambda>(ds, _). ?D @ take k cs = ?D @ ds) v = Some (ds, g)"
      by (cases "find (\<lambda>(ds, _). ?D @ take k cs = ?D @ ds) v") (auto simp: find_None_iff)
    moreover from this have "ds = take k cs" by (auto simp: find_Some_iff)
    moreover have "map_of fs (?S @ take k cs) = Some Dir" using srcdir [OF that] source k sub(1) by (metis subsetD)
    ultimately show ?thesis by (simp add: IH merged_def)
  qed
  have plain: "plain_dir fs' ?S" "plain_dir fs' ?D" using roots dirs by (auto intro: plain_dir_keeps)
  have to: "at_path fs' fl (path_string dst cs) = Some (?D @ cs)" for fl
  proof (cases "cs = []")
    case False
    show ?thesis by (rule at_path_plain [OF plain(2) names False])
        (use dstdir target kind in \<open>auto split: option.splits node.splits\<close>)
  qed (simp add: at_path_root [OF plain(2)])
  have up: "has_parent fs' (?D @ cs)"
  proof (cases "cs = []")
    case True
    have "map_of fs' (butlast ?D) = Some Dir" if "butlast ?D \<noteq> []"
      using plain_dirD [OF plain(2), of "length ?D - 1"] that roots(3) by (cases ?D rule: rev_cases) auto
    with True roots(3) show ?thesis by (auto simp: has_parent_def)
  next
    case False
    then have "butlast (?D @ cs) = ?D @ take (length cs - 1) cs" by (simp add: butlast_append butlast_conv_take [of cs])
    with False dstdir [of "length cs - 1"] show ?thesis by (simp add: has_parent_def)
  qed
  have "map_of (copyFile E src dst (path_string src cs, f) fs') =
      (map_of fs')(?D @ cs := (case map_of fs (?S @ cs) of Some Special \<Rightarrow> Some (Plain '''') | n \<Rightarrow> n))"
  proof (cases "f = FTW_D")
    case True
    then show ?thesis using flag kind target up
      by (auto simp: copyFile_def copyTarget_path [OF build] make_dir_def to fun_eq_iff split: option.splits node.splits)
  next
    case False
    with flag have f: "f = FTW_F" by auto
    have t: "map_of fs' (?D @ cs) \<noteq> Some Dir" using kind target f by (auto split: option.splits)
    have ne: "cs \<noteq> []"
      using t plain_dirD [OF plain(2), of "length ?D"] roots(3) by auto
    let ?o = "set_node (?D @ cs) (Plain '''') fs'"
    have opened: "open_to_write (path_string dst cs) fs' = Some (?D @ cs, ?o)"
      using kind target up f by (auto simp: open_to_write_def to split: option.splits node.splits)
    have keep: "map_of fs' q = Some Dir \<Longrightarrow> map_of ?o q = Some Dir" for q using t by auto
    have same: "map_of ?o (?S @ cs) = map_of fs (?S @ cs)" using source [OF sub(2)] apart [OF sub(2,2)] by simp
    have "at_path ?o True (path_string src cs) = Some (?S @ cs)"
      by (rule at_path_plain [OF plain_dir_keeps [OF plain(1) keep] names ne])
        (use srcdir keep same flag f in auto)
    then have "content (path_string src cs) ?o = (case map_of fs (?S @ cs) of Some (Plain d) \<Rightarrow> d | _ \<Rightarrow> '''')"
      by (simp add: content_def same del: node_of_set)
    with flag f show ?thesis
      by (auto simp: copyFile_def copyTarget_path [OF build] opened)
  qed
  then have "map_of (copyFile E src dst (path_string src cs, f) fs') = merged (v @ [x]) ?S ?D fs"
    by (simp only: IH x merged_snoc [OF new])
  then show ?case unfolding step using copyFile_keeps_dirs dirs by blast
qed


section \<open>Deleting\<close>

text \<open>What a walk lists that reports a directory after what is in it: every entry once, after those in it,
  and with it the directory it is in; \<open>lists_all\<close> says that nothing below the root is left out.\<close>

definition walks_up :: "string list list \<Rightarrow> bool" where
  "walks_up w \<longleftrightarrow> distinct w \<and> list_all (list_all name_ok) w \<and>
     list_all (\<lambda>i. w ! i = [] \<or> butlast (w ! i) \<in> set (drop (Suc i) w)) [0..<length w]"

definition lists_all :: "files \<Rightarrow> string list \<Rightarrow> string list list \<Rightarrow> bool" where
  "lists_all fs root w \<longleftrightarrow> list_all (\<lambda>(q, _). take (length root) q = root \<longrightarrow> drop (length root) q \<in> set w) fs"

text \<open>The directories on the way are there, and no links.\<close>

definition parents_plain :: "files \<Rightarrow> string list \<Rightarrow> string list list \<Rightarrow> bool" where
  "parents_plain fs root w \<longleftrightarrow> list_all (\<lambda>cs. map_of fs (root @ cs) \<noteq> None \<and>
     (cs = [] \<or> map_of fs (root @ butlast cs) = Some Dir)) w"

lemma is_empty_dir_iff: "is_empty_dir fs p \<longleftrightarrow> (\<forall>q. map_of fs q \<noteq> None \<longrightarrow> q = [] \<or> butlast q \<noteq> p)"
  unfolding is_empty_dir_def list_all_iff map_of_eq_None_iff by auto

lemma remove_path_shrinks: "map_of fs p = None \<Longrightarrow> map_of (remove_path path fs) p = None"
  by (auto simp: remove_path_def split: option.splits node.splits)

lemma delete_tree_shrinks: "map_of fs p = None \<Longrightarrow> map_of (delete_tree visited fs) p = None"
  by (induction visited arbitrary: fs) (simp_all add: delete_tree_def deleteFile_def remove_path_shrinks)

lemma remove_at:
  assumes "at_path fs False path = Some p" "map_of fs p \<noteq> None" "map_of fs p = Some Dir \<longrightarrow> is_empty_dir fs p"
  shows "map_of (remove_path path fs) = (map_of fs)(p := None)"
  using assms by (auto simp: remove_path_def split: node.splits)

text \<open>The directories an entry is in come later in the walk.\<close>

lemma later_prefixes:
  assumes "walks_up w" "i < length w" "k < length (w ! i)"
  shows "take k (w ! i) \<in> set (drop (Suc i) w)"
  using assms(2,3)
proof (induction "length (w ! i) - k" arbitrary: i rule: less_induct)
  case less
  from less.prems have ne: "w ! i \<noteq> []" by auto
  with assms(1) less.prems(1) have "butlast (w ! i) \<in> set (drop (Suc i) w)" by (force simp: walks_up_def list_all_iff)
  then obtain m where "m < length w - Suc i" "w ! (Suc i + m) = butlast (w ! i)" by (auto simp: in_set_conv_nth)
  then obtain j where j: "i < j" "j < length w" "w ! j = butlast (w ! i)" using that [of "Suc i + m"] by simp
  show ?case
  proof (cases "k = length (w ! i) - 1")
    case True
    with j ne show ?thesis by (auto simp: butlast_conv_take in_set_conv_nth intro!: exI [of _ "j - Suc i"])
  next
    case False
    with less.prems(2) j(3) have k: "k < length (w ! j)" by simp
    have "take k (w ! j) \<in> set (drop (Suc j) w)"
      by (rule less.hyps) (use k j less.prems(2) in auto)
    moreover have "set (drop (Suc j) w) \<subseteq> set (drop (Suc i) w)" using j(1) by (intro set_drop_subset_set_drop) simp
    ultimately show ?thesis using j(3) k by (auto simp: take_butlast)
  qed
qed

lemma delete_tree_removes:
  assumes up: "walks_up w" and all: "lists_all fs (components dir) w" and par: "parents_plain fs (components dir) w"
    and root: "plain_dir fs (components dir)" "components dir \<noteq> []"
  shows "n \<le> length w \<Longrightarrow> map_of (delete_tree (map (path_string dir) (take n w)) fs) =
    (\<lambda>q. if \<exists>cs \<in> set (take n w). q = components dir @ cs then None else map_of fs q)"
proof (induction n)
  case 0
  then show ?case by (simp add: delete_tree_def)
next
  case (Suc n)
  let ?D = "components dir" and ?cs = "w ! n"
  define fs' where "fs' = delete_tree (map (path_string dir) (take n w)) fs"
  from Suc have IH: "map_of fs' = (\<lambda>q. if \<exists>cs \<in> set (take n w). q = ?D @ cs then None else map_of fs q)" and n: "n < length w"
    by (simp_all add: fs'_def)
  have left: "map_of fs' (?D @ ds) = map_of fs (?D @ ds)" if "ds \<in> set (drop n w)" for ds
  proof -
    have "set (take n w) \<inter> set (drop n w) = {}" using up by (metis append_take_drop_id distinct_append walks_up_def)
    with that show ?thesis by (auto simp: IH)
  qed
  have later: "take k ?cs \<in> set (drop n w)" if "k < length ?cs" for k
    using later_prefixes [OF up n that] set_drop_subset_set_drop [of n "Suc n" w] by auto
  have names: "list_all name_ok ?cs" using up nth_mem [OF n] by (simp add: walks_up_def list_all_iff)
  have here: "?cs \<in> set (drop n w)" using n by (simp add: Cons_nth_drop_Suc [symmetric])
  have dirs: "map_of fs' (?D @ take k ?cs) = Some Dir" if k: "k < length ?cs" for k
  proof -
    have "map_of fs (?D @ take k ?cs) = Some Dir"
    proof (cases "Suc k = length ?cs")
      case True
      have "?cs \<in> set w" "?cs \<noteq> []" using n k by auto
      with par have "map_of fs (?D @ butlast ?cs) = Some Dir" by (auto simp: parents_plain_def list_all_iff)
      with True show ?thesis by (simp add: butlast_conv_take flip: True)
    next
      case False
      with k have "take (Suc k) ?cs \<in> set (drop n w)" "take (Suc k) ?cs \<noteq> []" using later [of "Suc k"] by auto
      then have "take (Suc k) ?cs \<in> set w" "take (Suc k) ?cs \<noteq> []" by (auto dest: in_set_dropD)
      with par have "map_of fs (?D @ butlast (take (Suc k) ?cs)) = Some Dir" unfolding parents_plain_def list_all_iff by blast
      with k show ?thesis by (simp add: butlast_take)
    qed
    with left [OF later [OF k]] show ?thesis by simp
  qed
  have top: "[] \<in> set (drop n w)" using here later [of 0] by (cases "?cs = []") auto
  have plain: "plain_dir fs' ?D"
    unfolding plain_dir_def list_all_iff
  proof
    fix j assume "j \<in> set [1..<Suc (length ?D)]"
    then have j: "0 < j" "j \<le> length ?D" by auto
    show "map_of fs' (take j ?D) = Some Dir"
    proof (cases "j = length ?D")
      case True
      then show ?thesis using left [OF top] plain_dirD [OF root(1) j] by simp
    next
      case False
      then have "take j ?D \<noteq> ?D @ cs" for cs using j by (metis length_append length_take min.absorb2 not_add_less1 nat_less_le)
      then show ?thesis using plain_dirD [OF root(1) j] by (simp add: IH)
    qed
  qed
  have where_: "at_path fs' False (path_string dir ?cs) = Some (?D @ ?cs)"
  proof (cases "?cs = []")
    case False
    then show ?thesis by (intro at_path_plain [OF plain names]) (use dirs in auto)
  qed (simp add: at_path_root [OF plain])
  have is_there: "map_of fs' (?D @ ?cs) \<noteq> None"
    using left [OF here] par n by (auto simp: parents_plain_def list_all_iff)
  have emptied: "is_empty_dir fs' (?D @ ?cs)"
    unfolding is_empty_dir_iff
  proof (intro allI impI)
    fix q assume q: "map_of fs' q \<noteq> None"
    show "q = [] \<or> butlast q \<noteq> ?D @ ?cs"
    proof (rule ccontr)
      assume "\<not> ?thesis"
      then have q': "q = ?D @ ?cs @ [last q]" by (metis append.assoc append_butlast_last_id)
      then have fq: "take (length ?D) q = ?D" "drop (length ?D) q = ?cs @ [last q]" by (metis append_eq_conv_conj)+
      have "map_of fs q \<noteq> None" using q by (auto simp: IH split: if_splits)
      then obtain nd where "(q, nd) \<in> set fs" by (auto dest: map_of_SomeD)
      with all fq have "?cs @ [last q] \<in> set w" by (auto simp: lists_all_def list_all_iff)
      then obtain m where m: "m < length w" "w ! m = ?cs @ [last q]" by (metis in_set_conv_nth)
      with up have "?cs \<in> set (drop (Suc m) w)" by (force simp: walks_up_def list_all_iff)
      then obtain i where "i < length w - Suc m" "w ! (Suc m + i) = ?cs" by (auto simp: in_set_conv_nth)
      then obtain j where "Suc m + j < length w" "w ! (Suc m + j) = ?cs" by (intro that [of i]) auto
      moreover have "distinct w" using up by (simp add: walks_up_def)
      ultimately have "m < n" using n by (metis nth_eq_iff_index_eq less_add_Suc1 add_Suc)
      with m have "?cs @ [last q] \<in> set (take n w)" by (auto simp: in_set_conv_nth)
      with q q' show False by (auto simp: IH split: if_splits)
    qed
  qed
  have "delete_tree (map (path_string dir) (take (Suc n) w)) fs = remove_path (path_string dir ?cs) fs'"
    using n by (simp add: fs'_def delete_tree_def deleteFile_def take_Suc_conv_app_nth)
  then show ?case using remove_at [OF where_ is_there] emptied n
    by (auto simp: IH take_Suc_conv_app_nth fun_eq_iff)
qed

text \<open>C23: Where the walk lists a directory whole, each entry after what is in it, and the way to each is free
  of links, recursive deletion leaves nothing of the directory and changes nothing else.\<close>

theorem delete_removes_tree:
  assumes "walks_up w" "lists_all fs (components dir) w" "parents_plain fs (components dir) w"
    and "plain_dir fs (components dir)" "components dir \<noteq> []"
  shows "map_of (delete_tree (map (path_string dir) w) fs) =
    (\<lambda>q. if take (length (components dir)) q = components dir then None else map_of fs q)"
proof -
  have gone: "map_of fs q = None" if q: "take (length (components dir)) q = components dir"
    "drop (length (components dir)) q \<notin> set w" for q
    using assms(2) q by (cases "map_of fs q") (auto simp: lists_all_def list_all_iff dest!: map_of_SomeD)
  have "(\<exists>cs \<in> set w. q = components dir @ cs) \<longleftrightarrow>
      take (length (components dir)) q = components dir \<and> drop (length (components dir)) q \<in> set w" for q
    by (metis append_eq_conv_conj)
  with gone show ?thesis
    using delete_tree_removes [OF assms, of "length w"] by (auto simp: fun_eq_iff)
qed


text \<open>A directory with a file and a subdirectory, which goes whole.\<close>

definition some_files :: files where
  "some_files = [([''t''], Dir), ([''t'', ''f''], Plain ''x''), ([''t'', ''d''], Dir), ([''t'', ''d'', ''g''], Special),
     ([''etc''], Dir), ([''etc'', ''hosts''], Plain ''y'')]"

theorem delete_removes_tree_witness:
  "let after = delete_tree (map (path_string ''/t'') [[''f''], [''d'', ''g''], [''d''], []]) some_files in
     map_of after [''t''] = None \<and> map_of after [''t'', ''d'', ''g''] = None \<and> map_of after [''etc'', ''hosts''] = Some (Plain ''y'')"
proof -
  have "components ''/t'' = [''t'']" by code_simp
  moreover have "walks_up [[''f''], [''d'', ''g''], [''d''], []]" by code_simp
  moreover have "lists_all some_files [''t''] [[''f''], [''d'', ''g''], [''d''], []]" "parents_plain some_files [''t''] [[''f''], [''d'', ''g''], [''d''], []]"
    "plain_dir some_files [''t'']" by code_simp+
  ultimately have "map_of (delete_tree (map (path_string ''/t'') [[''f''], [''d'', ''g''], [''d''], []]) some_files) =
      (\<lambda>q. if take 1 q = [''t''] then None else map_of some_files q)"
    using delete_removes_tree [of "[[''f''], [''d'', ''g''], [''d''], []]" some_files "''/t''"] by simp
  then show ?thesis by (simp add: some_files_def Let_def)
qed



section \<open>What a copy leaves\<close>

text \<open>C22: Where the walk lists the source down from its root, the target's own entries are of the same kinds
  and no entry is both in source and target, a copy leaves exactly the merge of the two: every directory
  and every file of the source with its content, what only the target has, and nothing else changed. An
  entry of the source that cannot be opened, as the mark of a deleted file in the upper directory of an
  overlay, becomes an empty file.\<close>

theorem copy_merges:
  assumes "\<And>cs. build_filename E dst (path_string [] cs) = path_string dst cs"
    and "plain_dir fs (components src)" "plain_dir fs (components dst)" "components dst \<noteq> []"
    and "walks_down w" "flags_right fs (components src) w" "can_merge fs (components src) (components dst) w"
  shows "map_of (copy_tree E (map (\<lambda>(cs, f). (path_string src cs, f)) w) src dst fs) =
    merged w (components src) (components dst) fs"
  using copy_tree_merges [OF assms(1-4,6,7,5)] by simp

definition glib_env :: environment where
  "glib_env = plain_env\<lparr>build_filename := (\<lambda>a b. a @ b)\<rparr>"

text \<open>The upper directory of an overlay has a new file and the mark of a deleted one.\<close>

definition overlay_files :: files where
  "overlay_files = [([''u''], Dir), ([''u'', ''new''], Plain ''n''), ([''u'', ''gone''], Special),
     ([''l''], Dir), ([''l'', ''gone''], Plain ''g''), ([''l'', ''old''], Plain ''o'')]"

theorem copy_merges_witness:
  "let after = copy_tree glib_env [(''/u'', FTW_D), (''/u/new'', FTW_F), (''/u/gone'', FTW_F)] ''/u'' ''/l'' overlay_files in
     map_of after [''l'', ''new''] = Some (Plain ''n'') \<and> map_of after [''l'', ''old''] = Some (Plain ''o'') \<and>
     map_of after [''l'', ''gone''] = Some (Plain '''')"
proof -
  let ?w = "[([], FTW_D), ([''new''], FTW_F), ([''gone''], FTW_F)]"
  have pre: "components ''/u'' = [''u'']" "components ''/l'' = [''l'']" "walks_down ?w" "flags_right overlay_files [''u''] ?w"
    "can_merge overlay_files [''u''] [''l''] ?w" "plain_dir overlay_files [''u'']" "plain_dir overlay_files [''l'']" by code_simp+
  have "build_filename glib_env ''/l'' (path_string [] cs) = path_string ''/l'' cs" for cs
    by (simp add: glib_env_def path_string_def)
  from copy_merges [of glib_env "''/l''" overlay_files "''/u''" ?w, OF this] pre
  have "map_of (copy_tree glib_env [(''/u'', FTW_D), (''/u/new'', FTW_F), (''/u/gone'', FTW_F)] ''/u'' ''/l'' overlay_files) =
      merged ?w [''u''] [''l''] overlay_files" by (simp add: path_string_def)
  then show ?thesis by (simp add: merged_def overlay_files_def Let_def)
qed

end
