(* ===== verification/Helpers.thy ===== *)
theory Helpers
  imports Environ
begin

text \<open>
  Two parts of the libraries that the agent has but does not use itself: \<open>parseInt\<close> of
  \<open>common/softwarecontainer-common.cpp\<close>, and the property with listeners of
  \<open>libsoftwarecontainer/include/observableproperty.h\<close>, through which a user of the library can follow
  the state of a container.
\<close>

section \<open>parseInt\<close>

text \<open>What \<open>strtol\<close> leaves unread, and the assignment of a \<open>long\<close> to an \<open>int\<close>.\<close>

definition unread :: "string \<Rightarrow> string" where
  "unread s = dropWhile is_digit (case dropWhile is_space s of
     [] \<Rightarrow> [] | c # cs \<Rightarrow> if c \<in> {CHR ''-'', CHR ''+''} then cs else c # cs)"

definition narrow :: "int \<Rightarrow> int" where
  "narrow v = (v + 2147483648) mod 4294967296 - 2147483648"

text \<open>\<open>erange\<close> is whether \<open>errno\<close> is \<open>ERANGE\<close> before the call; the result comes with what it is after.\<close>

definition parseInt :: "bool \<Rightarrow> string \<Rightarrow> int option \<times> bool" where
  "parseInt erange arg = (let (value, sets_erange) = strtoll arg; erange' = (erange \<or> sets_erange) in
     if scan_int arg = None \<or> unread arg \<noteq> [] \<or> erange' then (None, erange') else (Some (narrow value), erange'))"

lemma dropWhile_digits: "dropWhile is_digit (show_nat n) = []"
  using show_nat_digits [of n] by simp

lemma unread_to_string: "unread (to_string i) = []"
proof (cases "i < 0")
  case True
  then show ?thesis by (simp add: unread_def to_string_def is_space_def dropWhile_digits)
next
  case False
  obtain c cs where c: "show_nat (nat i) = c # cs" using show_nat_ne by (cases "show_nat (nat i)") auto
  with False hd_show_nat [OF c] is_digit_not [of c] dropWhile_digits [of "nat i"] show ?thesis
    by (simp add: to_string_def unread_def c)
qed

text \<open>A number that is written out is read back where it fits into an \<open>int\<close>; a larger one is accepted too
  and cut off. Once \<open>errno\<close> is \<open>ERANGE\<close> nothing is accepted any more.\<close>

lemma narrow_id: "narrow v = v \<longleftrightarrow> int_min \<le> v \<and> v \<le> int_max"
  unfolding narrow_def limit_defs
proof
  assume "(v + 2147483648) mod 4294967296 - 2147483648 = v"
  moreover have "0 \<le> (v + 2147483648) mod 4294967296" "(v + 2147483648) mod 4294967296 < 4294967296" by simp_all
  ultimately show "- 2147483648 \<le> v \<and> v \<le> 2147483647" by linarith
qed simp

lemma parseInt_to_string:
  assumes "llong_min \<le> n" "n \<le> llong_max"
  shows "parseInt False (to_string n) = (Some (narrow n), False)"
    and "fst (parseInt False (to_string n)) = Some n \<longleftrightarrow> int_min \<le> n \<and> n \<le> int_max"
  using assms narrow_id [of n] by (auto simp: parseInt_def strtoll_def unread_to_string)

lemma parseInt_stale_errno: "parseInt True arg = (None, True)"
  by (simp add: parseInt_def Let_def split: prod.splits)

section \<open>Observable properties\<close>

text \<open>Listeners go by numbers. What a listener does when it is told a value is a parameter: it may set the
  property again, with or without notification, and it may add a listener. The value is \<open>None\<close> before it
  is given one; the record of the calls of listeners is latest last.\<close>

datatype 'v action = SetNotify 'v | Assign 'v | AddListener nat

record 'v observable =
  o_value :: "'v option"
  o_listeners :: "nat list"

definition newObservable :: "'v observable" where
  "newObservable = \<lparr>o_value = None, o_listeners = []\<rparr>"

type_synonym ('v, 'a) notification = "('v observable, (nat \<times> 'v option) list, 'a) meth"

definition addListener :: "nat \<Rightarrow> ('v, unit) notification" where
  "addListener l = updm (o_listeners_update (\<lambda>ls. ls @ [l]))"

definition assign :: "'v \<Rightarrow> ('v, unit) notification" where
  "assign v = updm (o_value_update (\<lambda>_. Some v))"

definition tell :: "nat \<Rightarrow> 'v option \<Rightarrow> ('v, unit) notification" where
  "tell l v = ext (\<lambda>log. (Inr (), log @ [(l, v)]))"

text \<open>The loop runs over the listeners themselves: to add one while it runs invalidates its position. The
  value is read for every listener again. Notifications within notifications take fuel.\<close>

fun setValueNotify :: "nat \<Rightarrow> (nat \<Rightarrow> 'v option \<Rightarrow> 'v action list) \<Rightarrow> 'v \<Rightarrow> ('v, unit) notification" where
  "setValueNotify 0 acts v = throw NoReturn"
| "setValueNotify (Suc fuel) acts v = seq (assign v)
     (bnd (getm o_listeners) (for_each (\<lambda>l. bnd (getm o_value) (\<lambda>current. seq (tell l current)
        (for_each (\<lambda>a. case a of
             SetNotify v' \<Rightarrow> setValueNotify fuel acts v'
           | Assign v' \<Rightarrow> assign v'
           | AddListener l' \<Rightarrow> seq (addListener l') (throw UndefinedBehaviour)) (acts l current))))))"

text \<open>Listeners that leave the property alone are told the new value, each once and in the order in which
  they were added.\<close>

lemma notify_quiet:
  fixes acts :: "nat \<Rightarrow> 'v option \<Rightarrow> 'v action list"
  assumes "\<And>l current. acts l current = []"
  shows "setValueNotify (Suc fuel) acts v (p, log) = (Inr (), (p\<lparr>o_value := Some v\<rparr>, log @ map (\<lambda>l. (l, Some v)) (o_listeners p)))"
proof -
  have "for_each (\<lambda>l. bnd (getm o_value) (\<lambda>current. seq (tell l current) (for_each f (acts l current)))) ls (q, log) =
      (Inr (), (q, log @ map (\<lambda>l. (l, o_value q)) ls))" for ls log f and q :: "'v observable"
    by (induction ls arbitrary: log) (simp_all add: assms tell_def act_defs)
  then show ?thesis by (simp add: act_defs assign_def)
qed

text \<open>The listeners \<open>D\<close> were last told the value the property has.\<close>

definition told :: "nat list \<Rightarrow> nat set \<Rightarrow> 'v observable \<times> (nat \<times> 'v option) list \<Rightarrow> bool" where
  "told L D s \<longleftrightarrow> o_listeners (fst s) = L \<and>
     (\<exists>x. o_value (fst s) = Some x \<and> (\<forall>l \<in> D. map_of (rev (snd s)) l = Some (Some x)))"

lemma told_mono: "told L D s \<Longrightarrow> D' \<subseteq> D \<Longrightarrow> told L D' s"
  unfolding told_def by blast

lemma told_listeners: "told L D s \<Longrightarrow> o_listeners (fst s) = L"
  by (simp add: told_def)

lemma triple_for_each:
  assumes "\<And>x. x \<in> set xs \<Longrightarrow> triple P (f x) (\<lambda>_. P) X"
  shows "triple P (for_each f xs) (\<lambda>_. P) X"
  using assms by (induction xs) (auto intro!: triple_seq triple_ret)

text \<open>However the listeners set the property again from within the notification: when it is over, every
  one of them was last told the value the property then has.\<close>

lemma notify_settles:
  fixes acts :: "nat \<Rightarrow> 'v option \<Rightarrow> 'v action list"
  assumes quiet: "\<And>l current w. Assign w \<notin> set (acts l current)"
  shows "triple (\<lambda>s. o_listeners (fst s) = L) (setValueNotify fuel acts v) (\<lambda>_. told L (set L)) (\<lambda>_ _. True)"
proof (induction fuel arbitrary: v)
  case (Suc fuel)
  let ?act = "\<lambda>a :: 'v action. case a of SetNotify v' \<Rightarrow> setValueNotify fuel acts v' | Assign v' \<Rightarrow> assign v'
      | AddListener l' \<Rightarrow> seq (addListener l') (throw UndefinedBehaviour)"
  let ?loop = "for_each (\<lambda>l. bnd (getm o_value) (\<lambda>current. seq (tell l current) (for_each ?act (acts l current))))"
  have acting: "triple (told L D) (for_each ?act (acts l c)) (\<lambda>_. told L D) (\<lambda>_ _. True)" if D: "D \<subseteq> set L" for D l c
  proof (rule triple_for_each)
    fix a assume "a \<in> set (acts l c)"
    with quiet show "triple (told L D) (?act a) (\<lambda>_. told L D) (\<lambda>_ _. True)"
    proof (cases a)
      case (SetNotify w)
      have "triple (told L D) (setValueNotify fuel acts w) (\<lambda>_. told L D) (\<lambda>_ _. True)"
        by (rule triple_post [OF triple_pre [OF Suc.IH]]) (auto intro: told_mono [OF _ D] dest: told_listeners)
      then show ?thesis by (simp add: SetNotify)
    qed (auto simp: triple_def act_defs addListener_def)
  qed
  have one: "triple (told L D) (bnd (getm o_value) (\<lambda>current. seq (tell l current) (for_each ?act (acts l current))))
      (\<lambda>_. told L (insert l D)) (\<lambda>_ _. True)" if D: "insert l D \<subseteq> set L" for l D
  proof (rule triple_get, rule triple_seq)
    fix c :: "'v option"
    show "triple (\<lambda>s. told L D s \<and> o_value (fst s) = c) (tell l c) (\<lambda>_. told L (insert l D)) (\<lambda>_ _. True)"
      by (auto simp: triple_def tell_def ext_def told_def)
    show "triple (told L (insert l D)) (for_each ?act (acts l c)) (\<lambda>_. told L (insert l D)) (\<lambda>_ _. True)"
      by (rule acting [OF D])
  qed
  have loop: "triple (told L D) (?loop ls) (\<lambda>_. told L (D \<union> set ls)) (\<lambda>_ _. True)" if "D \<union> set ls \<subseteq> set L" for ls D
    using that
  proof (induction ls arbitrary: D)
    case (Cons l ls)
    then show ?case using triple_seq [OF one [of l D] Cons.IH [of "insert l D"]] by simp
  qed (auto intro: triple_ret)
  show ?case
    unfolding setValueNotify.simps
  proof (rule triple_seq [where R = "told L {}"])
    show "triple (\<lambda>s. o_listeners (fst s) = L) (assign v) (\<lambda>_. told L {}) (\<lambda>_ _. True)"
      unfolding assign_def by (rule triple_updm) (simp add: told_def)
    show "triple (told L {}) (bnd (getm o_listeners) ?loop) (\<lambda>_. told L (set L)) (\<lambda>_ _. True)"
    proof (rule triple_get)
      fix ls
      show "triple (\<lambda>s. told L {} s \<and> o_listeners (fst s) = ls) (?loop ls) (\<lambda>_. told L (set L)) (\<lambda>_ _. True)"
      proof (cases "ls = L")
        case True
        show ?thesis unfolding True by (rule triple_pre [OF loop [of "{}" L, unfolded Un_empty_left, OF order_refl]]) simp
      next
        case False
        then show ?thesis by (auto simp: triple_def told_def)
      qed
    qed
  qed
qed (simp add: triple_def throw_def)

end
