(* ===== verification/NetlinkMemory.thy ===== *)
theory NetlinkMemory
  imports Netlink "HOL-Library.Multiset"
begin

text \<open>
  The class \<open>Netlink\<close> once more, with the memory \<open>Netlink\<close> leaves out: the cache holds pointers to the
  data of the attributes, which \<open>getAttributes\<close> takes from \<open>malloc\<close> and \<open>clearCache\<close> gives back,
  \<open>readMessage\<close> takes a buffer and the object a socket. Whether a call of \<open>malloc\<close> succeeds is a
  parameter, a function of the size; \<open>new\<close> is taken to succeed. No address is given out twice, so that
  releasing a block a second time is seen; it is the exception \<open>UndefinedBehaviour\<close>.
\<close>

section \<open>Memory\<close>

datatype block = AttributeData string | ReadBuffer

record memory =
  blocks :: "nat \<Rightarrow> block option"
  brk :: nat

definition emptyMemory :: memory where
  "emptyMemory = \<lparr>blocks = (\<lambda>_. None), brk = 0\<rparr>"

definition allocate :: "block \<Rightarrow> memory \<Rightarrow> nat \<times> memory" where
  "allocate b M = (brk M, \<lparr>blocks = (blocks M)(brk M := Some b), brk = Suc (brk M)\<rparr>)"

definition release :: "nat \<Rightarrow> memory \<Rightarrow> exn + memory" where
  "release p M = (if blocks M p = None then Inl UndefinedBehaviour
                  else Inr (M\<lparr>blocks := (blocks M)(p := None)\<rparr>))"

section \<open>The object\<close>

text \<open>An attribute is its type and a pointer to its data; an entry of the cache a header and a list of them.\<close>

type_synonym attribute_list = "(nat \<times> nat) list"

type_synonym ifinfomsg = "int \<times> 32 word \<times> nat"

record netlink_obj =
  o_sequenceNumber :: "32 word"
  o_hasKernelDump :: bool
  o_netlinkInitialized :: bool
  o_fd :: int
  o_sockets :: "int list"
  o_links :: "(ifinfomsg \<times> attribute_list) list"
  o_addresses :: "(nat \<times> attribute_list) list"
  o_routes :: "(unit \<times> attribute_list) list"
  o_memory :: memory

text \<open>\<open>o_sockets\<close> are the descriptors of sockets that are open; \<open>m_fd\<close> is not set before the first call
  of \<open>socket\<close>.\<close>

definition newNetlink :: netlink_obj where
  "newNetlink = \<lparr>o_sequenceNumber = 1, o_hasKernelDump = False, o_netlinkInitialized = False, o_fd = -1,
     o_sockets = [], o_links = [], o_addresses = [], o_routes = [], o_memory = emptyMemory\<rparr>"

section \<open>Reading\<close>

text \<open>What is stored before a call of \<open>malloc\<close> fails stays in memory and in the list.\<close>

fun storeAttributes :: "(nat \<Rightarrow> bool) \<Rightarrow> attribute list \<Rightarrow> memory \<Rightarrow> (bool \<times> attribute_list) \<times> memory" where
  "storeAttributes malloc [] M = ((True, []), M)"
| "storeAttributes malloc ((type, data) # as) M =
     (if \<not> malloc (length data) then ((False, []), M)
      else case allocate (AttributeData data) M of (p, M') \<Rightarrow>
        (case storeAttributes malloc as M' of ((ok, result), M'') \<Rightarrow> ((ok, (type, p) # result), M'')))"

definition saveMessage :: "(nat \<Rightarrow> bool) \<Rightarrow> 'h \<Rightarrow> attribute list \<Rightarrow> ('h \<times> attribute_list) list \<Rightarrow> memory \<Rightarrow>
    ('h \<times> attribute_list) list \<times> memory" where
  "saveMessage malloc header as result M =
     (case storeAttributes malloc as M of ((ok, attributes), M') \<Rightarrow>
        (if ok then result @ [(header, attributes)] else result, M'))"

definition saveLink :: "(nat \<Rightarrow> bool) \<Rightarrow> link_info \<Rightarrow> netlink_obj \<Rightarrow> netlink_obj" where
  "saveLink malloc l n =
     (case saveMessage malloc (ifi_index l, ifi_flags l, ifi_type l) (link_attributes l) (o_links n) (o_memory n) of
        (ls, M) \<Rightarrow> n\<lparr>o_links := ls, o_memory := M\<rparr>)"

definition saveAddress :: "(nat \<Rightarrow> bool) \<Rightarrow> address_info \<Rightarrow> netlink_obj \<Rightarrow> netlink_obj" where
  "saveAddress malloc a n =
     (case saveMessage malloc (ifa_index a) (address_attributes a) (o_addresses n) (o_memory n) of
        (as, M) \<Rightarrow> n\<lparr>o_addresses := as, o_memory := M\<rparr>)"

definition saveRoute :: "(nat \<Rightarrow> bool) \<Rightarrow> attribute list \<Rightarrow> netlink_obj \<Rightarrow> netlink_obj" where
  "saveRoute malloc r n =
     (case saveMessage malloc () r (o_routes n) (o_memory n) of
        (rs, M) \<Rightarrow> n\<lparr>o_routes := rs, o_memory := M\<rparr>)"

fun handleAnswer :: "(nat \<Rightarrow> bool) \<Rightarrow> nlmsg list \<Rightarrow> bool \<Rightarrow> netlink_obj \<Rightarrow> (int + bool) \<times> netlink_obj" where
  "handleAnswer malloc [] end n = (Inr end, n)"
| "handleAnswer malloc (NLMSG_ERROR e # ms) end n =
     (if e \<noteq> 0 then (Inl e, n) else handleAnswer malloc ms True n)"
| "handleAnswer malloc (NLMSG_DONE # ms) end n = handleAnswer malloc ms True n"
| "handleAnswer malloc (LinkMessage l # ms) end n = handleAnswer malloc ms end (saveLink malloc l n)"
| "handleAnswer malloc (AddressMessage a # ms) end n = handleAnswer malloc ms end (saveAddress malloc a n)"
| "handleAnswer malloc (RouteMessage r # ms) end n = handleAnswer malloc ms end (saveRoute malloc r n)"
| "handleAnswer malloc (OtherMessage # ms) end n = handleAnswer malloc ms end n"

text \<open>\<open>Inl\<close> is the error with which the function returns from inside of the loop.\<close>

fun answerLoop :: "'c kernel_if \<Rightarrow> (nat \<Rightarrow> bool) \<Rightarrow> nat \<Rightarrow> (netlink_obj, 'c, int + unit) meth" where
  "answerLoop K malloc 0 = throw NoReturn"
| "answerLoop K malloc (Suc fuel) = bnd (ext (k_recvmsg K)) (\<lambda>(len, msgs). \<lambda>(n, c).
     case handleAnswer malloc (if len \<le> 0 then [] else msgs) (len = 0) n of
       (Inl e, n') \<Rightarrow> (Inr (Inl e), (n', c))
     | (Inr end, n') \<Rightarrow> if end then (Inr (Inr ()), (n', c)) else answerLoop K malloc fuel (n', c))"

definition newBuffer :: "(netlink_obj, 'c, nat) meth" where
  "newBuffer s = (case allocate ReadBuffer (o_memory (fst s)) of
     (p, M) \<Rightarrow> (Inr p, ((fst s)\<lparr>o_memory := M\<rparr>, snd s)))"

definition freeBlock :: "nat \<Rightarrow> (netlink_obj, 'c, unit) meth" where
  "freeBlock p s = (case release p (o_memory (fst s)) of
     Inl e \<Rightarrow> (Inl e, s) | Inr M \<Rightarrow> (Inr (), ((fst s)\<lparr>o_memory := M\<rparr>, snd s)))"

definition openSocket :: "'c kernel_if \<Rightarrow> (netlink_obj, 'c, bool) meth" where
  "openSocket K = bnd (getm o_netlinkInitialized) (\<lambda>initialized.
     if initialized then ret True
     else bnd (ext (k_socket K)) (\<lambda>fd. seq (updm (o_fd_update (\<lambda>_. fd)))
       (if fd = -1 then ret False
        else seq (updm (o_sockets_update (\<lambda>fds. fd # fds)))
          (bnd (ext (k_bind K)) (\<lambda>r.
             if r < 0 then ret False
             else seq (updm (o_netlinkInitialized_update (\<lambda>_. True))) (ret True))))))"

definition readAnswer :: "'c kernel_if \<Rightarrow> (nat \<Rightarrow> bool) \<Rightarrow> nat \<Rightarrow> (netlink_obj, 'c, int) meth" where
  "readAnswer K malloc fuel = bnd (openSocket K) (\<lambda>ok.
     if \<not> ok then ret 1
     else bnd newBuffer (\<lambda>buf. bnd (answerLoop K malloc fuel) (\<lambda>r. case r of
         Inl e \<Rightarrow> ret e
       | Inr _ \<Rightarrow> seq (freeBlock buf) (ret 0))))"

section \<open>Requests\<close>

definition newRequest :: "request_type \<Rightarrow> request_flag list \<Rightarrow> payload \<Rightarrow> (netlink_obj, 'c, netlink_request) meth" where
  "newRequest type flags payload =
     bnd (getm o_sequenceNumber) (\<lambda>number.
       seq (updm (o_sequenceNumber_update (\<lambda>n. n + 1)))
         (ret \<lparr>nlmsg_len = NLMSG_LENGTH (sizeof_pay payload), nlmsg_type = type,
               nlmsg_flags = flags @ [NLM_F_ACK, NLM_F_REQUEST], nlmsg_seq = number, pay = payload, attrs = []\<rparr>))"

definition sendRequest :: "'c kernel_if \<Rightarrow> (nat \<Rightarrow> bool) \<Rightarrow> nat \<Rightarrow> netlink_request \<Rightarrow> (netlink_obj, 'c, bool) meth" where
  "sendRequest K malloc fuel request = bnd (openSocket K) (\<lambda>ok.
     if \<not> ok then ret False
     else bnd (ext (k_sendmsg K request)) (\<lambda>r.
       if r = -1 then ret False
       else bnd (readAnswer K malloc fuel) (\<lambda>status. if status < 0 then ret False else ret True)))"

definition takeKernelDump :: "'c kernel_if \<Rightarrow> (nat \<Rightarrow> bool) \<Rightarrow> nat \<Rightarrow> (netlink_obj, 'c, bool) meth" where
  "takeKernelDump K malloc fuel = seq (updm (o_hasKernelDump_update (\<lambda>_. False)))
     (andThen (bnd (newRequest RTM_GETLINK [NLM_F_DUMP] (PayGen AF_PACKET)) (sendRequest K malloc fuel))
     (andThen (bnd (newRequest RTM_GETADDR [NLM_F_DUMP] (PayGen AF_PACKET)) (sendRequest K malloc fuel))
     (andThen (bnd (newRequest RTM_GETROUTE [NLM_F_DUMP] (PayGen AF_PACKET)) (sendRequest K malloc fuel))
       (seq (updm (o_hasKernelDump_update (\<lambda>_. True))) (ret True)))))"

definition ensureKernelDump :: "'c kernel_if \<Rightarrow> (nat \<Rightarrow> bool) \<Rightarrow> nat \<Rightarrow> (netlink_obj, 'c, bool) meth" where
  "ensureKernelDump K malloc fuel = bnd (getm o_hasKernelDump) (\<lambda>has.
     if has then ret True else takeKernelDump K malloc fuel)"

definition openNetlink :: "'c kernel_if \<Rightarrow> (nat \<Rightarrow> bool) \<Rightarrow> nat \<Rightarrow> (netlink_obj, 'c, unit) meth" where
  "openNetlink K malloc fuel =
     bnd (openSocket K) (\<lambda>_. bnd (takeKernelDump K malloc fuel) (\<lambda>_. ret ()))"

section \<open>Releasing\<close>

definition freeAttributes :: "attribute_list \<Rightarrow> (netlink_obj, 'c, unit) meth" where
  "freeAttributes attrList = for_each (\<lambda>attrInfo. freeBlock (snd attrInfo)) attrList"

definition emptyCache :: "(netlink_obj, 'c, unit) meth" where
  "emptyCache =
     seq (bnd (getm o_links) (for_each (\<lambda>link. freeAttributes (snd link))))
     (seq (updm (o_links_update (\<lambda>_. [])))
     (seq (bnd (getm o_addresses) (for_each (\<lambda>addr. freeAttributes (snd addr))))
     (seq (updm (o_addresses_update (\<lambda>_. [])))
     (seq (bnd (getm o_routes) (for_each (\<lambda>route. freeAttributes (snd route))))
     (seq (updm (o_routes_update (\<lambda>_. [])))
       (updm (o_hasKernelDump_update (\<lambda>_. False))))))))"

definition closeNetlink :: "(netlink_obj, 'c, unit) meth" where
  "closeNetlink =
     bnd (getm o_netlinkInitialized) (\<lambda>initialized.
       seq (if initialized then updm (\<lambda>n. n\<lparr>o_sockets := remove1 (o_fd n) (o_sockets n)\<rparr>) else ret ())
         (bnd (getm o_hasKernelDump) (\<lambda>has. if has then emptyCache else ret ())))"


section \<open>What the cache holds\<close>

definition cache_pointers :: "('h \<times> attribute_list) list \<Rightarrow> nat list" where
  "cache_pointers es = concat (map (\<lambda>e. map snd (snd e)) es)"

definition pointers :: "netlink_obj \<Rightarrow> nat list" where
  "pointers n = cache_pointers (o_links n) @ cache_pointers (o_addresses n) @ cache_pointers (o_routes n)"

definition fresh_above :: "memory \<Rightarrow> bool" where
  "fresh_above M \<longleftrightarrow> (\<forall>p \<ge> brk M. blocks M p = None)"

definition holds_data :: "memory \<Rightarrow> nat \<Rightarrow> bool" where
  "holds_data M p \<longleftrightarrow> (\<exists>d. blocks M p = Some (AttributeData d))"

text \<open>Every pointer of the cache has a block of its own; with \<open>all_cached\<close> no other attribute data is in
  memory.\<close>

definition owning :: "netlink_obj \<Rightarrow> bool" where
  "owning n \<longleftrightarrow> fresh_above (o_memory n) \<and> distinct (pointers n) \<and> (\<forall>p \<in> set (pointers n). holds_data (o_memory n) p)"

definition all_cached :: "netlink_obj \<Rightarrow> bool" where
  "all_cached n \<longleftrightarrow> (\<forall>p. holds_data (o_memory n) p \<longrightarrow> p \<in> set (pointers n))"

definition extends :: "memory \<Rightarrow> memory \<Rightarrow> bool" where
  "extends M M' \<longleftrightarrow> brk M \<le> brk M' \<and> (\<forall>p < brk M. blocks M' p = blocks M p)"

text \<open>The cache with the data in place of the pointers.\<close>

definition deref :: "memory \<Rightarrow> nat \<times> nat \<Rightarrow> attribute" where
  "deref M a = (fst a, case blocks M (snd a) of Some (AttributeData d) \<Rightarrow> d | _ \<Rightarrow> [])"

definition link_value :: "memory \<Rightarrow> ifinfomsg \<times> attribute_list \<Rightarrow> link_info" where
  "link_value M e = (case e of ((i, f, t), as) \<Rightarrow>
     \<lparr>ifi_index = i, ifi_flags = f, ifi_type = t, link_attributes = map (deref M) as\<rparr>)"

definition address_value :: "memory \<Rightarrow> nat \<times> attribute_list \<Rightarrow> address_info" where
  "address_value M e = \<lparr>ifa_index = fst e, address_attributes = map (deref M) (snd e)\<rparr>"

definition abs_netlink :: "netlink_obj \<Rightarrow> netlink" where
  "abs_netlink n = \<lparr>m_sequenceNumber = o_sequenceNumber n, m_hasKernelDump = o_hasKernelDump n,
     m_netlinkInitialized = o_netlinkInitialized n,
     m_links = map (link_value (o_memory n)) (o_links n),
     m_addresses = map (address_value (o_memory n)) (o_addresses n),
     m_routes = map (\<lambda>e. map (deref (o_memory n)) (snd e)) (o_routes n)\<rparr>"

subsection \<open>Storing\<close>

lemma extends_refl [simp]: "extends M M"
  by (simp add: extends_def)

lemma extends_trans: "extends M N \<Longrightarrow> extends N L \<Longrightarrow> extends M L"
  by (auto simp: extends_def)

lemma extends_allocate: "extends M (snd (allocate b M))"
  by (simp add: extends_def allocate_def)

lemma fresh_allocate: "fresh_above M \<Longrightarrow> fresh_above (snd (allocate b M))"
  by (simp add: fresh_above_def allocate_def)

lemma holds_below: "fresh_above M \<Longrightarrow> holds_data M p \<Longrightarrow> p < brk M"
  unfolding fresh_above_def holds_data_def by (rule ccontr) simp

lemma extends_holds: "extends M M' \<Longrightarrow> fresh_above M \<Longrightarrow> holds_data M p \<Longrightarrow> holds_data M' p"
  using holds_below [of M p] by (simp add: extends_def holds_data_def)

lemma extends_deref: "extends M M' \<Longrightarrow> snd a < brk M \<Longrightarrow> deref M' a = deref M a"
  by (simp add: extends_def deref_def)

lemma storeAttributes_memory:
  assumes "storeAttributes malloc as M = ((ok, ps), M')" "fresh_above M"
  shows "extends M M' \<and> fresh_above M' \<and> distinct (map snd ps) \<and>
    (\<forall>p \<in> set (map snd ps). brk M \<le> p \<and> holds_data M' p)"
  using assms
proof (induction malloc as M arbitrary: ok ps rule: storeAttributes.induct)
  case (2 malloc type data as M)
  show ?case
  proof (cases "malloc (length data)")
    case True
    let ?M = "snd (allocate (AttributeData data) M)"
    have alloc: "allocate (AttributeData data) M = (brk M, ?M)" "brk ?M = Suc (brk M)"
      "holds_data ?M (brk M)" by (simp_all add: allocate_def holds_data_def)
    from 2(2) True alloc obtain qs where
      st: "storeAttributes malloc as ?M = ((ok, qs), M')" and ps: "ps = (type, brk M) # qs"
      by (auto split: prod.splits)
    note IH = 2(1) [OF _ alloc(1) [symmetric] st fresh_allocate [OF 2(3)]]
    from IH True have sub: "extends ?M M'" "fresh_above M'" "distinct (map snd qs)"
      "\<forall>p \<in> set (map snd qs). Suc (brk M) \<le> p \<and> holds_data M' p" by (auto simp: alloc(2))
    have "holds_data M' (brk M)"
      using extends_holds [OF sub(1) fresh_allocate [OF 2(3)] alloc(3)] .
    with sub extends_trans [OF extends_allocate sub(1)] show ?thesis
      by (auto simp: ps dest: Suc_leD)
  qed (use 2 in auto)
qed auto

lemma storeAttributes_values:
  assumes "storeAttributes malloc as M = ((ok, ps), M')" "fresh_above M" "\<And>k. malloc k"
  shows "ok \<and> map (deref M') ps = as \<and> (\<forall>p. holds_data M' p \<longrightarrow> holds_data M p \<or> p \<in> set (map snd ps))"
  using assms
proof (induction malloc as M arbitrary: ok ps rule: storeAttributes.induct)
  case (2 malloc type data as M)
  let ?M = "snd (allocate (AttributeData data) M)"
  have alloc: "allocate (AttributeData data) M = (brk M, ?M)" "brk ?M = Suc (brk M)"
    "deref ?M (type, brk M) = (type, data)" by (simp_all add: allocate_def deref_def)
  from 2(2) 2(4) [of "length data"] alloc(1) obtain qs where
    st: "storeAttributes malloc as ?M = ((ok, qs), M')" and ps: "ps = (type, brk M) # qs"
    by (auto split: prod.splits)
  from 2(1) [OF _ alloc(1) [symmetric] st fresh_allocate [OF 2(3)] 2(4)] 2(4)
  have IH: "ok" "map (deref M') qs = as" "\<forall>p. holds_data M' p \<longrightarrow> holds_data ?M p \<or> p \<in> set (map snd qs)" by auto
  have "extends ?M M'" using storeAttributes_memory [OF st fresh_allocate [OF 2(3)]] by simp
  then have "deref M' (type, brk M) = (type, data)"
    using extends_deref [of ?M M' "(type, brk M)"] alloc by simp
  moreover have "holds_data ?M p \<Longrightarrow> holds_data M p \<or> p = brk M" for p
    by (auto simp: holds_data_def allocate_def split: if_splits)
  ultimately show ?case using IH by (auto simp: ps)
qed auto

text \<open>One message: the pointers it adds are new, and those of the cache keep their data.\<close>

lemma saveMessage_memory:
  assumes "saveMessage malloc h as es M = (es', M')" "fresh_above M"
  obtains new where "cache_pointers es' = cache_pointers es @ new" "distinct new"
    "\<forall>p \<in> set new. brk M \<le> p \<and> holds_data M' p" "extends M M'" "fresh_above M'"
proof -
  obtain ok ps where st: "storeAttributes malloc as M = ((ok, ps), M')" and
    es': "es' = (if ok then es @ [(h, ps)] else es)"
    using assms(1) by (auto simp: saveMessage_def split: prod.splits)
  have "cache_pointers es' = cache_pointers es @ (if ok then map snd ps else [])"
    by (simp add: es' cache_pointers_def)
  from that [OF this] storeAttributes_memory [OF st assms(2)] show ?thesis by simp
qed

lemma saveMessage_values:
  assumes "saveMessage malloc h as es M = (es', M')" "fresh_above M" "\<And>k. malloc k"
  obtains ps where "es' = es @ [(h, ps)]" "map (deref M') ps = as"
    "\<forall>p. holds_data M' p \<longrightarrow> holds_data M p \<or> p \<in> set (map snd ps)"
proof -
  obtain ok ps where st: "storeAttributes malloc as M = ((ok, ps), M')" and
    es': "es' = (if ok then es @ [(h, ps)] else es)"
    using assms(1) by (auto simp: saveMessage_def split: prod.splits)
  from storeAttributes_values [OF st assms(2,3)] that show ?thesis by (auto simp: es')
qed


text \<open>A change of the object that adds pointers to blocks of their own and disturbs no other.\<close>

definition adds :: "netlink_obj \<Rightarrow> netlink_obj \<Rightarrow> bool" where
  "adds n n' \<longleftrightarrow> extends (o_memory n) (o_memory n') \<and> fresh_above (o_memory n') \<and>
     (\<exists>new. mset (pointers n') = mset (pointers n) + mset new \<and> distinct new \<and>
        (\<forall>p \<in> set new. brk (o_memory n) \<le> p \<and> holds_data (o_memory n') p))"

lemma adds_owning:
  assumes "owning n" "adds n n'"
  shows "owning n'"
proof -
  from assms(2) obtain new where new: "mset (pointers n') = mset (pointers n @ new)" "distinct new"
    "\<forall>p \<in> set new. brk (o_memory n) \<le> p \<and> holds_data (o_memory n') p"
    and M: "extends (o_memory n) (o_memory n')" "fresh_above (o_memory n')" by (auto simp: adds_def)
  have sets: "set (pointers n') = set (pointers n) \<union> set new" using mset_eq_setD [OF new(1)] by simp
  from assms(1) have old: "fresh_above (o_memory n)" "distinct (pointers n)"
    "\<forall>p \<in> set (pointers n). holds_data (o_memory n) p" by (auto simp: owning_def)
  then have below: "\<forall>p \<in> set (pointers n). p < brk (o_memory n)" by (auto intro: holds_below)
  with new old(2) have "distinct (pointers n @ new)" by fastforce
  then have "distinct (pointers n')" using mset_eq_imp_distinct_iff [OF new(1)] by simp
  moreover have "holds_data (o_memory n') p" if "p \<in> set (pointers n')" for p
    using that sets new(3) old extends_holds [OF M(1) old(1)] by auto
  ultimately show ?thesis using M(2) by (simp add: owning_def)
qed

lemma saveLink_adds: "fresh_above (o_memory n) \<Longrightarrow> adds n (saveLink malloc l n)"
  and saveAddress_adds: "fresh_above (o_memory n) \<Longrightarrow> adds n (saveAddress malloc a n)"
  and saveRoute_adds: "fresh_above (o_memory n) \<Longrightarrow> adds n (saveRoute malloc r n)"
  by (auto simp: saveLink_def saveAddress_def saveRoute_def adds_def pointers_def ac_simps
        split: prod.split elim!: saveMessage_memory)


lemma values_extend:
  assumes "\<forall>p \<in> set (cache_pointers es). p < brk M" "extends M M'" "e \<in> set es"
  shows "map (deref M') (snd e) = map (deref M) (snd e)"
proof (rule map_cong [OF refl])
  fix a assume "a \<in> set (snd e)"
  with assms(1,3) have "snd a < brk M" by (fastforce simp: cache_pointers_def)
  then show "deref M' a = deref M a" by (rule extends_deref [OF assms(2)])
qed

lemma caches_below:
  assumes "owning n"
  shows "\<forall>p \<in> set (cache_pointers (o_links n)). p < brk (o_memory n)"
    "\<forall>p \<in> set (cache_pointers (o_addresses n)). p < brk (o_memory n)"
    "\<forall>p \<in> set (cache_pointers (o_routes n)). p < brk (o_memory n)"
  using assms holds_below [of "o_memory n"] by (auto simp: owning_def pointers_def)

lemma abs_extend:
  assumes "owning n" "extends (o_memory n) M"
  shows "map (link_value M) (o_links n) = map (link_value (o_memory n)) (o_links n)"
    "map (address_value M) (o_addresses n) = map (address_value (o_memory n)) (o_addresses n)"
    "map (\<lambda>e. map (deref M) (snd e)) (o_routes n) = map (\<lambda>e. map (deref (o_memory n)) (snd e)) (o_routes n)"
  using values_extend [OF caches_below(1) [OF assms(1)] assms(2)]
    values_extend [OF caches_below(2) [OF assms(1)] assms(2)]
    values_extend [OF caches_below(3) [OF assms(1)] assms(2)]
  by (auto simp: link_value_def address_value_def split: prod.split)

lemma pointers_snoc:
  "cache_pointers (es @ [(h, ps)]) = cache_pointers es @ map snd ps"
  by (simp add: cache_pointers_def)

lemmas save_defs = saveLink_def saveAddress_def saveRoute_def

lemma save_abs:
  assumes "owning n" "\<And>k. malloc k"
  shows "abs_netlink (saveLink malloc l n) = (abs_netlink n)\<lparr>m_links := m_links (abs_netlink n) @ [l]\<rparr>"
    "abs_netlink (saveAddress malloc a n) = (abs_netlink n)\<lparr>m_addresses := m_addresses (abs_netlink n) @ [a]\<rparr>"
    "abs_netlink (saveRoute malloc r n) = (abs_netlink n)\<lparr>m_routes := m_routes (abs_netlink n) @ [r]\<rparr>"
proof -
  from assms(1) have fresh: "fresh_above (o_memory n)" by (simp add: owning_def)
  note old = abs_extend [OF assms(1)]
  show "abs_netlink (saveLink malloc l n) = (abs_netlink n)\<lparr>m_links := m_links (abs_netlink n) @ [l]\<rparr>"
  proof -
    obtain es M where run: "saveMessage malloc (ifi_index l, ifi_flags l, ifi_type l) (link_attributes l) (o_links n)
        (o_memory n) = (es, M)" by force
    from saveMessage_memory [OF run fresh] have M: "extends (o_memory n) M" by blast
    from saveMessage_values [OF run fresh assms(2)] obtain ps where
      ps: "es = o_links n @ [((ifi_index l, ifi_flags l, ifi_type l), ps)]" "map (deref M) ps = link_attributes l" by blast
    show ?thesis
      by (simp add: saveLink_def run ps abs_netlink_def old [OF M] link_value_def)
  qed
  show "abs_netlink (saveAddress malloc a n) = (abs_netlink n)\<lparr>m_addresses := m_addresses (abs_netlink n) @ [a]\<rparr>"
  proof -
    obtain es M where run: "saveMessage malloc (ifa_index a) (address_attributes a) (o_addresses n)
        (o_memory n) = (es, M)" by force
    from saveMessage_memory [OF run fresh] have M: "extends (o_memory n) M" by blast
    from saveMessage_values [OF run fresh assms(2)] obtain ps where
      ps: "es = o_addresses n @ [(ifa_index a, ps)]" "map (deref M) ps = address_attributes a" by blast
    show ?thesis
      by (simp add: saveAddress_def run ps abs_netlink_def old [OF M] address_value_def)
  qed
  show "abs_netlink (saveRoute malloc r n) = (abs_netlink n)\<lparr>m_routes := m_routes (abs_netlink n) @ [r]\<rparr>"
  proof -
    obtain es M where run: "saveMessage malloc () r (o_routes n) (o_memory n) = (es, M)" by force
    from saveMessage_memory [OF run fresh] have M: "extends (o_memory n) M" by blast
    from saveMessage_values [OF run fresh assms(2)] obtain ps where
      ps: "es = o_routes n @ [((), ps)]" "map (deref M) ps = r" by blast
    show ?thesis
      by (simp add: saveRoute_def run ps abs_netlink_def old [OF M])
  qed
qed

lemma save_all_cached:
  assumes "all_cached n" "fresh_above (o_memory n)" "\<And>k. malloc k"
  shows "all_cached (saveLink malloc l n)" "all_cached (saveAddress malloc a n)" "all_cached (saveRoute malloc r n)"
  using assms(1,2) assms(3)
  by (auto simp: save_defs all_cached_def pointers_def pointers_snoc split: prod.split
        elim!: saveMessage_values [where malloc = malloc, OF _ _ assms(3)]) blast+

section \<open>The methods\<close>

text \<open>A read buffer at \<open>p\<close>, beside an orderly cache.\<close>

definition buffered :: "nat \<Rightarrow> netlink_obj \<Rightarrow> bool" where
  "buffered p n \<longleftrightarrow> owning n \<and> p < brk (o_memory n) \<and> blocks (o_memory n) p = Some ReadBuffer"

lemma buffered_adds: "buffered p n \<Longrightarrow> adds n n' \<Longrightarrow> buffered p n'"
  using adds_owning [of n n'] by (auto simp: buffered_def adds_def extends_def)

lemma buffered_owning: "buffered p n \<Longrightarrow> owning n"
  by (simp add: buffered_def)

lemma buffered_notin: "buffered p n \<Longrightarrow> p \<notin> set (pointers n)"
  by (auto simp: buffered_def owning_def holds_data_def)

text \<open>What is kept however the calls of \<open>malloc\<close> end; \<open>J\<close> is \<open>owning\<close> or \<open>buffered p\<close>.\<close>

definition add_stable :: "(netlink_obj \<Rightarrow> bool) \<Rightarrow> bool" where
  "add_stable J \<longleftrightarrow> (\<forall>n n'. J n \<longrightarrow> adds n n' \<longrightarrow> J n') \<and> (\<forall>n. J n \<longrightarrow> owning n)"

lemma add_stable_cases: "add_stable owning" "add_stable (buffered p)"
  unfolding add_stable_def by (blast intro: adds_owning buffered_adds dest: buffered_owning)+

lemma add_stableD: "add_stable J \<Longrightarrow> J n \<Longrightarrow> (fresh_above (o_memory n) \<Longrightarrow> adds n n') \<Longrightarrow> J n'"
  unfolding add_stable_def owning_def by blast

lemma handleAnswer_keeps:
  assumes "add_stable J" "J n" "handleAnswer malloc ms end n = (r, n')"
  shows "J n'"
  using assms(2,3)
proof (induction malloc ms "end" n arbitrary: r n' rule: handleAnswer.induct)
  case (4 malloc l ms "end" n)
  then show ?case using add_stableD [OF assms(1) 4(2) saveLink_adds] by simp
next
  case (5 malloc a ms "end" n)
  then show ?case using add_stableD [OF assms(1) 5(2) saveAddress_adds] by simp
next
  case (6 malloc r ms "end" n)
  then show ?case using add_stableD [OF assms(1) 6(2) saveRoute_adds] by simp
qed (auto split: if_splits)

lemma keeps_answerLoop: "add_stable J \<Longrightarrow> keeps (\<lambda>s. J (fst s)) (answerLoop K malloc fuel)"
proof (induction fuel)
  case (Suc fuel)
  note IH = keepsD2 [OF Suc.IH [OF Suc.prems]]
  show ?case
  proof (rule keepsI)
    fix s :: "netlink_obj \<times> 'a" assume J: "J (fst s)"
    obtain n c q d where s: "s = (n, c)" and k: "k_recvmsg K c = (q, d)" by (metis surj_pair)
    show "J (fst (snd (answerLoop K malloc (Suc fuel) s)))"
    proof (cases q)
      case (Inr packet)
      obtain len msgs where packet: "packet = (len, msgs)" by force
      obtain r n' where run: "handleAnswer malloc (if len \<le> 0 then [] else msgs) (len = 0) n = (r, n')" by force
      from handleAnswer_keeps [OF Suc.prems _ run] J have "J n'" by (simp add: s)
      with IH [of "(n', d)"] show ?thesis
        by (cases r) (simp_all add: s k Inr packet run bnd_def ext_def)
    qed (use J in \<open>simp add: s k bnd_def ext_def\<close>)
  qed
qed (simp add: keeps_intros)

lemma pointers_fields [simp]:
  "pointers (o_memory_update M n) = pointers n" "pointers (o_sequenceNumber_update k n) = pointers n"
  "pointers (o_hasKernelDump_update b n) = pointers n" "pointers (o_netlinkInitialized_update b n) = pointers n"
  "pointers (o_fd_update i n) = pointers n" "pointers (o_sockets_update is n) = pointers n"
  by (simp_all add: pointers_def)

lemma owning_fields [simp]:
  "owning (o_sequenceNumber_update k n) = owning n"
  "owning (o_hasKernelDump_update b n) = owning n" "owning (o_netlinkInitialized_update b n) = owning n"
  "owning (o_fd_update i n) = owning n" "owning (o_sockets_update is n) = owning n"
  by (simp_all add: owning_def)

lemma newBuffer_run:
  "newBuffer (n, c) = (Inr (brk (o_memory n)), (n\<lparr>o_memory := snd (allocate ReadBuffer (o_memory n))\<rparr>, c))"
  by (simp add: newBuffer_def allocate_def)

lemma newBuffer_adds:
  "fresh_above (o_memory n) \<Longrightarrow> adds n (n\<lparr>o_memory := snd (allocate ReadBuffer (o_memory n))\<rparr>)"
  by (simp add: adds_def extends_allocate fresh_allocate)

lemma newBuffer_buffered:
  "owning n \<Longrightarrow> buffered (brk (o_memory n)) (n\<lparr>o_memory := snd (allocate ReadBuffer (o_memory n))\<rparr>)"
  using adds_owning [OF _ newBuffer_adds, of n] by (auto simp: buffered_def owning_def) (simp_all add: allocate_def)

lemma freeBlock_run:
  "blocks (o_memory n) p \<noteq> None \<Longrightarrow>
   freeBlock p (n, c) = (Inr (), (n\<lparr>o_memory := (o_memory n)\<lparr>blocks := (blocks (o_memory n))(p := None)\<rparr>\<rparr>, c))"
  by (simp add: freeBlock_def release_def)

lemma owning_free:
  "owning n \<Longrightarrow> p \<notin> set (pointers n) \<Longrightarrow>
   owning (n\<lparr>o_memory := (o_memory n)\<lparr>blocks := (blocks (o_memory n))(p := None)\<rparr>\<rparr>)"
  by (auto simp: owning_def fresh_above_def holds_data_def)

text \<open>A read leaves the cache in order whatever the kernel and \<open>malloc\<close> do.\<close>

abbreviation ordered :: "netlink_obj \<times> 'c \<Rightarrow> bool" where
  "ordered s \<equiv> owning (fst s)"

lemma keeps_openSocket: "keeps ordered (openSocket K)"
  unfolding openSocket_def by (intro keeps_intros keeps_ext keeps_updm) simp_all

lemma keeps_readAnswer: "keeps ordered (readAnswer K malloc fuel)"
  unfolding readAnswer_def
proof (rule keeps_bnd [OF keeps_openSocket], intro keeps_if keeps_ret)
  have "triple ordered newBuffer (\<lambda>p s. buffered p (fst s)) (\<lambda>_. ordered)"
    using newBuffer_buffered by (fastforce simp: triple_def newBuffer_run)
  moreover have "triple (\<lambda>s. buffered p (fst s)) (answerLoop K malloc fuel) (\<lambda>_ s. buffered p (fst s)) (\<lambda>_. ordered)" for p
    using triple_keeps [OF keeps_answerLoop [OF add_stable_cases(2)], of p K malloc fuel]
    by (rule triple_post) (auto simp: buffered_def)
  moreover have "triple (\<lambda>s. buffered p (fst s)) (freeBlock p) (\<lambda>_. ordered) (\<lambda>_. ordered)" for p
    using owning_free buffered_notin [of p] by (fastforce simp: triple_def buffered_def freeBlock_run)
  ultimately have "triple ordered (bnd newBuffer (\<lambda>buf. bnd (answerLoop K malloc fuel) (\<lambda>r. case r of
         Inl e \<Rightarrow> ret e | Inr _ \<Rightarrow> seq (freeBlock buf) (ret 0)))) (\<lambda>_. ordered) (\<lambda>_. ordered)"
    by (intro triple_bnd) (auto split: sum.split intro!: triple_ret triple_seq simp: buffered_def)
  then show "keeps ordered (bnd newBuffer (\<lambda>buf. bnd (answerLoop K malloc fuel) (\<lambda>r. case r of
         Inl e \<Rightarrow> ret e | Inr _ \<Rightarrow> seq (freeBlock buf) (ret 0))))"
    by (simp only: keeps_triple)
qed


lemma keeps_newRequest: "keeps ordered (newRequest type flags payload)"
  unfolding newRequest_def by (intro keeps_intros keeps_updm) simp_all

lemma keeps_sendRequest: "keeps ordered (sendRequest K malloc fuel request)"
  unfolding sendRequest_def by (intro keeps_intros keeps_ext keeps_openSocket keeps_readAnswer) simp_all

lemma keeps_takeKernelDump: "keeps ordered (takeKernelDump K malloc fuel)"
  unfolding takeKernelDump_def
  by (intro keeps_intros keeps_updm keeps_newRequest keeps_sendRequest) simp_all

lemma keeps_openNetlink: "keeps ordered (openNetlink K malloc fuel)"
  unfolding openNetlink_def by (intro keeps_intros keeps_openSocket keeps_takeKernelDump)

lemma keeps_ensureKernelDump: "keeps ordered (ensureKernelDump K malloc fuel)"
  unfolding ensureKernelDump_def by (intro keeps_intros keeps_takeKernelDump)

subsection \<open>Refinement\<close>

text \<open>Where no call of \<open>malloc\<close> fails the method does on pointers what the other does on values.\<close>

definition refines :: "(netlink_obj, 'c, 'a) meth \<Rightarrow> (netlink, 'c, 'a) meth \<Rightarrow> bool" where
  "refines m m' \<longleftrightarrow> (\<forall>n c r n' c'. owning n \<longrightarrow> all_cached n \<longrightarrow> m (n, c) = (r, (n', c')) \<longrightarrow>
     m' (abs_netlink n, c) = (r, (abs_netlink n', c')) \<and> owning n' \<and> all_cached n')"

lemma refinesD:
  "refines m m' \<Longrightarrow> owning n \<Longrightarrow> all_cached n \<Longrightarrow> m (n, c) = (r, (n', c')) \<Longrightarrow>
   m' (abs_netlink n, c) = (r, (abs_netlink n', c')) \<and> owning n' \<and> all_cached n'"
  unfolding refines_def by blast

lemma refines_ret [simp]: "refines (ret a) (ret a)"
  by (simp add: refines_def ret_def)

lemma refines_bnd:
  assumes "refines m m'" "\<And>a. refines (f a) (f' a)"
  shows "refines (bnd m f) (bnd m' f')"
  unfolding refines_def
proof (intro allI impI)
  fix n c r n' c'
  assume good: "owning n" "all_cached n" and run: "bnd m f (n, c) = (r, (n', c'))"
  obtain q k d where m: "m (n, c) = (q, (k, d))" by (rule run_exists)
  note M = refinesD [OF assms(1) good m]
  show "bnd m' f' (abs_netlink n, c) = (r, (abs_netlink n', c')) \<and> owning n' \<and> all_cached n'"
  proof (cases q)
    case (Inl e)
    with run m M show ?thesis by (simp add: bnd_def)
  next
    case (Inr a)
    with run m have "f a (k, d) = (r, (n', c'))" by (simp add: bnd_def)
    from refinesD [OF assms(2) _ _ this] M Inr show ?thesis by (simp add: bnd_def)
  qed
qed

lemma refines_seq: "refines m m' \<Longrightarrow> refines k k' \<Longrightarrow> refines (seq m k) (seq m' k')"
  unfolding seq_def by (rule refines_bnd)

lemma refines_andThen: "refines m m' \<Longrightarrow> refines k k' \<Longrightarrow> refines (andThen m k) (andThen m' k')"
  unfolding andThen_def by (rule refines_bnd) simp_all

lemma refines_if: "(b \<Longrightarrow> refines m m') \<Longrightarrow> (\<not> b \<Longrightarrow> refines k k') \<Longrightarrow> refines (if b then m else k) (if b then m' else k')"
  by simp

lemma refines_ext: "refines (ext m) (ext m)"
  by (auto simp: refines_def ext_def split: prod.splits)

lemma refines_getm: "(\<And>n. f n = g (abs_netlink n)) \<Longrightarrow> refines (getm f) (getm g)"
  by (simp add: refines_def getm_def)

lemma refines_updm:
  "(\<And>n. g (abs_netlink n) = abs_netlink (f n)) \<Longrightarrow> (\<And>n. owning n \<Longrightarrow> owning (f n)) \<Longrightarrow>
   (\<And>n. all_cached n \<Longrightarrow> all_cached (f n)) \<Longrightarrow> refines (updm f) (updm g)"
  by (simp add: refines_def updm_def)

text \<open>A member that the values do not have.\<close>

lemma refines_hidden:
  assumes "\<And>n. abs_netlink (f n) = abs_netlink n" "\<And>n. owning n \<Longrightarrow> owning (f n)"
    and "\<And>n. all_cached n \<Longrightarrow> all_cached (f n)" "refines m m'"
  shows "refines (seq (updm f) m) m'"
  unfolding refines_def
proof (intro allI impI)
  fix n c r n' c'
  assume good: "owning n" "all_cached n" and "seq (updm f) m (n, c) = (r, (n', c'))"
  then have "m (f n, c) = (r, (n', c'))" by (simp add: seq_def bnd_def updm_def)
  from refinesD [OF assms(4) assms(2) [OF good(1)] assms(3) [OF good(2)] this]
  show "m' (abs_netlink n, c) = (r, (abs_netlink n', c')) \<and> owning n' \<and> all_cached n'"
    by (simp only: assms(1))
qed

lemma all_cached_fields [simp]:
  "all_cached (o_sequenceNumber_update k n) = all_cached n"
  "all_cached (o_hasKernelDump_update b n) = all_cached n" "all_cached (o_netlinkInitialized_update b n) = all_cached n"
  "all_cached (o_fd_update i n) = all_cached n" "all_cached (o_sockets_update is n) = all_cached n"
  by (simp_all add: all_cached_def)

lemma refines_openSocket: "refines (openSocket K) (setupNetlink K)"
  unfolding openSocket_def setupNetlink_def
  by (intro refines_bnd refines_if refines_ret refines_getm refines_ext refines_seq refines_hidden refines_updm)
    (simp_all add: abs_netlink_def)

lemma refines_newRequest: "refines (newRequest type flags payload) (createMessage type flags payload)"
  unfolding newRequest_def createMessage_def
  by (intro refines_bnd refines_ret refines_getm refines_seq refines_updm) (simp_all add: abs_netlink_def)


lemma handleAnswer_values:
  assumes "\<And>k. malloc k" "owning n" "all_cached n" "handleAnswer malloc ms end n = (r, n')"
  shows "handleMessages ms end (abs_netlink n) = (r, abs_netlink n') \<and> all_cached n'"
  using assms(2-)
proof (induction ms "end" "abs_netlink n" arbitrary: n r n' rule: handleMessages.induct)
  case (4 l ms "end" n)
  have fresh: "fresh_above (o_memory n)" using 4(2) by (simp add: owning_def)
  from 4(1) [of "saveLink malloc l n" r n'] 4(4) save_abs(1) [OF 4(2) assms(1)]
    adds_owning [OF 4(2) saveLink_adds [OF fresh]] save_all_cached(1) [OF 4(3) fresh assms(1)]
  show ?case by simp
next
  case (5 a ms "end" n)
  have fresh: "fresh_above (o_memory n)" using 5(2) by (simp add: owning_def)
  from 5(1) [of "saveAddress malloc a n" r n'] 5(4) save_abs(2) [OF 5(2) assms(1)]
    adds_owning [OF 5(2) saveAddress_adds [OF fresh]] save_all_cached(2) [OF 5(3) fresh assms(1)]
  show ?case by simp
next
  case (6 q ms "end" n)
  have fresh: "fresh_above (o_memory n)" using 6(2) by (simp add: owning_def)
  from 6(1) [of "saveRoute malloc q n" r n'] 6(4) save_abs(3) [OF 6(2) assms(1)]
    adds_owning [OF 6(2) saveRoute_adds [OF fresh]] save_all_cached(3) [OF 6(3) fresh assms(1)]
  show ?case by simp
qed (auto split: if_splits)

text \<open>The loop on values, with the early return told apart.\<close>

lemma answerLoop_values:
  assumes "\<And>k. malloc k" "owning n" "all_cached n" "answerLoop K malloc fuel (n, c) = (r, (n', c'))"
  shows "readLoop K fuel (abs_netlink n, c) =
      ((case r of Inl e \<Rightarrow> Inl e | Inr (Inl e) \<Rightarrow> Inr e | Inr (Inr _) \<Rightarrow> Inr 0), (abs_netlink n', c')) \<and> all_cached n'"
  using assms(2-)
proof (induction fuel arbitrary: n c)
  case (Suc fuel)
  obtain q d where k: "k_recvmsg K c = (q, d)" by force
  show ?case
  proof (cases q)
    case (Inl e)
    with Suc.prems k show ?thesis by (auto simp: bnd_def ext_def)
  next
    case (Inr packet)
    obtain len msgs where packet: "packet = (len, msgs)" by force
    obtain b m where run: "handleAnswer malloc (if len \<le> 0 then [] else msgs) (len = 0) n = (b, m)" by force
    note vals = handleAnswer_values [OF assms(1) Suc.prems(1,2) run]
    have m: "owning m" using handleAnswer_keeps [OF add_stable_cases(1) Suc.prems(1) run] .
    from Suc.prems(3) k Inr packet run Suc.IH [OF m, of d] vals show ?thesis
      by (cases b) (auto simp: bnd_def ext_def split: if_splits)
  qed
qed (auto simp: throw_def)

lemma abs_foreign:
  assumes "\<forall>p \<in> set (pointers n). blocks M p = blocks (o_memory n) p"
  shows "abs_netlink (n\<lparr>o_memory := M\<rparr>) = abs_netlink n"
proof -
  have eq: "map (deref M) (snd e) = map (deref (o_memory n)) (snd e)"
    if "set (map snd (snd e)) \<subseteq> set (pointers n)" for e :: "'h \<times> attribute_list"
    using that assms by (fastforce simp: deref_def)
  have sub: "e \<in> set (o_links n) \<Longrightarrow> set (map snd (snd e)) \<subseteq> set (pointers n)"
    "a \<in> set (o_addresses n) \<Longrightarrow> set (map snd (snd a)) \<subseteq> set (pointers n)"
    "q \<in> set (o_routes n) \<Longrightarrow> set (map snd (snd q)) \<subseteq> set (pointers n)" for e a q
    by (auto simp: pointers_def cache_pointers_def)
  show ?thesis
    using eq [OF sub(1)] eq [OF sub(2)] eq [OF sub(3)]
    by (auto simp: abs_netlink_def link_value_def address_value_def split: prod.split)
qed

lemma refines_readAnswer:
  assumes "\<And>k. malloc k"
  shows "refines (readAnswer K malloc fuel) (readMessage K fuel)"
  unfolding readAnswer_def readMessage_def
proof (rule refines_bnd [OF refines_openSocket], rule refines_if, rule refines_ret)
  show "refines (bnd newBuffer (\<lambda>buf. bnd (answerLoop K malloc fuel) (\<lambda>r. case r of
         Inl e \<Rightarrow> ret e | Inr _ \<Rightarrow> seq (freeBlock buf) (ret 0)))) (readLoop K fuel)"
    unfolding refines_def
  proof (intro allI impI)
    fix n c r n' c'
    assume good: "owning n" "all_cached n" and run: "bnd newBuffer (\<lambda>buf. bnd (answerLoop K malloc fuel)
      (\<lambda>r. case r of Inl e \<Rightarrow> ret e | Inr _ \<Rightarrow> seq (freeBlock buf) (ret 0))) (n, c) = (r, (n', c'))"
    let ?p = "brk (o_memory n)"
    let ?n = "n\<lparr>o_memory := snd (allocate ReadBuffer (o_memory n))\<rparr>"
    have fresh: "fresh_above (o_memory n)" and below: "\<forall>p \<in> set (pointers n). p < ?p"
      using good holds_below by (auto simp: owning_def)
    have abs: "abs_netlink ?n = abs_netlink n" using below by (intro abs_foreign) (auto simp: allocate_def)
    have b: "buffered ?p ?n" by (rule newBuffer_buffered [OF good(1)])
    have cached: "all_cached ?n"
      using good(2) by (auto simp: all_cached_def holds_data_def allocate_def split: if_splits)
    obtain q m d where loop: "answerLoop K malloc fuel (?n, c) = (q, (m, d))" by (rule run_exists)
    note vals = answerLoop_values [OF assms buffered_owning [OF b] cached loop]
    have m: "buffered ?p m"
      using keepsD2 [OF keeps_answerLoop [OF add_stable_cases(2)], of ?p "(?n, c)" K malloc fuel] b by (simp add: loop)
    let ?m = "m\<lparr>o_memory := (o_memory m)\<lparr>blocks := (blocks (o_memory m))(?p := None)\<rparr>\<rparr>"
    have freed: "freeBlock ?p (m, d) = (Inr (), (?m, d))" using m by (simp add: freeBlock_run buffered_def)
    have "abs_netlink ?m = abs_netlink m" using buffered_notin [OF m] by (intro abs_foreign) auto
    moreover have "owning ?m" using owning_free [OF buffered_owning [OF m] buffered_notin [OF m]] .
    moreover have "all_cached ?m" using vals by (auto simp: all_cached_def holds_data_def)
    ultimately show "readLoop K fuel (abs_netlink n, c) = (r, (abs_netlink n', c')) \<and> owning n' \<and> all_cached n'"
      using run vals buffered_owning [OF m]
      by (auto simp: bnd_def newBuffer_run loop abs freed seq_def ret_def split: sum.splits)
  qed
qed

lemma refines_sendRequest:
  "(\<And>k. malloc k) \<Longrightarrow> refines (sendRequest K malloc fuel request) (sendMessage K fuel request)"
  unfolding sendRequest_def sendMessage_def
  by (intro refines_bnd refines_if refines_ret refines_ext refines_openSocket refines_readAnswer)

lemma refines_takeKernelDump:
  "(\<And>k. malloc k) \<Longrightarrow> refines (takeKernelDump K malloc fuel) (getKernelDump K fuel)"
  unfolding takeKernelDump_def getKernelDump_def
  by (intro refines_seq refines_andThen refines_updm refines_bnd refines_ret refines_newRequest refines_sendRequest)
    (simp_all add: abs_netlink_def)

lemma refines_ensureKernelDump:
  "(\<And>k. malloc k) \<Longrightarrow> refines (ensureKernelDump K malloc fuel) (checkKernelDump K fuel)"
  unfolding ensureKernelDump_def checkKernelDump_def
  by (intro refines_bnd refines_if refines_ret refines_getm refines_takeKernelDump) (simp_all add: abs_netlink_def)

lemma refines_openNetlink:
  "(\<And>k. malloc k) \<Longrightarrow> refines (openNetlink K malloc fuel) (constructNetlink K fuel)"
  unfolding openNetlink_def constructNetlink_def
  by (intro refines_bnd refines_ret refines_openSocket refines_takeKernelDump)


section \<open>The operations\<close>

definition linkOf :: "int \<Rightarrow> (ifinfomsg \<times> attribute_list) list \<Rightarrow> ifinfomsg option" where
  "linkOf ifaceIndex ls = map_option fst (find (\<lambda>e. fst (fst e) = ifaceIndex) ls)"

definition routeDefault :: "'c kernel_if \<Rightarrow> (nat \<Rightarrow> bool) \<Rightarrow> nat \<Rightarrow> string \<Rightarrow> (netlink_obj, 'c, bool) meth" where
  "routeDefault K malloc fuel gatewayAddress =
     bnd (newRequest RTM_NEWROUTE [NLM_F_CREATE, NLM_F_REPLACE] PayRoute) (\<lambda>set_gw.
       case inet_aton K gatewayAddress of
         None \<Rightarrow> ret False
       | Some gw_addr \<Rightarrow> sendRequest K malloc fuel (snd (addAttribute RTA_GATEWAY 4 gw_addr set_gw)))"

definition upLink :: "'c kernel_if \<Rightarrow> (nat \<Rightarrow> bool) \<Rightarrow> nat \<Rightarrow> int \<Rightarrow> (netlink_obj, 'c, bool) meth" where
  "upLink K malloc fuel ifaceIndex = andThen (ensureKernelDump K malloc fuel)
     (bnd (getm o_links) (\<lambda>ls. case linkOf ifaceIndex ls of
         None \<Rightarrow> ret False
       | Some (i, f, t) \<Rightarrow>
           bnd (newRequest RTM_NEWLINK [NLM_F_CREATE] (PayLink (f OR IFF_UP) IFF_UP i)) (sendRequest K malloc fuel)))"

definition addressLink :: "'c kernel_if \<Rightarrow> (nat \<Rightarrow> bool) \<Rightarrow> nat \<Rightarrow> int \<Rightarrow> 32 word \<Rightarrow> 8 word \<Rightarrow> (netlink_obj, 'c, bool) meth" where
  "addressLink K malloc fuel ifaceIndex ip netmask =
     bnd (getm o_links) (\<lambda>ls. case linkOf ifaceIndex ls of
         None \<Rightarrow> ret False
       | Some (i, f, t) \<Rightarrow>
           bnd (newRequest RTM_NEWADDR [NLM_F_CREATE, NLM_F_REPLACE] (PayAddr netmask i))
             (\<lambda>msg. let msg = snd (addAttribute IFA_LOCAL 4 ip msg);
                        msg = snd (addAttribute IFA_BROADCAST 4 (broadcastAddress ip (unat netmask)) msg)
                    in sendRequest K malloc fuel msg))"

definition downLink :: "'c kernel_if \<Rightarrow> (nat \<Rightarrow> bool) \<Rightarrow> nat \<Rightarrow> int \<Rightarrow> (netlink_obj, 'c, bool) meth" where
  "downLink K malloc fuel ifaceIndex =
     bnd (getm o_links) (\<lambda>ls.
       case linkOf ifaceIndex (filter (\<lambda>e. snd (snd (fst e)) \<noteq> ARPHRD_LOOPBACK) ls) of
         None \<Rightarrow> ret False
       | Some (i, f, t) \<Rightarrow>
           bnd (newRequest RTM_NEWLINK [] (PayLink (NOT IFF_UP) IFF_UP i)) (sendRequest K malloc fuel))"

text \<open>A lookup hands out a copy of the entry, whose pointers are those of the cache.\<close>

definition nameAt :: "memory \<Rightarrow> string \<Rightarrow> ifinfomsg \<times> attribute_list \<Rightarrow> bool" where
  "nameAt M name e \<longleftrightarrow>
     (\<exists>a \<in> set (snd e). fst a = IFLA_IFNAME \<and> c_string (snd (deref M a)) = name)"

definition lookupLink :: "'c kernel_if \<Rightarrow> (nat \<Rightarrow> bool) \<Rightarrow> nat \<Rightarrow> string \<Rightarrow>
    (netlink_obj, 'c, (ifinfomsg \<times> attribute_list) option) meth" where
  "lookupLink K malloc fuel ifaceName = bnd (ensureKernelDump K malloc fuel) (\<lambda>ok.
     if \<not> ok then ret None else getm (\<lambda>n. find (nameAt (o_memory n) ifaceName) (o_links n)))"

definition lookupAddresses :: "'c kernel_if \<Rightarrow> (nat \<Rightarrow> bool) \<Rightarrow> nat \<Rightarrow> nat \<Rightarrow>
    (netlink_obj, 'c, bool \<times> (nat \<times> attribute_list) list) meth" where
  "lookupAddresses K malloc fuel interfaceIndex = bnd (ensureKernelDump K malloc fuel) (\<lambda>ok.
     if \<not> ok then ret (False, [])
     else getm (\<lambda>n. (True, filter (\<lambda>e. fst e = interfaceIndex) (o_addresses n))))"

datatype netlink_op =
    SetDefaultGateway string | LinkUp int | SetIP int "32 word" "8 word" | LinkDown int
  | FindLink string | FindAddresses nat

definition ended :: "('s, 'a) act \<Rightarrow> ('s, unit) act" where
  "ended m = bnd m (\<lambda>_. ret ())"

fun operate :: "'c kernel_if \<Rightarrow> (nat \<Rightarrow> bool) \<Rightarrow> nat \<Rightarrow> netlink_op \<Rightarrow> (netlink_obj, 'c, unit) meth" where
  "operate K malloc fuel (SetDefaultGateway a) = ended (routeDefault K malloc fuel a)"
| "operate K malloc fuel (LinkUp i) = ended (upLink K malloc fuel i)"
| "operate K malloc fuel (SetIP i ip m) = ended (addressLink K malloc fuel i ip m)"
| "operate K malloc fuel (LinkDown i) = ended (downLink K malloc fuel i)"
| "operate K malloc fuel (FindLink name) = ended (lookupLink K malloc fuel name)"
| "operate K malloc fuel (FindAddresses i) = ended (lookupAddresses K malloc fuel i)"

fun operateValue :: "'c kernel_if \<Rightarrow> nat \<Rightarrow> netlink_op \<Rightarrow> (netlink, 'c, unit) meth" where
  "operateValue K fuel (SetDefaultGateway a) = ended (setDefaultGateway K fuel a)"
| "operateValue K fuel (LinkUp i) = ended (linkUp K fuel i)"
| "operateValue K fuel (SetIP i ip m) = ended (setIP K fuel i ip m)"
| "operateValue K fuel (LinkDown i) = ended (linkDown K fuel i)"
| "operateValue K fuel (FindLink name) = ended (findLink K fuel name)"
| "operateValue K fuel (FindAddresses i) = ended (findAddresses K fuel i)"

definition session :: "'c kernel_if \<Rightarrow> (nat \<Rightarrow> bool) \<Rightarrow> nat \<Rightarrow> netlink_op list \<Rightarrow> (netlink_obj, 'c, unit) meth" where
  "session K malloc fuel ops = seq (openNetlink K malloc fuel) (for_each (operate K malloc fuel) ops)"

definition sessionValue :: "'c kernel_if \<Rightarrow> nat \<Rightarrow> netlink_op list \<Rightarrow> (netlink, 'c, unit) meth" where
  "sessionValue K fuel ops = seq (constructNetlink K fuel) (for_each (operateValue K fuel) ops)"

subsection \<open>They keep the cache in order\<close>

lemma keeps_operate: "keeps ordered (operate K malloc fuel op)"
  by (cases op)
    (auto simp: ended_def routeDefault_def upLink_def addressLink_def downLink_def lookupLink_def lookupAddresses_def
       Let_def split: option.split
       intro!: keeps_intros keeps_newRequest keeps_sendRequest keeps_ensureKernelDump)

lemma keeps_session: "keeps ordered (session K malloc fuel ops)"
  unfolding session_def by (intro keeps_intros keeps_openNetlink keeps_operate)

lemma refines_get:
  assumes "\<And>n. refines (k (f n)) (k' (g (abs_netlink n)))"
  shows "refines (bnd (getm f) k) (bnd (getm g) k')"
  unfolding refines_def
proof (intro allI impI)
  fix n c r n' c'
  assume good: "owning n" "all_cached n" and "bnd (getm f) k (n, c) = (r, (n', c'))"
  then have "k (f n) (n, c) = (r, (n', c'))" by (simp add: bnd_def getm_def)
  from refinesD [OF assms good this]
  show "bnd (getm g) k' (abs_netlink n, c) = (r, (abs_netlink n', c')) \<and> owning n' \<and> all_cached n'"
    by (simp add: bnd_def getm_def)
qed

lemma find_links:
  "find (\<lambda>l. ifi_index l = i) (map (link_value M) ls) = map_option (link_value M) (find (\<lambda>e. fst (fst e) = i) ls)"
  by (induction ls) (auto simp: link_value_def split: prod.splits)

lemma find_link_up:
  "find (\<lambda>l. ifi_type l \<noteq> ARPHRD_LOOPBACK \<and> ifi_index l = i) (map (link_value M) ls) =
   map_option (link_value M) (find (\<lambda>e. fst (fst e) = i) (filter (\<lambda>e. snd (snd (fst e)) \<noteq> ARPHRD_LOOPBACK) ls))"
  by (induction ls) (auto simp: link_value_def split: prod.splits)

lemma link_value_fields [simp]:
  "ifi_index (link_value M ((i, f, t), as)) = i" "ifi_flags (link_value M ((i, f, t), as)) = f"
  by (simp_all add: link_value_def)

lemma abs_links [simp]: "m_links (abs_netlink n) = map (link_value (o_memory n)) (o_links n)"
  by (simp add: abs_netlink_def)

lemma refines_ended: "refines m m' \<Longrightarrow> refines (ended m) (ended m')"
  unfolding ended_def by (intro refines_bnd refines_ret)


lemma refines_case:
  assumes "\<And>i f t as. refines (k (i, f, t)) (k' (link_value (o_memory n) ((i, f, t), as)))"
  shows "refines (case map_option fst x of None \<Rightarrow> ret False | Some h \<Rightarrow> k h)
    (case map_option (link_value (o_memory n)) x of None \<Rightarrow> ret False | Some l \<Rightarrow> k' l)"
proof (cases x)
  case (Some e)
  obtain i f t as where "e = ((i, f, t), as)" by (cases e) auto
  with Some show ?thesis using assms by simp
qed simp

lemma refines_upLink: "(\<And>k. malloc k) \<Longrightarrow> refines (upLink K malloc fuel i) (linkUp K fuel i)"
  unfolding upLink_def linkUp_def findByIndex_def linkOf_def
  by (intro refines_andThen refines_ensureKernelDump refines_get, assumption, simp only: abs_links find_links,
      rule refines_case) (simp add: refines_bnd refines_newRequest refines_sendRequest)

lemma refines_addressLink:
  "(\<And>k. malloc k) \<Longrightarrow> refines (addressLink K malloc fuel i ip m) (setIP K fuel i ip m)"
  unfolding addressLink_def setIP_def findByIndex_def linkOf_def
  by (rule refines_get, simp only: abs_links find_links, rule refines_case)
    (simp add: refines_bnd refines_newRequest refines_sendRequest Let_def)

lemma refines_downLink: "(\<And>k. malloc k) \<Longrightarrow> refines (downLink K malloc fuel i) (linkDown K fuel i)"
  unfolding downLink_def linkDown_def linkOf_def
  by (rule refines_get, simp only: abs_links find_link_up, rule refines_case)
    (simp add: refines_bnd refines_newRequest refines_sendRequest)

lemma refines_routeDefault:
  "(\<And>k. malloc k) \<Longrightarrow> refines (routeDefault K malloc fuel a) (setDefaultGateway K fuel a)"
  unfolding routeDefault_def setDefaultGateway_def
  by (intro refines_bnd refines_newRequest) (simp add: refines_sendRequest split: option.split)

lemma nameAt_value: "hasName name (link_value M e) \<longleftrightarrow> nameAt M name e"
  by (auto simp: hasName_def nameAt_def link_value_def deref_def split: prod.split)

lemma find_map_value:
  "find (hasName name) (map (link_value M) ls) = map_option (link_value M) (find (nameAt M name) ls)"
  by (induction ls) (auto simp: nameAt_value)

text \<open>The lookups give the entries whose values the lookups on values give.\<close>

lemma lookup_values:
  assumes "\<And>k. malloc k" "owning n" "all_cached n"
  shows "lookupLink K malloc fuel name (n, c) = (r, (n', c')) \<Longrightarrow>
      findLink K fuel name (abs_netlink n, c) =
        (map_sum id (map_option (link_value (o_memory n'))) r, (abs_netlink n', c')) \<and> owning n' \<and> all_cached n'"
    and "lookupAddresses K malloc fuel i (n, c) = (q, (n', c')) \<Longrightarrow>
      findAddresses K fuel i (abs_netlink n, c) =
        (map_sum id (\<lambda>(ok, es). (ok, map (address_value (o_memory n')) es)) q, (abs_netlink n', c')) \<and>
        owning n' \<and> all_cached n'"
proof -
  obtain s m d where dump: "ensureKernelDump K malloc fuel (n, c) = (s, (m, d))" by (rule run_exists)
  note R = refinesD [OF refines_ensureKernelDump [OF assms(1)] assms(2,3) dump]
  show "lookupLink K malloc fuel name (n, c) = (r, (n', c')) \<Longrightarrow>
      findLink K fuel name (abs_netlink n, c) =
        (map_sum id (map_option (link_value (o_memory n'))) r, (abs_netlink n', c')) \<and> owning n' \<and> all_cached n'"
    using R by (cases s) (auto simp: lookupLink_def findLink_def bnd_def dump ret_def getm_def find_map_value split: if_splits)
  have "filter (\<lambda>a. ifa_index a = i) (map (address_value M) es) = map (address_value M) (filter (\<lambda>e. fst e = i) es)"
    for M es by (induction es) (auto simp: address_value_def)
  then show "lookupAddresses K malloc fuel i (n, c) = (q, (n', c')) \<Longrightarrow>
      findAddresses K fuel i (abs_netlink n, c) =
        (map_sum id (\<lambda>(ok, es). (ok, map (address_value (o_memory n')) es)) q, (abs_netlink n', c')) \<and>
        owning n' \<and> all_cached n'"
    using R by (cases s)
      (auto simp: lookupAddresses_def findAddresses_def bnd_def dump ret_def getm_def abs_netlink_def split: if_splits)
qed

lemma refines_lookups:
  assumes "\<And>k. malloc k"
  shows "refines (ended (lookupLink K malloc fuel name)) (ended (findLink K fuel name))"
    "refines (ended (lookupAddresses K malloc fuel i)) (ended (findAddresses K fuel i))"
proof -
  have *: "refines (ended m) (ended m')"
    if "\<And>n c r n' c'. owning n \<Longrightarrow> all_cached n \<Longrightarrow> m (n, c) = (r, (n', c')) \<Longrightarrow>
      m' (abs_netlink n, c) = (map_sum id (h n') r, (abs_netlink n', c')) \<and> owning n' \<and> all_cached n'"
    for m :: "(netlink_obj, 'c, 'x) meth" and m' :: "(netlink, 'c, 'y) meth" and h
    unfolding refines_def
  proof (intro allI impI)
    fix n c r n' c'
    assume good: "owning n" "all_cached n" and run: "ended m (n, c) = (r, (n', c'))"
    obtain q k d where m: "m (n, c) = (q, (k, d))" by (rule run_exists)
    from that [OF good m] run m
    show "ended m' (abs_netlink n, c) = (r, (abs_netlink n', c')) \<and> owning n' \<and> all_cached n'"
      by (cases q) (auto simp: ended_def bnd_def ret_def)
  qed
  show "refines (ended (lookupLink K malloc fuel name)) (ended (findLink K fuel name))"
    by (rule *) (rule lookup_values(1) [OF assms])
  show "refines (ended (lookupAddresses K malloc fuel i)) (ended (findAddresses K fuel i))"
    by (rule *) (rule lookup_values(2) [OF assms])
qed

lemma refines_operate: "(\<And>k. malloc k) \<Longrightarrow> refines (operate K malloc fuel op) (operateValue K fuel op)"
  by (cases op) (simp_all add: refines_ended refines_lookups refines_upLink refines_addressLink refines_downLink
    refines_routeDefault)

lemma refines_for_each: "(\<And>x. refines (f x) (g x)) \<Longrightarrow> refines (for_each f xs) (for_each g xs)"
  by (induction xs) (auto intro: refines_seq)

lemma refines_session: "(\<And>k. malloc k) \<Longrightarrow> refines (session K malloc fuel ops) (sessionValue K fuel ops)"
  unfolding session_def sessionValue_def
  by (intro refines_seq refines_openNetlink refines_for_each refines_operate)

lemma newNetlink_facts: "owning newNetlink" "all_cached newNetlink" "abs_netlink newNetlink = emptyNetlink"
  by (simp_all add: newNetlink_def owning_def all_cached_def pointers_def cache_pointers_def fresh_above_def emptyMemory_def
    holds_data_def abs_netlink_def emptyNetlink_def)


subsection \<open>Releasing\<close>

definition without :: "nat list \<Rightarrow> netlink_obj \<Rightarrow> netlink_obj" where
  "without ps n = n\<lparr>o_memory := (o_memory n)\<lparr>blocks := (\<lambda>p. if p \<in> set ps then None else blocks (o_memory n) p)\<rparr>\<rparr>"

lemma for_each_append: "for_each f (xs @ ys) = seq (for_each f xs) (for_each f ys)"
proof (induction xs)
  case (Cons x xs)
  then show ?case by (simp add: seq_def bnd_assoc)
qed (simp add: seq_def)

lemma freeAttributes_pointers: "freeAttributes as = for_each freeBlock (map snd as)"
  unfolding freeAttributes_def by (induction as) simp_all

lemma for_each_freeAttributes:
  "for_each (\<lambda>e. freeAttributes (snd e)) es = for_each freeBlock (cache_pointers es)"
  by (induction es) (simp_all add: freeAttributes_pointers cache_pointers_def for_each_append)

lemma free_pointers:
  "distinct ps \<Longrightarrow> \<forall>p \<in> set ps. blocks (o_memory n) p \<noteq> None \<Longrightarrow>
   for_each freeBlock ps (n, c) = (Inr (), (without ps n, c))"
proof (induction ps arbitrary: n)
  case (Cons p ps)
  let ?n = "n\<lparr>o_memory := (o_memory n)\<lparr>blocks := (blocks (o_memory n))(p := None)\<rparr>\<rparr>"
  from Cons.prems have "for_each freeBlock (p # ps) (n, c) = for_each freeBlock ps (?n, c)"
    by (simp add: seq_def bnd_def freeBlock_run)
  also have "\<dots> = (Inr (), (without ps ?n, c))"
    using Cons.prems by (intro Cons.IH) auto
  also have "without ps ?n = without (p # ps) n" by (simp add: without_def fun_eq_iff)
  finally show ?case .
qed (simp add: without_def ret_def)

lemma without_append: "without qs (without ps n) = without (ps @ qs) n"
  by (simp add: without_def fun_eq_iff)

lemma without_caches [simp]:
  "o_links (without ps n) = o_links n" "o_addresses (without ps n) = o_addresses n" "o_routes (without ps n) = o_routes n"
  "blocks (o_memory (without ps n)) p = (if p \<in> set ps then None else blocks (o_memory n) p)"
  by (simp_all add: without_def)

definition uncached :: "netlink_obj \<Rightarrow> netlink_obj" where
  "uncached n = n\<lparr>o_links := [], o_addresses := [], o_routes := [], o_hasKernelDump := False\<rparr>"

text \<open>\<open>clearCache\<close> releases every block of the cache, once.\<close>

lemma emptyCache_run:
  assumes "owning n"
  shows "emptyCache (n, c) = (Inr (), (uncached (without (pointers n) n), c))"
proof -
  let ?l = "cache_pointers (o_links n)" and ?a = "cache_pointers (o_addresses n)" and ?r = "cache_pointers (o_routes n)"
  from assms have d: "distinct (?l @ ?a @ ?r)" and live: "\<forall>p \<in> set (?l @ ?a @ ?r). blocks (o_memory n) p \<noteq> None"
    by (auto simp: owning_def pointers_def holds_data_def)
  let ?n1 = "(without ?l n)\<lparr>o_links := []\<rparr>"
  let ?n2 = "(without ?a ?n1)\<lparr>o_addresses := []\<rparr>"
  have "for_each freeBlock ?l (n, c) = (Inr (), (without ?l n, c))"
    using d live by (intro free_pointers) auto
  moreover have "for_each freeBlock ?a (?n1, c) = (Inr (), (without ?a ?n1, c))"
    using d live by (intro free_pointers) auto
  moreover have "for_each freeBlock ?r (?n2, c) = (Inr (), (without ?r ?n2, c))"
    using d live by (intro free_pointers) auto
  ultimately have "emptyCache (n, c) =
      (Inr (), ((without ?r ?n2)\<lparr>o_routes := [], o_hasKernelDump := False\<rparr>, c))"
    by (simp add: emptyCache_def seq_def bnd_def getm_def updm_def for_each_freeAttributes)
  also have "(without ?r ?n2)\<lparr>o_routes := [], o_hasKernelDump := False\<rparr> = uncached (without (pointers n) n)"
    by (simp add: without_def uncached_def pointers_def fun_eq_iff)
  finally show ?thesis .
qed

section \<open>Properties\<close>




text \<open>A kernel that answers the dumps: a link, then an address, then nothing; and one that refuses the second.\<close>

definition dump_packets :: "(int \<times> nlmsg list) list" where
  "dump_packets = [(40, [LinkMessage (example_link 1), NLMSG_DONE]),
     (40, [AddressMessage \<lparr>ifa_index = 1, address_attributes = [(IFA_ADDRESS, ''abcd'')]\<rparr>, NLMSG_DONE]),
     (20, [NLMSG_DONE])]"

definition refused_packets :: "(int \<times> nlmsg list) list" where
  "refused_packets = [(40, [LinkMessage (example_link 1), NLMSG_DONE]), (20, [NLMSG_ERROR (-16)])]"

lemmas netlink_eval = openNetlink_def openSocket_def takeKernelDump_def newRequest_def sendRequest_def readAnswer_def
  newBuffer_def freeBlock_def allocate_def release_def saveLink_def saveAddress_def saveRoute_def saveMessage_def
  newNetlink_def emptyMemory_def playback_def act_defs andThen_def example_link_def

lemma session_answered:
  "\<exists>n. session playback (\<lambda>_. True) 2 [] (newNetlink, dump_packets) = (Inr (), (n, [])) \<and>
     o_hasKernelDump n \<and> pointers n = [1, 3] \<and> m_links (abs_netlink n) = [example_link 1]"
  by (simp add: session_def dump_packets_def netlink_eval pointers_def cache_pointers_def eval_nat_numeral
    link_value_def deref_def)



text \<open>The buffer of a read is released exactly where the read meets no error.\<close>

lemma handleAnswer_error: "handleAnswer malloc ms end n = (Inl e, n') \<Longrightarrow> e \<noteq> 0"
  by (induction malloc ms "end" n rule: handleAnswer.induct) (auto split: if_splits)

lemma answerLoop_error: "answerLoop K malloc fuel (n, c) = (Inr (Inl e), s) \<Longrightarrow> e \<noteq> 0"
  by (induction fuel arbitrary: n c)
    (auto simp: throw_def bnd_def ext_def dest: handleAnswer_error split: sum.splits prod.splits if_splits)

theorem read_buffer_released_iff:
  assumes "owning n" "o_netlinkInitialized n" "readAnswer K malloc fuel (n, c) = (Inr e, (n', c'))"
  shows "blocks (o_memory n') (brk (o_memory n)) = (if e = 0 then None else Some ReadBuffer)"
proof -
  let ?n = "n\<lparr>o_memory := snd (allocate ReadBuffer (o_memory n))\<rparr>" and ?p = "brk (o_memory n)"
  obtain q m d where loop: "answerLoop K malloc fuel (?n, c) = (q, (m, d))" by (rule run_exists)
  have m: "buffered ?p m"
    using keepsD2 [OF keeps_answerLoop [OF add_stable_cases(2)], of ?p "(?n, c)" K malloc fuel] newBuffer_buffered [OF assms(1)]
    by (simp add: loop)
  have run: "readAnswer K malloc fuel (n, c) = bnd newBuffer (\<lambda>buf. bnd (answerLoop K malloc fuel) (\<lambda>r. case r of
      Inl e \<Rightarrow> ret e | Inr _ \<Rightarrow> seq (freeBlock buf) (ret 0))) (n, c)"
    using assms(2) by (simp add: readAnswer_def openSocket_def bnd_def getm_def ret_def)
  show ?thesis
  proof (cases q)
    case (Inl x)
    with assms(3) run loop show ?thesis by (simp add: bnd_def newBuffer_run)
  next
    case (Inr x)
    show ?thesis
    proof (cases x)
      case (Inl y)
      with assms(3) run loop Inr answerLoop_error [of K malloc fuel ?n c y] m show ?thesis
        by (auto simp: bnd_def newBuffer_run ret_def buffered_def)
    next
      case (Inr z)
      have "freeBlock ?p (m, d) = (Inr (), (m\<lparr>o_memory := (o_memory m)\<lparr>blocks := (blocks (o_memory m))(?p := None)\<rparr>\<rparr>, d))"
        using m by (simp add: freeBlock_run buffered_def)
      with assms(3) run loop Inr \<open>q = Inr x\<close> show ?thesis
        by (auto simp: bnd_def newBuffer_run ret_def seq_def)
    qed
  qed
qed

text \<open>A dump that is refused half-way: the destructor leaves the name of the link and the buffer.\<close>

theorem refused_dump_leaks:
  "\<exists>n n'. session playback (\<lambda>_. True) 2 [] (newNetlink, refused_packets) = (Inr (), (n, [])) \<and>
     closeNetlink (n, []) = (Inr (), (n', [])) \<and>
     blocks (o_memory n') = (\<lambda>_. None)(1 := Some (AttributeData ''eth0''), 2 := Some ReadBuffer)"
  by (simp add: session_def refused_packets_def netlink_eval closeNetlink_def eval_nat_numeral fun_eq_iff)

end
