(* ===== verification/Errors.thy ===== *)
theory Errors
  imports SoftwareContainer
begin

text \<open>
  The classes of exceptions, as the headers declare them: a table for each header with the name of the
  class, its base, whether it declares a member \<open>m_message\<close> of its own, whether it overrides \<open>what\<close>, and
  the message of its default constructor. From them follow what \<open>what\<close> returns and which catch clauses
  take an exception; the other theories name exceptions by the constructors of \<open>exn\<close> and write the
  clauses as sets of them.
\<close>

section \<open>The headers\<close>

datatype exception_class =
    StdExceptionClass | StdInvalidArgumentClass | StdOutOfRangeClass | GlibErrorClass
  | SoftwareContainerErrorClass | GatewayErrorClass | GatewayParserErrorClass
  | CgroupsGatewayErrorClass | LimitRangeErrorClass | BadSuffixErrorClass
  | JSonErrorClass | InvalidInputErrorClass | NetworkGatewayErrorClass
  | IPAllocationErrorClass | DeviceNodeGatewayErrorClass | InvalidOperationErrorClass
  | ContainerErrorClass | InvalidContainerErrorClass | ContainerOptionParseErrorClass
  | ContainerUtilityInterfaceErrorClass | SoftwareContainerAgentErrorClass | ConfigErrorClass
  | ConfigInternalErrorClass | ConfigDependencyErrorClass | ConfigMandatoryErrorClass
  | ConfigUnknownErrorClass | ConfigFileErrorClass | ConfigNotFoundErrorClass
  | ConfigStoreErrorClass | ServiceManifestPathErrorClass | ServiceManifestParseErrorClass
  | CapabilityParseErrorClass

record class_decl =
  cls_name :: exception_class
  cls_base :: exception_class
  cls_member :: bool
  cls_what :: bool
  cls_default :: string

definition own_class :: "exception_class \<Rightarrow> exception_class \<Rightarrow> string \<Rightarrow> class_decl" where
  "own_class name base text = \<lparr>cls_name = name, cls_base = base, cls_member = True, cls_what = True, cls_default = text\<rparr>"

definition plain_class :: "exception_class \<Rightarrow> exception_class \<Rightarrow> string \<Rightarrow> class_decl" where
  "plain_class name base text = \<lparr>cls_name = name, cls_base = base, cls_member = False, cls_what = False, cls_default = text\<rparr>"

definition what_class :: "exception_class \<Rightarrow> exception_class \<Rightarrow> string \<Rightarrow> class_decl" where
  "what_class name base text = \<lparr>cls_name = name, cls_base = base, cls_member = False, cls_what = True, cls_default = text\<rparr>"

lemmas class_decls = own_class_def plain_class_def what_class_def

definition common_classes :: "class_decl list" where
  "common_classes = [own_class SoftwareContainerErrorClass StdExceptionClass ''SoftwareContainer error'']"

definition gateway_classes :: "class_decl list" where
  "gateway_classes = [plain_class GatewayErrorClass SoftwareContainerErrorClass ''Gateway error.'']"

definition parser_classes :: "class_decl list" where
  "parser_classes = [own_class GatewayParserErrorClass StdExceptionClass ''Gateway parser error'']"

definition cgroups_classes :: "class_decl list" where
  "cgroups_classes =
     [own_class CgroupsGatewayErrorClass SoftwareContainerErrorClass ''Cgroups Gateway exception'',
      plain_class LimitRangeErrorClass CgroupsGatewayErrorClass ''Range error is occurred when trying to limit memory'',
      plain_class BadSuffixErrorClass CgroupsGatewayErrorClass ''The configuration being applied has a bad suffix'',
      plain_class JSonErrorClass CgroupsGatewayErrorClass ''A configuration error has occured'',
      plain_class InvalidInputErrorClass CgroupsGatewayErrorClass ''The given value is invalid'']"

definition network_classes :: "class_decl list" where
  "network_classes =
     [own_class NetworkGatewayErrorClass SoftwareContainerErrorClass ''NetworkGateway exception'',
      plain_class IPAllocationErrorClass NetworkGatewayErrorClass ''An error is occurred when trying to generate IP address'']"

definition devicenode_classes :: "class_decl list" where
  "devicenode_classes = [own_class DeviceNodeGatewayErrorClass SoftwareContainerErrorClass ''DeviceNodeGateway exception'']"

definition container_classes :: "class_decl list" where
  "container_classes =
     [plain_class InvalidOperationErrorClass SoftwareContainerErrorClass ''Invalid operation on container'',
      plain_class ContainerErrorClass SoftwareContainerErrorClass ''Error in container implementation'',
      plain_class InvalidContainerErrorClass SoftwareContainerErrorClass ''Container is in an invalid state'']"

definition option_classes :: "class_decl list" where
  "option_classes = [plain_class ContainerOptionParseErrorClass SoftwareContainerErrorClass ''Container config parse error'']"

definition utility_classes :: "class_decl list" where
  "utility_classes = [own_class ContainerUtilityInterfaceErrorClass SoftwareContainerErrorClass ''SoftwareContainer error'']"

definition agent_classes :: "class_decl list" where
  "agent_classes = [own_class SoftwareContainerAgentErrorClass SoftwareContainerErrorClass ''SoftwareContainer error'']"

definition config_classes :: "class_decl list" where
  "config_classes =
     [own_class ConfigErrorClass SoftwareContainerErrorClass ''SoftwareContainer configuration error'',
      plain_class ConfigInternalErrorClass ConfigErrorClass ''Configuration error - fatal internal error in config code'',
      plain_class ConfigDependencyErrorClass ConfigErrorClass ''Configuration error - missing config dependency'',
      plain_class ConfigMandatoryErrorClass ConfigErrorClass ''Configuration error - missing mandatory config'',
      plain_class ConfigUnknownErrorClass ConfigErrorClass ''Configuration error - unknown config'',
      plain_class ConfigFileErrorClass ConfigErrorClass ''Configuration error - config file error'',
      plain_class ConfigNotFoundErrorClass ConfigErrorClass ''Configuration error - wrong group and/or key'']"

definition store_classes :: "class_decl list" where
  "store_classes =
     [own_class ConfigStoreErrorClass SoftwareContainerErrorClass ''Config Store error'',
      what_class ServiceManifestPathErrorClass ConfigStoreErrorClass ''Service Manifest path error'',
      what_class ServiceManifestParseErrorClass ConfigStoreErrorClass ''Config Store error - Service Manifest parse error'',
      what_class CapabilityParseErrorClass ConfigStoreErrorClass ''Config Store error - Capability parse error'']"

definition classes :: "class_decl list" where
  "classes = common_classes @ gateway_classes @ parser_classes @ cgroups_classes @ network_classes @ devicenode_classes @
     container_classes @ option_classes @ utility_classes @ agent_classes @ config_classes @ store_classes"

section \<open>Objects\<close>

text \<open>The classes an object has as parts, the most derived first. The declaration of a base comes before that of
  a class derived from it, so the number of the classes is fuel enough.\<close>

fun lineage_from :: "nat \<Rightarrow> exception_class \<Rightarrow> class_decl list" where
  "lineage_from 0 c = []"
| "lineage_from (Suc fuel) c = (case find (\<lambda>d. cls_name d = c) classes of
     None \<Rightarrow> [] | Some d \<Rightarrow> d # lineage_from fuel (cls_base d))"

definition lineage :: "exception_class \<Rightarrow> class_decl list" where
  "lineage c = lineage_from (length classes) c"

text \<open>The members an object has after construction, with a message or by default: a class with a member of its
  own constructs its base by default, one without hands the message on.\<close>

fun construct :: "class_decl list \<Rightarrow> string option \<Rightarrow> (exception_class \<times> string) list" where
  "construct [] m = []"
| "construct (d # ds) m =
     (let message = (case m of None \<Rightarrow> cls_default d | Some x \<Rightarrow> x) in
      if cls_member d then (cls_name d, message) # construct ds None else construct ds (Some message))"

text \<open>A virtual call: the last override, which reads the member that is found from its class upwards.\<close>

definition what :: "exception_class \<Rightarrow> string option \<Rightarrow> string option" where
  "what c m = (case find cls_member (dropWhile (\<lambda>d. \<not> cls_what d) (lineage c)) of
     None \<Rightarrow> None | Some d \<Rightarrow> map_of (construct (lineage c) m) (cls_name d))"

text \<open>A catch clause by reference takes the class it names and the classes derived from it.\<close>

definition caught_by :: "exception_class \<Rightarrow> exception_class \<Rightarrow> bool" where
  "caught_by clause c \<longleftrightarrow> clause = c \<or> clause \<in> cls_base ` set (lineage c)"

text \<open>\<open>UndefinedBehaviour\<close> and \<open>NoReturn\<close> are no exceptions of the program and have no class.\<close>

fun class_of :: "exn \<Rightarrow> exception_class option" where
  "class_of SoftwareContainerError = Some SoftwareContainerErrorClass"
| "class_of GatewayError = Some GatewayErrorClass"
| "class_of InvalidOperationError = Some InvalidOperationErrorClass"
| "class_of ContainerError = Some ContainerErrorClass"
| "class_of InvalidContainerError = Some InvalidContainerErrorClass"
| "class_of SoftwareContainerAgentError = Some SoftwareContainerAgentErrorClass"
| "class_of ContainerOptionParseError = Some ContainerOptionParseErrorClass"
| "class_of ContainerUtilityInterfaceError = Some ContainerUtilityInterfaceErrorClass"
| "class_of ConfigInternalError = Some ConfigInternalErrorClass"
| "class_of ConfigDependencyError = Some ConfigDependencyErrorClass"
| "class_of ConfigMandatoryError = Some ConfigMandatoryErrorClass"
| "class_of ConfigUnknownError = Some ConfigUnknownErrorClass"
| "class_of ConfigFileError = Some ConfigFileErrorClass"
| "class_of ConfigNotFoundError = Some ConfigNotFoundErrorClass"
| "class_of ServiceManifestPathError = Some ServiceManifestPathErrorClass"
| "class_of ServiceManifestParseError = Some ServiceManifestParseErrorClass"
| "class_of CapabilityParseError = Some CapabilityParseErrorClass"
| "class_of LimitRangeError = Some LimitRangeErrorClass"
| "class_of BadSuffixError = Some BadSuffixErrorClass"
| "class_of JSonError = Some JSonErrorClass"
| "class_of InvalidInputError = Some InvalidInputErrorClass"
| "class_of IPAllocationError = Some IPAllocationErrorClass"
| "class_of GatewayParserError = Some GatewayParserErrorClass"
| "class_of StdInvalidArgument = Some StdInvalidArgumentClass"
| "class_of StdOutOfRange = Some StdOutOfRangeClass"
| "class_of GlibError = Some GlibErrorClass"
| "class_of UndefinedBehaviour = None"
| "class_of NoReturn = None"

definition exns :: "exn list" where
  "exns = [SoftwareContainerError, GatewayError, InvalidOperationError, ContainerError,
     InvalidContainerError, SoftwareContainerAgentError, ContainerOptionParseError, ContainerUtilityInterfaceError,
     ConfigInternalError, ConfigDependencyError, ConfigMandatoryError, ConfigUnknownError,
     ConfigFileError, ConfigNotFoundError, ServiceManifestPathError, ServiceManifestParseError,
     CapabilityParseError, LimitRangeError, BadSuffixError, JSonError,
     InvalidInputError, IPAllocationError, GatewayParserError, StdInvalidArgument,
     StdOutOfRange, GlibError, UndefinedBehaviour, NoReturn]"

lemma all_exns: "e \<in> set exns"
  by (cases e) (simp_all add: exns_def)

definition caught_as :: "exception_class \<Rightarrow> exn \<Rightarrow> bool" where
  "caught_as clause e = (case class_of e of None \<Rightarrow> False | Some c \<Rightarrow> caught_by clause c)"

section \<open>Properties\<close>

text \<open>Whatever members an object has, \<open>what\<close> returns the message the exception was made with, or the
  one of the default constructor of its own class: \<open>returnError\<close> and the log get the text of the throw.\<close>

theorem what_returns_message:
  "list_all (\<lambda>d. what (cls_name d) (Some m) = Some m \<and> what (cls_name d) None = Some (cls_default d)) classes"
  by code_simp

text \<open>The sets of the catch clauses are those of the classes: \<open>is_sc_error\<close> is every exception whose class
  descends from \<open>SoftwareContainerError\<close>, and the gateways' clauses likewise.\<close>

theorem catch_clauses_by_class:
  "is_sc_error e \<longleftrightarrow> caught_as SoftwareContainerErrorClass e"
  "is_cgroups_error e \<longleftrightarrow> caught_as CgroupsGatewayErrorClass e"
  "e = GatewayError \<longleftrightarrow> caught_as GatewayErrorClass e"
  "e = IPAllocationError \<longleftrightarrow> caught_as IPAllocationErrorClass e"
  "e = GatewayParserError \<longleftrightarrow> caught_as GatewayParserErrorClass e"
  "e = ContainerOptionParseError \<longleftrightarrow> caught_as ContainerOptionParseErrorClass e"
proof -
  have "list_all (\<lambda>e. (is_sc_error e) = caught_as SoftwareContainerErrorClass e) exns" by code_simp
  then show "is_sc_error e \<longleftrightarrow> caught_as SoftwareContainerErrorClass e" using all_exns [of e] by (simp only: list_all_iff)
  have "list_all (\<lambda>e. (is_cgroups_error e) = caught_as CgroupsGatewayErrorClass e) exns" by code_simp
  then show "is_cgroups_error e \<longleftrightarrow> caught_as CgroupsGatewayErrorClass e" using all_exns [of e] by (simp only: list_all_iff)
  have "list_all (\<lambda>e. (e = GatewayError) = caught_as GatewayErrorClass e) exns" by code_simp
  then show "e = GatewayError \<longleftrightarrow> caught_as GatewayErrorClass e" using all_exns [of e] by (simp only: list_all_iff)
  have "list_all (\<lambda>e. (e = IPAllocationError) = caught_as IPAllocationErrorClass e) exns" by code_simp
  then show "e = IPAllocationError \<longleftrightarrow> caught_as IPAllocationErrorClass e" using all_exns [of e] by (simp only: list_all_iff)
  have "list_all (\<lambda>e. (e = GatewayParserError) = caught_as GatewayParserErrorClass e) exns" by code_simp
  then show "e = GatewayParserError \<longleftrightarrow> caught_as GatewayParserErrorClass e" using all_exns [of e] by (simp only: list_all_iff)
  have "list_all (\<lambda>e. (e = ContainerOptionParseError) = caught_as ContainerOptionParseErrorClass e) exns" by code_simp
  then show "e = ContainerOptionParseError \<longleftrightarrow> caught_as ContainerOptionParseErrorClass e" using all_exns [of e] by (simp only: list_all_iff)
qed

end
