(* ===== verification/Jobs.thy ===== *)
theory Jobs
  imports LxcContainer
begin

text \<open>
  The standard streams of a job (\<open>jobs/jobabstract.cpp\<close>) with both ends of their pipes, over the jobs of
  \<open>LxcContainer\<close>, which have the ends the process gets; and the connections of
  \<open>common/signalconnectionshandler.cpp\<close>, which end with their handler.
\<close>

section \<open>The streams\<close>

text \<open>\<open>m_stdin\<close>, \<open>m_stdout\<close> and \<open>m_stderr\<close> are pairs of the end to read from and the end to write to, -1 where
  nothing is assigned. What \<open>pipe\<close> and \<open>open\<close> give is a parameter; \<open>s_open\<close> are the descriptors that were
  opened for the job.\<close>

record job_streams =
  s_stdin :: "int \<times> int"
  s_stdout :: "int \<times> int"
  s_stderr :: "int \<times> int"
  s_open :: "int list"

definition newStreams :: job_streams where
  "newStreams = \<lparr>s_stdin = (-1, -1), s_stdout = (-1, -1), s_stderr = (-1, -1), s_open = []\<rparr>"

text \<open>\<open>pipe\<close> leaves the array alone where it fails; its result is not looked at.\<close>

definition captureStdin :: "(int \<times> int) option \<Rightarrow> job_streams \<Rightarrow> job_streams" where
  "captureStdin p s = (case p of None \<Rightarrow> s | Some (r, w) \<Rightarrow> s\<lparr>s_stdin := (r, w), s_open := s_open s @ [r, w]\<rparr>)"

definition captureStdout :: "(int \<times> int) option \<Rightarrow> job_streams \<Rightarrow> job_streams" where
  "captureStdout p s = (case p of None \<Rightarrow> s | Some (r, w) \<Rightarrow> s\<lparr>s_stdout := (r, w), s_open := s_open s @ [r, w]\<rparr>)"

definition captureStderr :: "(int \<times> int) option \<Rightarrow> job_streams \<Rightarrow> job_streams" where
  "captureStderr p s = (case p of None \<Rightarrow> s | Some (r, w) \<Rightarrow> s\<lparr>s_stderr := (r, w), s_open := s_open s @ [r, w]\<rparr>)"

text \<open>The descriptor of the file, -1 where it cannot be opened.\<close>

definition streams_setOutputFile :: "int \<Rightarrow> job_streams \<Rightarrow> job_streams" where
  "streams_setOutputFile fd s = s\<lparr>s_stdout := (fst (s_stdout s), fd), s_stderr := (fst (s_stderr s), fd),
     s_open := s_open s @ (if fd = -1 then [] else [fd])\<rparr>"

text \<open>What the program uses of the streams, and what the process gets.\<close>

definition job_stdin :: "job_streams \<Rightarrow> int" where "job_stdin s = snd (s_stdin s)"
definition job_stdout :: "job_streams \<Rightarrow> int" where "job_stdout s = fst (s_stdout s)"
definition job_stderr :: "job_streams \<Rightarrow> int" where "job_stderr s = fst (s_stderr s)"

definition streamed :: "job_streams \<Rightarrow> job \<Rightarrow> job" where
  "streamed s j = j\<lparr>j_stdin := fst (s_stdin s), j_stdout := snd (s_stdout s), j_stderr := snd (s_stderr s)\<rparr>"

datatype setup_op =
    CaptureStdin "(int \<times> int) option" | CaptureStdout "(int \<times> int) option" | CaptureStderr "(int \<times> int) option"
  | OutputFile int

fun set_up :: "setup_op \<Rightarrow> job_streams \<Rightarrow> job_streams" where
  "set_up (CaptureStdin p) = captureStdin p"
| "set_up (CaptureStdout p) = captureStdout p"
| "set_up (CaptureStderr p) = captureStderr p"
| "set_up (OutputFile fd) = streams_setOutputFile fd"

lemmas stream_defs = captureStdin_def captureStdout_def captureStderr_def streams_setOutputFile_def
  job_stdin_def job_stdout_def job_stderr_def

fun pipes_of :: "setup_op \<Rightarrow> (int \<times> int) set" where
  "pipes_of (CaptureStdin p) = set_option p"
| "pipes_of (CaptureStdout p) = set_option p"
| "pipes_of (CaptureStderr p) = set_option p"
| "pipes_of (OutputFile fd) = {}"

fun opened_by :: "setup_op \<Rightarrow> int list" where
  "opened_by (OutputFile fd) = (if fd = -1 then [] else [fd])"
| "opened_by (CaptureStdin p) = (case p of None \<Rightarrow> [] | Some (r, w) \<Rightarrow> [r, w])"
| "opened_by (CaptureStdout p) = (case p of None \<Rightarrow> [] | Some (r, w) \<Rightarrow> [r, w])"
| "opened_by (CaptureStderr p) = (case p of None \<Rightarrow> [] | Some (r, w) \<Rightarrow> [r, w])"

lemma fold_set_up_open: "s_open (fold set_up ops s) = s_open s @ concat (map opened_by ops)"
proof (induction ops arbitrary: s)
  case (Cons op ops)
  have "s_open (set_up op s) = s_open s @ opened_by op"
    by (cases op) (auto simp: stream_defs split: option.split)
  with Cons show ?case by simp
qed simp

definition connected_by :: "(int \<times> int) set \<Rightarrow> job_streams \<Rightarrow> bool" where
  "connected_by P s \<longleftrightarrow> s_stdin s \<in> insert (-1, -1) P \<and> s_stdout s \<in> insert (-1, -1) P \<and> s_stderr s \<in> insert (-1, -1) P"

text \<open>The program holds the other end of the pipe the process gets, on each stream, as long as no output file is
  set; every descriptor that was opened for the job stays open, as nothing closes one.\<close>

theorem streams_connected:
  assumes "\<forall>op \<in> set ops. \<forall>fd. op \<noteq> OutputFile fd"
  shows "connected_by (\<Union>op \<in> set ops. pipes_of op) (fold set_up ops newStreams) \<and>
    s_open (fold set_up ops newStreams) = concat (map opened_by ops)"
proof -
  have step: "connected_by (P \<union> pipes_of op) (set_up op s)" if "connected_by P s" "\<forall>fd. op \<noteq> OutputFile fd" for P op s
    using that by (cases op) (auto simp: connected_by_def stream_defs split: option.split)
  have "connected_by (P \<union> (\<Union>op \<in> set ops. pipes_of op)) (fold set_up ops s)" if "connected_by P s" for P s
    using that assms
  proof (induction ops arbitrary: P s)
    case (Cons op ops)
    from Cons.IH [OF step [OF Cons.prems(1)], of op] Cons.prems(2) show ?case by (simp add: Un_assoc)
  qed simp
  from this [of "{}" newStreams] show ?thesis
    by (simp add: fold_set_up_open connected_by_def newStreams_def)
qed

text \<open>An output file on a captured stream leaves the program with the read end of a pipe that the process
  does not write to.\<close>

theorem output_file_disconnects:
  "let s = streams_setOutputFile fd (captureStdout (Some (r, w)) newStreams) in
   job_stdout s = r \<and> j_stdout (streamed s newJob) = fd \<and> set (s_open s) \<supseteq> {r, w}"
  by (simp add: stream_defs streamed_def newStreams_def newJob_def)

section \<open>Connections\<close>

text \<open>The sources of a main loop that wait for processes, each with the number of its connection. Disconnecting
  removes the source of a connection; a process that ends calls its listeners and removes their sources.\<close>

record main_context =
  watches :: "(nat \<times> int) list"
  next_connection :: nat

type_synonym connections = "nat list"

definition addConnection :: "nat \<Rightarrow> connections \<Rightarrow> connections" where
  "addConnection connection m_connections = m_connections @ [connection]"

definition listenProcess :: "int \<Rightarrow> connections \<times> main_context \<Rightarrow> connections \<times> main_context" where
  "listenProcess pid s = (case s of (m_connections, c) \<Rightarrow>
     (addConnection (next_connection c) m_connections,
      c\<lparr>watches := watches c @ [(next_connection c, pid)], next_connection := Suc (next_connection c)\<rparr>))"

definition disconnect :: "nat \<Rightarrow> main_context \<Rightarrow> main_context" where
  "disconnect connection c = c\<lparr>watches := filter (\<lambda>w. fst w \<noteq> connection) (watches c)\<rparr>"

text \<open>The destructor.\<close>

definition dropConnections :: "connections \<Rightarrow> main_context \<Rightarrow> main_context" where
  "dropConnections m_connections c = fold disconnect m_connections c"

definition process_ends :: "int \<Rightarrow> main_context \<Rightarrow> nat list \<times> main_context" where
  "process_ends pid c =
     (map fst (filter (\<lambda>w. snd w = pid) (watches c)), c\<lparr>watches := filter (\<lambda>w. snd w \<noteq> pid) (watches c)\<rparr>)"

datatype watch_event = Listen int | Ends int

fun watch_step :: "watch_event \<Rightarrow> connections \<times> main_context \<Rightarrow> connections \<times> main_context" where
  "watch_step (Listen pid) s = listenProcess pid s"
| "watch_step (Ends pid) s = (fst s, snd (process_ends pid (snd s)))"

lemma dropConnections_watches:
  "watches (dropConnections cs c) = filter (\<lambda>w. fst w \<notin> set cs) (watches c)"
  unfolding dropConnections_def
proof (induction cs arbitrary: c)
  case (Cons x cs)
  then show ?case by (simp add: disconnect_def conj_commute)
qed simp

text \<open>The sources are those the context had before and those of the handler, and no number is used twice.\<close>

definition handled :: "(nat \<times> int) list \<Rightarrow> connections \<times> main_context \<Rightarrow> bool" where
  "handled old s \<longleftrightarrow> (\<forall>w \<in> set (watches (snd s)). w \<in> set old \<or> fst w \<in> set (fst s)) \<and>
     (\<forall>x \<in> set (fst s). x < next_connection (snd s) \<and> x \<notin> fst ` set old) \<and>
     (\<forall>w \<in> set old. fst w < next_connection (snd s))"

lemma handled_step: "handled old s \<Longrightarrow> handled old (watch_step e s)"
  by (cases e; cases s) (auto simp: handled_def listenProcess_def addConnection_def process_ends_def less_Suc_eq)

text \<open>After the handler is gone no listener it added is called, whatever ends; those of others stay unless their
  process has ended. It keeps a connection for every listener ever added: ended processes leave theirs.\<close>

theorem connections_end_with_handler:
  assumes "\<forall>w \<in> set (watches c). fst w < next_connection c" "fold watch_step es ([], c) = (cs, d)"
  shows "set (watches (dropConnections cs d)) \<subseteq> set (watches c)"
    and "length cs = length (filter (\<lambda>e. case e of Listen pid \<Rightarrow> True | Ends pid \<Rightarrow> False) es)"
proof -
  have "handled (watches c) (fold watch_step es s)" if "handled (watches c) s" for s
    using that
  proof (induction es arbitrary: s)
    case (Cons e es)
    from Cons.IH [OF handled_step [OF Cons.prems]] show ?case by simp
  qed simp
  from this [of "([], c)"] assms have "handled (watches c) (cs, d)" by (simp add: handled_def)
  then show "set (watches (dropConnections cs d)) \<subseteq> set (watches c)"
    by (auto simp: dropConnections_watches handled_def)
  have "length (fst (fold watch_step es s)) =
      length (fst s) + length (filter (\<lambda>e. case e of Listen pid \<Rightarrow> True | Ends pid \<Rightarrow> False) es)" for s
  proof (induction es arbitrary: s)
    case (Cons e es)
    then show ?case by (cases e; cases s) (simp_all add: listenProcess_def addConnection_def)
  qed simp
  from this [of "([], c)"] assms(2) show "length cs = length (filter (\<lambda>e. case e of Listen pid \<Rightarrow> True | Ends pid \<Rightarrow> False) es)"
    by simp
qed

end
