(* ===== verification/DBusInterface.thy ===== *)
theory DBusInterface
  imports AgentBus
begin

text \<open>
  The interface the agent has on D-Bus as the introspection data of the stub declares it, and the object
  of the stub that is registered with it: that the dispatcher unpacks the parameters the data declares
  and that what is returned has the declared type.
\<close>

section \<open>The introspection data\<close>

text \<open>Names and types of the arguments, in the notation of D-Bus.\<close>

record method_info =
  mi_name :: string
  mi_in :: "(string \<times> string) list"
  mi_out :: "(string \<times> string) list"

definition interfaceXml0 :: "method_info list" where
  "interfaceXml0 =
     [\<lparr>mi_name = ''List'', mi_in = [], mi_out = [(''containers'', ''ai'')]\<rparr>,
      \<lparr>mi_name = ''Create'', mi_in = [(''config'', ''s'')], mi_out = [(''containerID'', ''i'')]\<rparr>,
      \<lparr>mi_name = ''Execute'', mi_in = [(''containerID'', ''i''), (''commandLine'', ''s''), (''workingDirectory'', ''s''),
         (''outputFile'', ''s''), (''env'', ''a{ss}'')], mi_out = [(''pid'', ''i'')]\<rparr>,
      \<lparr>mi_name = ''Suspend'', mi_in = [(''containerID'', ''i'')], mi_out = []\<rparr>,
      \<lparr>mi_name = ''Resume'', mi_in = [(''containerID'', ''i'')], mi_out = []\<rparr>,
      \<lparr>mi_name = ''Destroy'', mi_in = [(''containerID'', ''i'')], mi_out = []\<rparr>,
      \<lparr>mi_name = ''BindMount'', mi_in = [(''containerID'', ''i''), (''pathInHost'', ''s''), (''pathInContainer'', ''s''),
         (''readOnly'', ''b'')], mi_out = []\<rparr>,
      \<lparr>mi_name = ''ListCapabilities'', mi_in = [], mi_out = [(''capabilities'', ''as'')]\<rparr>,
      \<lparr>mi_name = ''SetCapabilities'', mi_in = [(''containerID'', ''i''), (''capabilities'', ''as'')], mi_out = []\<rparr>]"

definition processStateChangedArgs :: "(string \<times> string) list" where
  "processStateChangedArgs = [(''containerID'', ''i''), (''processID'', ''u''), (''isRunning'', ''b''), (''exitCode'', ''u'')]"

fun variant_type :: "variant \<Rightarrow> string" where
  "variant_type (VInt i) = ''i''"
| "variant_type (VString s) = ''s''"
| "variant_type (VBool b) = ''b''"
| "variant_type (VStrings ss) = ''as''"
| "variant_type (VDict d) = ''a{ss}''"

text \<open>The tuples of \<open>returnValue\<close>; an error has no type.\<close>

fun reply_type :: "reply \<Rightarrow> string list option" where
  "reply_type ReturnNothing = Some []"
| "reply_type (ReturnInt i) = Some [''i'']"
| "reply_type (ReturnInts is) = Some [''ai'']"
| "reply_type (ReturnStrings ss) = Some [''as'']"
| "reply_type (ReturnError e) = None"

definition in_types :: "method_info \<Rightarrow> string list" where
  "in_types mi = map snd (mi_in mi)"

definition out_types :: "method_info \<Rightarrow> string list" where
  "out_types mi = map snd (mi_out mi)"

section \<open>The object\<close>

text \<open>Gio's answers: whether the introspection data can be read, the number of the request for the name,
  and whether the object can be registered, and under which number.\<close>

record gio =
  g_create_for_xml :: bool
  g_own_name :: "bool \<Rightarrow> string \<Rightarrow> int"
  g_register_object :: "string \<Rightarrow> int option"

record bus_object =
  connectionId :: int
  registeredId :: int
  introspection_data :: "method_info list option"
  m_connected :: bool
  m_objectPath :: string
  m_interfaceName :: string

definition newBusObject :: bus_object where
  "newBusObject = \<lparr>connectionId = 0, registeredId = 0, introspection_data = None, m_connected = False,
     m_objectPath = ''/com/pelagicore/SoftwareContainerAgent'',
     m_interfaceName = ''com.pelagicore.SoftwareContainerAgent''\<rparr>"

definition connect :: "gio \<Rightarrow> bool \<Rightarrow> string \<Rightarrow> bus_object \<Rightarrow> bus_object" where
  "connect G busType name o' =
     (let o1 = (if g_create_for_xml G then o'\<lparr>introspection_data := Some interfaceXml0\<rparr> else o')
      in o1\<lparr>connectionId := g_own_name G busType name\<rparr>)"

text \<open>Looking up the interface in introspection data that could not be read goes through a null pointer. The
  result tells whether the object was registered; if not the signal \<open>object_not_registered\<close> is emitted.\<close>

definition bus_acquired :: "gio \<Rightarrow> bus_object \<Rightarrow> (exn + bool) \<times> bus_object" where
  "bus_acquired G o' = (case introspection_data o' of
     None \<Rightarrow> (Inl UndefinedBehaviour, o')
   | Some _ \<Rightarrow> (case g_register_object G (m_objectPath o') of
       None \<Rightarrow> (Inr False, o')
     | Some i \<Rightarrow> (Inr True, o'\<lparr>registeredId := i, m_connected := True\<rparr>)))"

text \<open>The adaptor's constructor; the slots it connects to the signals for a lost name and a failed registration are in
  \<open>AgentMain\<close>.\<close>

definition newBusAdaptor :: "gio \<Rightarrow> bool \<Rightarrow> bus_object" where
  "newBusAdaptor G useSessionBus = connect G useSessionBus ''com.pelagicore.SoftwareContainerAgent'' newBusObject"

definition on_interface_get_property :: "variant \<Rightarrow> variant" where
  "on_interface_get_property property = property"

definition on_interface_set_property :: "variant \<Rightarrow> bool" where
  "on_interface_set_property value = True"

section \<open>Lemmas\<close>

lemma interface_cases:
  assumes "mi \<in> set interfaceXml0"
  obtains (List) "mi_name mi = ''List''" "in_types mi = []" "out_types mi = [''ai'']"
  | (Create) "mi_name mi = ''Create''" "in_types mi = [''s'']" "out_types mi = [''i'']"
  | (Execute) "mi_name mi = ''Execute''" "in_types mi = [''i'', ''s'', ''s'', ''s'', ''a{ss}'']" "out_types mi = [''i'']"
  | (OnContainer) "mi_name mi \<in> {''Suspend'', ''Resume'', ''Destroy''}" "in_types mi = [''i'']" "out_types mi = []"
  | (BindMount) "mi_name mi = ''BindMount''" "in_types mi = [''i'', ''s'', ''s'', ''b'']" "out_types mi = []"
  | (ListCapabilities) "mi_name mi = ''ListCapabilities''" "in_types mi = []" "out_types mi = [''as'']"
  | (SetCapabilities) "mi_name mi = ''SetCapabilities''" "in_types mi = [''i'', ''as'']" "out_types mi = []"
  using assms unfolding interfaceXml0_def in_types_def out_types_def by auto

lemma variant_types [simp]:
  "variant_type v = ''i'' \<longleftrightarrow> (\<exists>i. v = VInt i)" "variant_type v = ''s'' \<longleftrightarrow> (\<exists>s. v = VString s)"
  "variant_type v = ''b'' \<longleftrightarrow> (\<exists>b. v = VBool b)" "variant_type v = ''as'' \<longleftrightarrow> (\<exists>ss. v = VStrings ss)"
  "variant_type v = ''a{ss}'' \<longleftrightarrow> (\<exists>d. v = VDict d)"
  by (cases v; simp)+


definition replies :: "string list \<Rightarrow> bus_meth \<Rightarrow> bool" where
  "replies T m \<longleftrightarrow> (\<forall>s rs t. m s = (Inr rs, t) \<longrightarrow> (\<forall>r \<in> set rs. reply_type r = Some T))"

lemma replies_ret: "(\<And>r. r \<in> set rs \<Longrightarrow> reply_type r = Some T) \<Longrightarrow> replies T (ret rs)"
  by (simp add: replies_def ret_def)

lemma replies_bnd: "(\<And>a. replies T (f a)) \<Longrightarrow> replies T (bnd m f)"
  unfolding replies_def bnd_def by (fastforce split: sum.splits prod.splits)

lemma replies_seq: "replies T k \<Longrightarrow> replies T (seq m k)"
  unfolding seq_def by (rule replies_bnd)

lemma handlers_reply:
  "replies [''ai''] bus_List" "replies [''as''] bus_ListCapabilities" "replies [''i''] (bus_Create A conf)"
  "replies [''i''] (bus_Execute A cid cmd dir out env)" "replies [] (bus_Suspend A cid)" "replies [] (bus_Resume A cid)"
  "replies [] (bus_Destroy A cid)" "replies [] (bus_BindMount A cid src dst ro)" "replies [] (bus_SetCapabilities A cid caps)"
  unfolding bus_List_def bus_ListCapabilities_def bus_Create_def bus_Execute_def bus_Suspend_def bus_Resume_def
    bus_Destroy_def bus_BindMount_def bus_SetCapabilities_def
  by (intro replies_bnd replies_seq replies_ret; simp)+

text \<open>The dispatcher on the declared types, and on others.\<close>

lemma dispatch_declared:
  assumes "mi \<in> set interfaceXml0" "map variant_type params = in_types mi"
  shows "replies (out_types mi) (dispatch A (mi_name mi) params)"
  using assms(1)
proof (cases rule: interface_cases)
  case OnContainer
  with assms(2) handlers_reply show ?thesis by (auto simp: dispatch_def map_eq_Cons_conv)
qed (use assms(2) handlers_reply in \<open>auto simp: dispatch_def map_eq_Cons_conv\<close>)

lemma dispatch_undeclared:
  assumes "mi \<in> set interfaceXml0" "map variant_type params \<noteq> in_types mi" "in_types mi \<noteq> []"
  shows "dispatch A (mi_name mi) params = throw GlibError"
  using assms(1)
proof (cases rule: interface_cases)
  case OnContainer
  with assms(2) show ?thesis by (auto simp: dispatch_def split: list.split variant.split)
qed (use assms(2,3) in \<open>auto simp: dispatch_def split: list.split variant.split\<close>)

section \<open>Properties\<close>



text \<open>Registering is safe exactly where the introspection data could be read, which is only reported; the
  signal is then emitted on a connection.\<close>

theorem registration_needs_introspection:
  "fst (bus_acquired G (newBusAdaptor G useSessionBus)) = Inl UndefinedBehaviour \<longleftrightarrow> \<not> g_create_for_xml G"
  "bus_acquired G (newBusAdaptor G useSessionBus) = (Inr True, o') \<Longrightarrow> m_connected o' \<and> introspection_data o' = Some interfaceXml0"
  by (auto simp: bus_acquired_def newBusAdaptor_def connect_def newBusObject_def Let_def split: option.splits if_splits)

end
