(* ===== verification/MainOptions.thy ===== *)
theory MainOptions
  imports AgentConfig
begin

text \<open>
  The options of the program as \<open>main.cpp\<close> declares them to Glib's parser, with the variables they
  write. The parser itself is Glib's: it hands out the options it has found, in order, each with a value of
  the kind the entry was added with.
\<close>

section \<open>The entries\<close>

datatype option_target =
    ConfigPath | UserID | Timeout | ServiceManifestDir | DefaultServiceManifestDir | UseSessionBus

datatype option_kind = Filename | Number | Flag

record option_entry =
  long_name :: string
  short_name :: char
  arg_description :: string
  description :: string
  entry_kind :: option_kind
  entry_target :: option_target

definition yes_no :: "bool \<Rightarrow> string" where
  "yes_no b = (if b then ''true'' else ''false'')"

definition mainEntries :: "build \<Rightarrow> string \<Rightarrow> option_entry list" where
  "mainEntries B configFile =
     [\<lparr>long_name = ''config'', short_name = CHR ''c'', arg_description = ''<path>'',
        description = ''Path to SoftwareContainer configuration file, defaults to \"'' @ configFile @ ''\"'',
        entry_kind = Filename, entry_target = ConfigPath\<rparr>,
      \<lparr>long_name = ''user'', short_name = CHR ''u'', arg_description = ''<uid>'',
        description = ''Default user id to be used when starting processes in the container, defaults to 0'',
        entry_kind = Number, entry_target = UserID\<rparr>,
      \<lparr>long_name = ''timeout'', short_name = CHR ''t'', arg_description = ''<seconds>'',
        description = ''Timeout in seconds to wait for containers to shutdown, defaults to '' @
          to_string (default_shutdown_timeout B),
        entry_kind = Number, entry_target = Timeout\<rparr>,
      \<lparr>long_name = ''manifest-dir'', short_name = CHR ''m'', arg_description = ''<filepath>'',
        description = ''Path to a file or directory where service manifest(s) exist, defaults to \"'' @
          default_service_manifest_dir B @ ''\"'',
        entry_kind = Filename, entry_target = ServiceManifestDir\<rparr>,
      \<lparr>long_name = ''default-manifest-dir'', short_name = CHR ''d'', arg_description = ''<filepath>'',
        description = ''Path to a file or directory where default service manifest(s) exist, defaults to \"'' @
          default_default_service_manifest_dir B @ ''\"'',
        entry_kind = Filename, entry_target = DefaultServiceManifestDir\<rparr>,
      \<lparr>long_name = ''session-bus'', short_name = CHR ''b'', arg_description = '''',
        description = ''Use the session bus instead of the system bus, defaults to '' @ yes_no (default_use_session_bus B),
        entry_kind = Flag, entry_target = UseSessionBus\<rparr>]"

text \<open>The variables before the parser runs.\<close>

record main_variables =
  configPath :: string
  userID :: int
  parsed :: options

definition initialVariables :: main_variables where
  "initialVariables = \<lparr>configPath = '''', userID = 0,
     parsed = \<lparr>opt_manifest_dir = '''', opt_default_manifest_dir = '''', opt_timeout = SHUTDOWN_TIMEOUT_INITIAL,
       opt_session_bus = False\<rparr>\<rparr>"

text \<open>What the parser writes for one option that it has found; a name without an entry is an error of its own.\<close>

datatype option_value = FilenameValue string | NumberValue int | FlagValue

fun assign :: "option_target \<Rightarrow> option_value \<Rightarrow> main_variables \<Rightarrow> main_variables" where
  "assign ConfigPath (FilenameValue p) v = v\<lparr>configPath := p\<rparr>"
| "assign UserID (NumberValue i) v = v\<lparr>userID := i\<rparr>"
| "assign Timeout (NumberValue i) v = v\<lparr>parsed := (parsed v)\<lparr>opt_timeout := i\<rparr>\<rparr>"
| "assign ServiceManifestDir (FilenameValue p) v = v\<lparr>parsed := (parsed v)\<lparr>opt_manifest_dir := p\<rparr>\<rparr>"
| "assign DefaultServiceManifestDir (FilenameValue p) v = v\<lparr>parsed := (parsed v)\<lparr>opt_default_manifest_dir := p\<rparr>\<rparr>"
| "assign UseSessionBus FlagValue v = v\<lparr>parsed := (parsed v)\<lparr>opt_session_bus := True\<rparr>\<rparr>"
| "assign _ _ v = v"

definition assignAll :: "(option_target \<times> option_value) list \<Rightarrow> main_variables" where
  "assignAll found = fold (\<lambda>(t, x). assign t x) found initialVariables"

section \<open>Properties\<close>

text \<open>No two entries share a name or a variable.\<close>

theorem entries_distinct:
  "distinct (map long_name (mainEntries B f))" "distinct (map short_name (mainEntries B f))"
  "distinct (map entry_target (mainEntries B f))"
  by (simp_all add: mainEntries_def)

lemma assign_user: "parsed (assign UserID x v) = parsed v" "configPath (assign UserID x v) = configPath v"
  by (cases x; simp)+

lemma assign_parsed:
  "parsed v = parsed w \<Longrightarrow> configPath v = configPath w \<Longrightarrow>
   parsed (assign t x v) = parsed (assign t x w) \<and> configPath (assign t x v) = configPath (assign t x w)"
  by (cases t; cases x) simp_all

text \<open>The option \<open>--user\<close> has no effect: the configuration and the path of its file are those the other options
  give. A timeout that is the initial value, -2, counts as not given.\<close>

theorem user_option_ignored:
  "parsed (assignAll found) = parsed (assignAll (filter (\<lambda>o'. fst o' \<noteq> UserID) found)) \<and>
   configPath (assignAll found) = configPath (assignAll (filter (\<lambda>o'. fst o' \<noteq> UserID) found))"
proof -
  have "parsed (fold (\<lambda>(t, x). assign t x) found v) = parsed (fold (\<lambda>(t, x). assign t x) (filter (\<lambda>o'. fst o' \<noteq> UserID) found) w) \<and>
    configPath (fold (\<lambda>(t, x). assign t x) found v) = configPath (fold (\<lambda>(t, x). assign t x) (filter (\<lambda>o'. fst o' \<noteq> UserID) found) w)"
    if "parsed v = parsed w" "configPath v = configPath w" for v w
    using that
  proof (induction found arbitrary: v w)
    case (Cons o' found)
    obtain t x where o': "o' = (t, x)" by force
    show ?case
    proof (cases "t = UserID")
      case True
      then show ?thesis using Cons.IH [of "assign t x v" w] Cons.prems by (simp add: o' assign_user)
    next
      case False
      then show ?thesis
        using Cons.IH [of "assign t x v" "assign t x w"] assign_parsed [OF Cons.prems, of t x] by (simp add: o')
    qed
  qed simp
  then show ?thesis by (simp add: assignAll_def)
qed

theorem sentinel_timeout_ignored:
  "agentConfig (parsed (assignAll [(Timeout, NumberValue (-2))])) K B = agentConfig (parsed (assignAll [])) K B"
  by (simp add: assignAll_def initialVariables_def SHUTDOWN_TIMEOUT_INITIAL_def)

end
