(* ===== verification/Spec2Isabelle.thy ===== *)
theory Spec2Isabelle
  imports EnvGateway FileGateway CgroupsGateway DeviceNodeGateway Netlink NetlinkBytes NetworkGateway PulseWayland DBusGateway
    FileToolkit LxcContainer ContainerClient SoftwareContainer AgentConfig ConfigStore ContainerOptions Agent AgentBus
    AgentMain ConfigMemory Mounts FileTree Helpers NetlinkMemory Errors Jobs DBusInterface MainOptions
begin

text \<open>
  SoftwareContainer: a verification library.

  The program runs applications in LXC containers. An agent on D-Bus creates containers, opens them to
  the outside as its clients' capabilities allow, runs commands in them and shuts them down. Every
  capability is a set of configurations of gateways; a gateway opens one kind of resource (files,
  devices, the network, D-Bus, environment variables, control groups, sound, graphics).

  The parts, from the outside in, with the theory that models each:

  AgentMain: \<open>agent/src/main.cpp\<close> from the parsed options to the exit status, with the adaptor's part in the
  main loop (MainOptions has the options it declares): an iteration is a list of events (calls, processes
  that end, the fate of the name on the bus,
  signals), and the record \<open>adaptor\<close> holds the agent, the listeners of processes and what was sent.

  AgentBus: the dispatcher of D-Bus calls and the adaptor (\<open>agent/src/dbus\<close>): unpacking parameters, calling
  the agent, turning its errors into error replies. Runs of an agent are sequences of such calls.
  DBusInterface: the introspection data and the registration of the object. Errors: the exception classes of
  the headers, what \<open>what\<close> returns and which clauses catch them.

  Agent: \<open>agent/src/softwarecontaineragent.cpp\<close>, \<open>softwarecontainerfactory.cpp\<close> and
  \<open>containerutilityinterface.cpp\<close>. The state is the record \<open>agent\<close>: the map from IDs to workspaces, the
  pool of IDs, the two capability stores, the configuration for containers, the option parser.

  AgentConfig: \<open>agent/src/config\<close> and the part of \<open>main.cpp\<close> that builds the configuration from the command
  line, the configuration file and the defaults of the build.

  ConfigStore: \<open>agent/src/capability\<close>: finding and loading service manifests, the map of capabilities.

  ContainerOptions: \<open>agent/src/containeroptions\<close>: what a client may set when it creates a container.

  SoftwareContainer: \<open>libsoftwarecontainer/src/softwarecontainer.cpp\<close> with \<open>SoftwareContainerConfig\<close>. The record
  \<open>workspace\<close> holds the container, the gateways (the sum type \<open>any_gateway\<close> stands for the class pointers)
  and the state READY, SUSPENDED, TERMINATED or INVALID.

  LxcContainer: \<open>libsoftwarecontainer/src/container.cpp\<close> and \<open>jobs\<close>, Jobs for the ends of their streams and for
  \<open>common/signalconnectionshandler.cpp\<close>. The record \<open>container\<close> holds the state and
  whether there is a handle of LXC; what LXC answers is in the environment.

  Gateway: the state machine all gateways share (\<open>gateway.cpp\<close>), with the virtual functions as
  parameters. EnvGateway, FileGateway, CgroupsGateway, DeviceNodeGateway, NetworkGateway (with
  Netlink, NetlinkBytes for the attributes as they lie in memory, and NetlinkMemory for the memory the object
  takes and releases), PulseWayland and DBusGateway: the
  parsers, the state and the activation of each class of
  \<open>libsoftwarecontainer/src/gateway\<close>. Every gateway works on its container through the record
  \<open>container_if\<close> of ContainerInterface; ContainerClient proves what all of them keep of a container, and
  SoftwareContainer instantiates it with the container of LxcContainer.

  FileToolkit: mounts, directories and files with the handlers that undo them (\<open>common/filetoolkitwithundo.cpp\<close>,
  \<open>createdir.cpp\<close>, the clean-up handlers). Mounts: what is mounted over the life of a container, read off
  the calls, against the handlers it has. FileTree: \<open>recursivecopy.cpp\<close> and \<open>recursivedelete.cpp\<close> on a file
  system with links, for which FileToolkit makes one call. Helpers: \<open>parseInt\<close> and the property with
  listeners of \<open>observableproperty.h\<close>. Environ: the calls to the outside and the helpers of
  \<open>common/softwarecontainer-common.cpp\<close>. Json and GatewayConfig: \<open>common/jsonparser.cpp\<close> and
  \<open>common/gatewayconfig.cpp\<close> as values; ConfigMemory: the same class with its pointers, as the calls of jansson it
  makes. StdMap: \<open>std::map\<close> as an association list in the order of its keys. Prelude:
  exceptions, methods, invariants and triples of methods, decimal conversions.

  Conventions. A method is a function from the object and the world to a result or an exception and the new
  object and world (\<open>meth\<close>); assignments before a throw stay. The world is the list of the calls made so
  far, latest first; what a call answers is a function of that list, a parameter, so every theorem
  holds for every behaviour of the kernel, LXC and the libraries. Undefined behaviour of C++ is the exception
  \<open>UndefinedBehaviour\<close>. An \<open>int\<close> is an integer with the narrowing written out (\<open>to_int32\<close>) where the code
  converts; network addresses, masks and sizes are words. An uninitialised variable is a parameter.

  What the lemmas show. Per class: the invariants of its state and what its configurations lead to
  (targets of mounts are distinct, limits and modes are only raised, the rules of the network white-list,
  addresses are in the subnet and distinct, undo handlers run in reverse). For the container and the
  workspace: their life cycles, as relations between states that every run refines, and that
  the state of the workspace tells that of its container; and that a container which is destroyed leaves
  nothing mounted, from the promise of the kernel to detach what is mounted and to set propagation
  (\<open>detaches\<close> and \<open>propagates\<close>), without which a mount is lost (\<open>shared_mount_point_leak\<close>). For the files: a copy
  is a merge and a deletion is whole where no links are met, and where they are it goes beyond. For the stores and the configuration: refinement
  of a specification over the manifests, and precedence of the sources. For the agent: IDs are
  fresh, every container follows its life cycle in every run, every call is answered. For the program: its
  exit status, that its runs are runs of the agent, and that every process it starts is reported ended
  once. For the bus: the dispatcher and the introspection data agree. For the memory of netlink: the cache of pointers
  refines the one of values, and what the destructor releases. For the memory of configurations: no pointer dangles, what is leaked, and that the values of the other
  theories are right, since no array is shared where an assigned object is destroyed next, as the
  one assignment of the program has it. Where the
  code does something else than it means to, a property states what it does.

  Interfaces. \<open>dictionary\<close> (the map), \<open>json_reader\<close> (the three typed readers), \<open>configuration\<close> (appending
  gateway configurations), \<open>container_frame\<close>, \<open>kernel_frame\<close> and \<open>network_frame\<close> (what the gateways rely
  on) and \<open>id_pool\<close> (the IDs of the agent) are locales, each interpreted on the definitions of the code.

  Bounds. Four loops of the code have no bound of their own and take fuel. Reading an answer from netlink: a
  property says which answers end it, and Netlink that a failing socket never does. The search for a
  mount point ends with more fuel than there are entries (\<open>mountedLoop_returns\<close>). The climb to a missing
  parent directory in the container gets the length of the path, which is enough
  (\<open>createParentDirectories_returns\<close>). Appending to an array returns with more fuel than the source has
  elements (\<open>append_returns\<close>), and never where the source is the array itself. Creating directories
  needs no fuel: a parent path is shorter than the path.

  Not modelled. Logging, profiling and the text of the messages that errors are thrown with. That the state of a workspace notifies listeners,
  since no code adds one to it. The socket addresses of netlink. The walks of \<open>nftw\<close> and \<open>ftw\<close>: in FileToolkit the environment answers
  for them, and in FileTree the list of what they visit is a parameter; times, owners and modes of files.
  The mount namespace of a container: what is mounted or moved in it does not count in Mounts. Glib's own parts: the sources of
  events, and the parsers of key files and of the command line, whose result is a parameter.
  The function \<open>emitSignal\<close> of the stub, which nothing calls. The destruction of a whole agent,
  whose order is that of the C++ library. The D-Bus proxy, the tests and the examples.
\<close>

end
